(* ===== verification/Prelude.thy ===== *)
theory Prelude
  imports Main
begin

text \<open>
  Shared vocabulary of the development: the named collections the component theories fill,
  the result of a Go call that may panic, 64-bit arithmetic of Go's \<open>int\<close> and
  \<open>time.Duration\<close>, and the generic lemmas on lists, sums and maps that the components use.
\<close>

named_theorems go_defs \<open>definitions of the Go standard library fragment\<close>
named_theorems comp_defs \<open>definitions unfolded when a component operation is evaluated\<close>
named_theorems inv_intros \<open>operations preserve the invariant of their component\<close>

section \<open>Results\<close>

text \<open>
  A Go call either returns or panics. The error return of Go, a pair of a value and an
  \<open>error\<close>, is a sum with \<open>Inl\<close> for a non-nil error.
\<close>

datatype 'a go = Ret 'a | Panic string

fun gobind :: "'a go \<Rightarrow> ('a \<Rightarrow> 'b go) \<Rightarrow> 'b go" where
  "gobind (Ret x) f = f x"
| "gobind (Panic m) f = Panic m"

lemma gobind_Ret_iff: "gobind m f = Ret y \<longleftrightarrow> (\<exists>x. m = Ret x \<and> f x = Ret y)"
  by (cases m) auto

lemma gobind_Ret_right [simp]: "gobind m Ret = m"
  by (cases m) auto

lemma gobind_assoc: "gobind (gobind m f) g = gobind m (\<lambda>x. gobind (f x) g)"
  by (cases m) auto

fun panics :: "'a go \<Rightarrow> bool" where
  "panics (Ret _) = False"
| "panics (Panic _) = True"

lemma not_panics_iff: "\<not> panics m \<longleftrightarrow> (\<exists>x. m = Ret x)"
  by (cases m) auto

text \<open>Sequencing of calls that return an error.\<close>

fun ebind :: "'e + 'a \<Rightarrow> ('a \<Rightarrow> 'e + 'b) \<Rightarrow> 'e + 'b" where
  "ebind (Inl e) f = Inl e"
| "ebind (Inr x) f = f x"

lemma ebind_Inr_iff: "ebind m f = Inr y \<longleftrightarrow> (\<exists>x. m = Inr x \<and> f x = Inr y)"
  by (cases m) auto

lemma ebind_Inl_iff:
  "ebind m f = Inl e \<longleftrightarrow> m = Inl e \<or> (\<exists>x. m = Inr x \<and> f x = Inl e)"
  by (cases m) auto

fun map_err :: "('e \<Rightarrow> 'f) \<Rightarrow> 'e + 'a \<Rightarrow> 'f + 'a" where
  "map_err f (Inl e) = Inl (f e)"
| "map_err f (Inr x) = Inr x"

lemma map_err_Inr_iff [simp]: "map_err f m = Inr y \<longleftrightarrow> m = Inr y"
  by (cases m) auto

lemma map_err_Inl_iff: "map_err f m = Inl e' \<longleftrightarrow> (\<exists>e. m = Inl e \<and> e' = f e)"
  by (cases m) auto

section \<open>64-bit integers\<close>

text \<open>Go's \<open>int\<close> and \<open>time.Duration\<close> are two's complement 64-bit integers on the platforms
  the program runs on. Values are kept as \<^typ>\<open>int\<close>; \<open>wrap64\<close> is applied where an operation
  of the source can overflow.\<close>

definition max64 :: int where "max64 = 2 ^ 63 - 1"
definition min64 :: int where "min64 = - (2 ^ 63)"

definition in64 :: "int \<Rightarrow> bool" where
  "in64 x \<longleftrightarrow> min64 \<le> x \<and> x \<le> max64"

definition wrap64 :: "int \<Rightarrow> int" where
  "wrap64 x = (x + 2 ^ 63) mod 2 ^ 64 - 2 ^ 63"

definition sat64 :: "int \<Rightarrow> int" where
  "sat64 x = max min64 (min max64 x)"

lemmas int64_defs = max64_def min64_def in64_def

lemma wrap64_id [simp]: "in64 x \<Longrightarrow> wrap64 x = x"
  by (simp add: wrap64_def int64_defs)

lemma wrap64_in64: "in64 (wrap64 x)"
  unfolding wrap64_def int64_defs
  using pos_mod_sign [of "2 ^ 64" "x + 2 ^ 63"] pos_mod_bound [of "2 ^ 64" "x + 2 ^ 63"]
  by simp

lemma in64_mono: "0 \<le> x \<Longrightarrow> x \<le> y \<Longrightarrow> in64 y \<Longrightarrow> in64 x"
  by (simp add: int64_defs)

lemma sat64_id [simp]: "in64 x \<Longrightarrow> sat64 x = x"
  by (simp add: sat64_def in64_def)

lemma sat64_in64 [simp]: "in64 (sat64 x)"
  by (simp add: sat64_def int64_defs)

lemma sat64_nonneg_iff [simp]: "0 \<le> sat64 x \<longleftrightarrow> 0 \<le> x"
  by (auto simp: sat64_def int64_defs)

lemma sat64_pos_iff: "0 < sat64 x \<longleftrightarrow> 0 < x"
  by (auto simp: sat64_def int64_defs)

lemma sat64_le_0_iff: "sat64 x \<le> 0 \<longleftrightarrow> x \<le> 0"
  using sat64_pos_iff [of x] by linarith

lemma sat64_mono: "x \<le> y \<Longrightarrow> sat64 x \<le> sat64 y"
  by (auto simp: sat64_def)

text \<open>Go's integer division truncates towards zero.\<close>

definition go_quot :: "int \<Rightarrow> int \<Rightarrow> int" where
  "go_quot a b = sgn a * sgn b * (\<bar>a\<bar> div \<bar>b\<bar>)"

lemma go_quot_nonneg: "0 \<le> a \<Longrightarrow> 0 < b \<Longrightarrow> go_quot a b = a div b"
  by (cases "a = 0") (simp_all add: go_quot_def)

lemma go_quot_neg: "a < 0 \<Longrightarrow> 0 < b \<Longrightarrow> go_quot a b \<le> 0"
  by (simp add: go_quot_def pos_imp_zdiv_nonneg_iff)

section \<open>Lists and maps\<close>

lemma find_Some_in: "List.find P xs = Some x \<Longrightarrow> x \<in> set xs \<and> P x"
  by (induction xs) (auto split: if_splits)

lemma find_app:
  "List.find P (xs @ ys) = (case List.find P xs of Some x \<Rightarrow> Some x | None \<Rightarrow> List.find P ys)"
  by (induction xs) auto

lemma find_unique_iff:
  assumes "\<And>a b. a \<in> set xs \<Longrightarrow> b \<in> set xs \<Longrightarrow> P a \<Longrightarrow> P b \<Longrightarrow> a = b"
  shows "List.find P xs = Some x \<longleftrightarrow> {y \<in> set xs. P y} = {x}"
proof
  assume "List.find P xs = Some x"
  from find_Some_in [OF this] show "{y \<in> set xs. P y} = {x}"
    using assms by blast
next
  assume one: "{y \<in> set xs. P y} = {x}"
  then obtain y where y: "List.find P xs = Some y"
    by (cases "List.find P xs") (auto simp: find_None_iff)
  from find_Some_in [OF this] one have "y = x" by blast
  with y show "List.find P xs = Some x" by simp
qed

lemma length_one_conv: "length xs = 1 \<longleftrightarrow> (\<exists>x. xs = [x])"
  by (cases xs) auto

lemma filter_unique:
  assumes "distinct xs" and "x \<in> set xs" and "\<And>y. y \<in> set xs \<Longrightarrow> P y \<longleftrightarrow> y = x"
  shows "filter P xs = [x]"
proof -
  have "filter P xs = filter (\<lambda>y. y = x) xs"
    using assms(3) by (auto intro: filter_cong)
  also have "\<dots> = [x]"
    using assms(1,2) by (induction xs) (auto simp: filter_empty_conv)
  finally show ?thesis .
qed

lemma card_dom_upd_new:
  "finite (dom m) \<Longrightarrow> m k = None \<Longrightarrow> card (dom (m(k \<mapsto> v))) = Suc (card (dom m))"
  by (simp add: domIff)

lemma card_dom_delete:
  "finite (dom m) \<Longrightarrow> m k = Some v \<Longrightarrow> card (dom (m(k := None))) = card (dom m) - 1"
  by (simp add: domI dom_fun_upd)

end
