(* ===== verification/Go_Strings.thy ===== *)
theory Go_Strings
  imports Prelude
begin

text \<open>
  The fragment of Go's \<open>strings\<close>, \<open>bytes\<close> and \<open>strconv\<close> packages that the sources call. A Go
  string is a sequence of bytes, and so is a HOL \<^typ>\<open>string\<close>: a \<^typ>\<open>char\<close> is one byte.
  An index result of \<open>-1\<close> is \<open>None\<close>.
\<close>

section \<open>Prefixes, suffixes, search\<close>

definition HasPrefix :: "string \<Rightarrow> string \<Rightarrow> bool" where
  "HasPrefix s p \<longleftrightarrow> take (length p) s = p"

definition HasSuffix :: "string \<Rightarrow> string \<Rightarrow> bool" where
  "HasSuffix s p \<longleftrightarrow> length p \<le> length s \<and> drop (length s - length p) s = p"

fun IndexByte :: "string \<Rightarrow> char \<Rightarrow> nat option" where
  "IndexByte [] c = None"
| "IndexByte (x # xs) c = (if x = c then Some 0 else map_option Suc (IndexByte xs c))"

fun Index :: "string \<Rightarrow> string \<Rightarrow> nat option" where
  "Index [] p = (if p = [] then Some 0 else None)"
| "Index (x # xs) p = (if HasPrefix (x # xs) p then Some 0 else map_option Suc (Index xs p))"

definition Contains :: "string \<Rightarrow> string \<Rightarrow> bool" where
  "Contains s p \<longleftrightarrow> Index s p \<noteq> None"

lemma HasPrefix_iff: "HasPrefix s p \<longleftrightarrow> (\<exists>r. s = p @ r)"
proof
  assume "HasPrefix s p"
  then have "s = p @ drop (length p) s"
    by (metis HasPrefix_def append_take_drop_id)
  then show "\<exists>r. s = p @ r" ..
qed (auto simp: HasPrefix_def)

lemma HasPrefix_append [simp]: "HasPrefix (p @ r) p"
  by (simp add: HasPrefix_def)

lemma HasPrefix_mono: "HasPrefix s p \<Longrightarrow> HasPrefix (s @ t) p"
  by (auto simp: HasPrefix_iff)

lemma HasSuffix_iff: "HasSuffix s p \<longleftrightarrow> (\<exists>r. s = r @ p)"
proof
  assume "HasSuffix s p"
  then have "s = take (length s - length p) s @ p"
    by (metis HasSuffix_def append_take_drop_id)
  then show "\<exists>r. s = r @ p" ..
qed (auto simp: HasSuffix_def)

lemma IndexByte_None_iff: "IndexByte s c = None \<longleftrightarrow> c \<notin> set s"
  by (induction s) auto

lemma IndexByte_Some:
  "IndexByte s c = Some i \<Longrightarrow> i < length s \<and> s ! i = c \<and> c \<notin> set (take i s)"
  by (induction s arbitrary: i) (auto split: if_splits)

lemma IndexByte_append: "c \<notin> set p \<Longrightarrow> IndexByte (p @ c # r) c = Some (length p)"
  by (induction p) auto

lemma IndexByte_append_Some: "IndexByte s c = Some i \<Longrightarrow> IndexByte (s @ t) c = Some i"
  by (induction s arbitrary: i) (auto split: if_splits)

lemma IndexByte_split:
  "IndexByte s c = Some i \<longleftrightarrow> (\<exists>p r. s = p @ c # r \<and> length p = i \<and> c \<notin> set p)"
proof
  assume i: "IndexByte s c = Some i"
  then have "s = take i s @ c # drop (Suc i) s"
    by (metis IndexByte_Some id_take_nth_drop)
  moreover have "length (take i s) = i"
    using IndexByte_Some [OF i] by simp
  ultimately show "\<exists>p r. s = p @ c # r \<and> length p = i \<and> c \<notin> set p"
    using IndexByte_Some [OF i] by blast
qed (auto simp: IndexByte_append)

lemma Index_Some: "Index s p = Some i \<Longrightarrow> \<exists>a b. s = a @ p @ b \<and> length a = i"
proof (induction s arbitrary: i)
  case (Cons x xs)
  show ?case
  proof (cases "HasPrefix (x # xs) p")
    case True
    then show ?thesis using Cons.prems by (auto simp: HasPrefix_iff)
  next
    case False
    then obtain j where j: "Index xs p = Some j" "i = Suc j"
      using Cons.prems by auto
    then obtain a b where "xs = a @ p @ b" "length a = j"
      using Cons.IH by blast
    then show ?thesis using j
      by (intro exI [of _ "x # a"] exI [of _ b]) simp
  qed
qed (auto split: if_splits)

lemma Index_append_not_None: "Index (a @ p @ b) p \<noteq> None"
proof (induction a)
  case Nil
  have "HasPrefix (p @ b) p" by simp
  then show ?case by (cases "p @ b") auto
qed auto

lemma Contains_iff: "Contains s p \<longleftrightarrow> (\<exists>a b. s = a @ p @ b)"
  unfolding Contains_def using Index_Some Index_append_not_None by fastforce

lemma Contains_append_left: "Contains s p \<Longrightarrow> Contains (t @ s) p"
  unfolding Contains_iff by (metis append.assoc)

lemma Contains_append_right: "Contains s p \<Longrightarrow> Contains (s @ t) p"
  unfolding Contains_iff by (metis append.assoc)

section \<open>Splitting and joining\<close>

text \<open>\<open>strings.Split\<close> and \<open>strings.SplitSeq\<close> with a one-byte separator.\<close>

fun Split :: "char \<Rightarrow> string \<Rightarrow> string list" where
  "Split c [] = [[]]"
| "Split c (x # xs) =
     (if x = c then [] # Split c xs
      else (case Split c xs of [] \<Rightarrow> [[x]] | p # ps \<Rightarrow> (x # p) # ps))"

fun SplitN :: "nat \<Rightarrow> char \<Rightarrow> string \<Rightarrow> string list" where
  "SplitN 0 c s = []"
| "SplitN (Suc 0) c s = [s]"
| "SplitN (Suc (Suc n)) c s =
     (case IndexByte s c of
        None \<Rightarrow> [s]
      | Some i \<Rightarrow> take i s # SplitN (Suc n) c (drop (Suc i) s))"

fun Join :: "string list \<Rightarrow> string \<Rightarrow> string" where
  "Join [] sep = []"
| "Join [x] sep = x"
| "Join (x # y # zs) sep = x @ sep @ Join (y # zs) sep"

lemma Split_not_Nil [simp]: "Split c s \<noteq> []"
  by (induction s) (auto split: list.splits)

lemma Split_no_sep: "p \<in> set (Split c s) \<Longrightarrow> c \<notin> set p"
proof (induction s arbitrary: p)
  case (Cons x xs)
  obtain q qs where "Split c xs = q # qs" by (metis Split_not_Nil neq_Nil_conv)
  then show ?case using Cons by (auto split: if_splits)
qed auto

lemma Split_append_sep:
  "c \<notin> set p \<Longrightarrow> Split c (p @ c # r) = p # Split c r"
  by (induction p) auto

lemma Split_none: "c \<notin> set p \<Longrightarrow> Split c p = [p]"
  by (induction p) auto

lemma Join_Split: "Join (Split c s) [c] = s"
proof (induction s)
  case (Cons x xs)
  obtain q qs where q: "Split c xs = q # qs" by (metis Split_not_Nil neq_Nil_conv)
  show ?case
    using Cons.IH q by (cases qs) auto
qed auto

lemma Split_Join:
  "ps \<noteq> [] \<Longrightarrow> \<forall>p\<in>set ps. c \<notin> set p \<Longrightarrow> Split c (Join ps [c]) = ps"
proof (induction ps "[c]" rule: Join.induct)
  case (3 x y zs)
  then show ?case by (simp add: Split_append_sep)
qed (auto simp: Split_none)

lemma Join_inj:
  assumes "ps \<noteq> []" "qs \<noteq> []" "\<forall>p\<in>set ps. c \<notin> set p" "\<forall>q\<in>set qs. c \<notin> set q"
    and "Join ps [c] = Join qs [c]"
  shows "ps = qs"
  using assms Split_Join by metis

lemma SplitN_3_append:
  "c \<notin> set a \<Longrightarrow> c \<notin> set b \<Longrightarrow> SplitN 3 c (a @ c # b @ c # r) = [a, b, r]"
  by (simp add: numeral_3_eq_3 IndexByte_append)

lemma SplitN_2_append: "c \<notin> set a \<Longrightarrow> SplitN 2 c (a @ c # r) = [a, r]"
  by (simp add: numeral_2_eq_2 IndexByte_append)

section \<open>Replacing and trimming\<close>

text \<open>\<open>strings.ReplaceAll\<close> with one-byte old and new strings.\<close>

definition ReplaceAllByte :: "string \<Rightarrow> char \<Rightarrow> char \<Rightarrow> string" where
  "ReplaceAllByte s old new = map (\<lambda>x. if x = old then new else x) s"

lemma length_ReplaceAllByte [simp]: "length (ReplaceAllByte s a b) = length s"
  by (simp add: ReplaceAllByte_def)

lemma ReplaceAllByte_notin: "a \<noteq> b \<Longrightarrow> a \<notin> set (ReplaceAllByte s a b)"
  by (auto simp: ReplaceAllByte_def)

lemma ReplaceAllByte_id: "a \<notin> set s \<Longrightarrow> ReplaceAllByte s a b = s"
  unfolding ReplaceAllByte_def by (rule map_idI) auto

text \<open>
  \<open>strings.TrimSpace\<close> removes leading and trailing Unicode white space. \<open>white_seqs\<close> lists
  the UTF-8 encodings of every rune for which \<open>unicode.IsSpace\<close> holds.
\<close>

definition ascii_white :: "string" where
  "ascii_white = [CHR 0x09, CHR 0x0A, CHR 0x0B, CHR 0x0C, CHR 0x0D, CHR 0x20]"

definition white_seqs :: "string list" where
  "white_seqs = map (\<lambda>c. [c]) ascii_white @
     [[CHR 0xC2, CHR 0x85], [CHR 0xC2, CHR 0xA0], [CHR 0xE1, CHR 0x9A, CHR 0x80],
      [CHR 0xE2, CHR 0x80, CHR 0x80], [CHR 0xE2, CHR 0x80, CHR 0x81],
      [CHR 0xE2, CHR 0x80, CHR 0x82], [CHR 0xE2, CHR 0x80, CHR 0x83],
      [CHR 0xE2, CHR 0x80, CHR 0x84], [CHR 0xE2, CHR 0x80, CHR 0x85],
      [CHR 0xE2, CHR 0x80, CHR 0x86], [CHR 0xE2, CHR 0x80, CHR 0x87],
      [CHR 0xE2, CHR 0x80, CHR 0x88], [CHR 0xE2, CHR 0x80, CHR 0x89],
      [CHR 0xE2, CHR 0x80, CHR 0x8A], [CHR 0xE2, CHR 0x80, CHR 0xA8],
      [CHR 0xE2, CHR 0x80, CHR 0xA9], [CHR 0xE2, CHR 0x80, CHR 0xAF],
      [CHR 0xE2, CHR 0x81, CHR 0x9F], [CHR 0xE3, CHR 0x80, CHR 0x80]]"

text \<open>\<open>trim_front ws s\<close> repeatedly drops a prefix of \<open>s\<close> that is one of \<open>ws\<close>.\<close>

function trim_front :: "string list \<Rightarrow> string \<Rightarrow> string" where
  "trim_front ws s =
     (case List.find (\<lambda>w. w \<noteq> [] \<and> HasPrefix s w) ws of
        None \<Rightarrow> s
      | Some w \<Rightarrow> trim_front ws (drop (length w) s))"
  by pat_completeness auto
termination
proof (relation "measure (\<lambda>(ws, s). length s)", goal_cases)
  case (2 ws s w)
  then have "w \<noteq> []" and "HasPrefix s w"
    using find_Some_in [OF 2] by auto
  then show ?case by (auto simp: HasPrefix_iff)
qed simp

declare trim_front.simps [simp del]

definition TrimSpace :: "string \<Rightarrow> string" where
  "TrimSpace s = rev (trim_front (map rev white_seqs) (rev (trim_front white_seqs s)))"

text \<open>Bytes that neither start nor end the encoding of a white space rune.\<close>

definition plain_byte :: "char \<Rightarrow> bool" where
  "plain_byte c \<longleftrightarrow> (\<forall>w\<in>set white_seqs. hd w \<noteq> c \<and> last w \<noteq> c)"

lemma white_bytes:
  "list_all (\<lambda>w. (of_char (hd w) < (0x21 :: nat) \<or> (0x80 :: nat) \<le> of_char (hd w)) \<and>
     (of_char (last w) < (0x21 :: nat) \<or> (0x80 :: nat) \<le> of_char (last w))) white_seqs"
  by code_simp

lemma plain_byte_ascii: "0x21 \<le> (of_char c :: nat) \<Longrightarrow> (of_char c :: nat) < 0x80 \<Longrightarrow> plain_byte c"
  using white_bytes unfolding plain_byte_def list_all_iff by (metis linorder_not_less)

lemma trim_front_hd:
  assumes "\<forall>w\<in>set ws. w = [] \<or> hd w \<noteq> c"
  shows "trim_front ws (c # s) = c # s"
proof -
  have "\<not> (w \<noteq> [] \<and> HasPrefix (c # s) w)" if "w \<in> set ws" for w
    using assms that by (cases w) (auto simp: HasPrefix_iff)
  then have "List.find (\<lambda>w. w \<noteq> [] \<and> HasPrefix (c # s) w) ws = None"
    by (simp add: find_None_iff)
  then show ?thesis by (simp add: trim_front.simps)
qed

lemma trim_front_Nil [simp]: "trim_front ws [] = []"
proof -
  have "List.find (\<lambda>w. w \<noteq> [] \<and> HasPrefix [] w) ws = None"
    by (auto simp: find_None_iff HasPrefix_iff)
  then show ?thesis by (simp add: trim_front.simps)
qed

lemma white_seqs_not_Nil: "[] \<notin> set white_seqs"
  by (simp add: white_seqs_def ascii_white_def)

lemma TrimSpace_Nil [simp]: "TrimSpace [] = []"
  by (simp add: TrimSpace_def)

lemma TrimSpace_plain:
  assumes "s \<noteq> []" and "plain_byte (hd s)" and "plain_byte (last s)"
  shows "TrimSpace s = s"
proof -
  have "trim_front white_seqs s = s"
    using assms(1,2) trim_front_hd [of white_seqs "hd s" "tl s"]
    by (auto simp: plain_byte_def)
  moreover have "trim_front (map rev white_seqs) (rev s) = rev s"
  proof -
    have "\<forall>w\<in>set (map rev white_seqs). w = [] \<or> hd w \<noteq> last s"
      using assms(3) by (auto simp: plain_byte_def hd_rev)
    moreover have "rev s = last s # rev (butlast s)"
      using assms(1) by (metis append_butlast_last_id rev_eq_Cons_iff rev_rev_ident)
    ultimately show ?thesis by (metis trim_front_hd)
  qed
  ultimately show ?thesis by (simp add: TrimSpace_def)
qed

lemma TrimSpace_one_white: "[c] \<in> set white_seqs \<Longrightarrow> TrimSpace [c] = []"
proof -
  assume c: "[c] \<in> set white_seqs"
  obtain w where w: "List.find (\<lambda>w. w \<noteq> [] \<and> HasPrefix [c] w) white_seqs = Some w"
    using c by (cases "List.find (\<lambda>w. w \<noteq> [] \<and> HasPrefix [c] w) white_seqs")
      (auto simp: find_None_iff HasPrefix_def)
  then have "w = [c]"
    using find_Some_in [OF w] by (auto simp: HasPrefix_iff Cons_eq_append_conv)
  then show ?thesis using w by (simp add: TrimSpace_def trim_front.simps [of _ "[c]"])
qed

section \<open>Case\<close>

text \<open>
  \<open>ToLower\<close> and \<open>ToUpper\<close> map ASCII letters; the sources compare their results to ASCII
  literals or apply them to the ASCII names of the directory. \<open>EqualFold\<close> identifies the runes
  of one simple-folding orbit: besides the two cases of an ASCII letter, U+017F folds to
  \<open>s\<close> and U+212A to \<open>k\<close>. One side of every call in the sources is an ASCII literal, and for
  those \<open>fold_norm\<close> is exact.
\<close>

definition lower_byte :: "char \<Rightarrow> char" where
  "lower_byte c = (let n = of_char c :: nat in if 65 \<le> n \<and> n \<le> 90 then char_of (n + 32) else c)"

definition upper_byte :: "char \<Rightarrow> char" where
  "upper_byte c = (let n = of_char c :: nat in if 97 \<le> n \<and> n \<le> 122 then char_of (n - 32) else c)"

definition ToLower :: "string \<Rightarrow> string" where
  "ToLower s = map lower_byte s"

definition ToUpper :: "string \<Rightarrow> string" where
  "ToUpper s = map upper_byte s"

fun fold_norm :: "string \<Rightarrow> string" where
  "fold_norm [] = []"
| "fold_norm (c # cs) =
     (if c = CHR 0xC5 \<and> take 1 cs = [CHR 0xBF] then CHR ''s'' # fold_norm (drop 1 cs)
      else if c = CHR 0xE2 \<and> take 2 cs = [CHR 0x84, CHR 0xAA] then CHR ''k'' # fold_norm (drop 2 cs)
      else lower_byte c # fold_norm cs)"

definition EqualFold :: "string \<Rightarrow> string \<Rightarrow> bool" where
  "EqualFold s t \<longleftrightarrow> fold_norm s = fold_norm t"

lemma EqualFold_refl [simp]: "EqualFold s s"
  by (simp add: EqualFold_def)

lemma EqualFold_trans: "EqualFold s t \<Longrightarrow> EqualFold s u \<Longrightarrow> EqualFold t u"
  by (simp add: EqualFold_def)

section \<open>Decimal numbers\<close>

definition is_digit :: "char \<Rightarrow> bool" where
  "is_digit c \<longleftrightarrow> 48 \<le> (of_char c :: nat) \<and> (of_char c :: nat) \<le> 57"

definition is_alpha :: "char \<Rightarrow> bool" where
  "is_alpha c \<longleftrightarrow> (let n = of_char c :: nat in 65 \<le> n \<and> n \<le> 90 \<or> 97 \<le> n \<and> n \<le> 122)"

definition digit_val :: "char \<Rightarrow> nat" where
  "digit_val c = of_char c - 48"

fun utoa :: "nat \<Rightarrow> string" where
  "utoa n = (if n < 10 then [char_of (48 + n)] else utoa (n div 10) @ [char_of (48 + n mod 10)])"

declare utoa.simps [simp del]

definition itoa :: "int \<Rightarrow> string" where
  "itoa n = (if n < 0 then CHR ''-'' # utoa (nat (- n)) else utoa (nat n))"

definition digits_val :: "string \<Rightarrow> nat" where
  "digits_val s = foldl (\<lambda>n c. 10 * n + digit_val c) 0 s"

lemma is_digit_char_of: "n < 10 \<Longrightarrow> is_digit (char_of (48 + n :: nat))"
  by (simp add: is_digit_def)

lemma digit_val_char_of: "n < 10 \<Longrightarrow> digit_val (char_of (48 + n)) = n"
  by (simp add: digit_val_def)

lemma utoa_digits: "utoa n \<noteq> [] \<and> (\<forall>c\<in>set (utoa n). is_digit c) \<and> digits_val (utoa n) = n"
proof (induction n rule: utoa.induct)
  case (1 n)
  show ?case
  proof (cases "n < 10")
    case True
    then show ?thesis
      by (simp add: utoa.simps [of n] is_digit_char_of digit_val_char_of digits_val_def)
  next
    case False
    then show ?thesis using 1 is_digit_char_of [of "n mod 10"] digit_val_char_of [of "n mod 10"]
      by (simp add: utoa.simps [of n] digits_val_def)
  qed
qed

lemma digit_not_punct:
  "is_digit c \<Longrightarrow> c \<noteq> CHR ''/'' \<and> c \<noteq> CHR '':'' \<and> c \<noteq> CHR '','' \<and> c \<noteq> CHR ''['' \<and> c \<noteq> CHR '']''"
  by (auto simp: is_digit_def)

lemmas string_defs [go_defs] = HasPrefix_def HasSuffix_def ReplaceAllByte_def
  ToLower_def ToUpper_def lower_byte_def upper_byte_def is_digit_def is_alpha_def

end
