(* ===== verification/Go_Errors.thy ===== *)
theory Go_Errors
  imports Go_Strings
begin

text \<open>
  Error values. An error is what \<open>errors.New\<close> and \<open>fmt.Errorf\<close> build, a package-level error
  variable (compared by identity), one of the error types of the sources, or an error of the
  Google API client. \<open>err_chain\<close> lists the errors \<open>errors.Is\<close> and \<open>errors.As\<close> visit.
\<close>

datatype goerr =
    ErrorString string
  | Sentinel string
  | Wrap string goerr string
  | MaxAttemptsError string int goerr
  | ContextCanceledError string goerr
  | GoogleAPIError int string string
  | JoinErrors "goerr list"

type_synonym 'a res = "goerr + 'a"

text \<open>The text of an error, its \<open>Error()\<close> method.\<close>

fun Error :: "goerr \<Rightarrow> string" where
  "Error (ErrorString s) = s"
| "Error (Sentinel s) = s"
| "Error (Wrap pre e post) = pre @ Error e @ post"
| "Error (MaxAttemptsError desc n e) =
     ''reached max attempts ('' @ itoa n @ '') for trying to '' @ desc @
     ''. last attempt error: '' @ Error e"
| "Error (ContextCanceledError desc e) =
     ''context canceled while trying to '' @ desc @ ''. last attempt error: '' @ Error e"
| "Error (GoogleAPIError code body txt) = txt"
| "Error (JoinErrors es) = Join (map Error es) [CHR 0x0A]"

fun err_chain :: "goerr \<Rightarrow> goerr list" where
  "err_chain (Wrap pre e post) = Wrap pre e post # err_chain e"
| "err_chain (JoinErrors es) = JoinErrors es # concat (map err_chain es)"
| "err_chain e = [e]"

definition errors_Is :: "goerr \<Rightarrow> goerr \<Rightarrow> bool" where
  "errors_Is e target \<longleftrightarrow> target \<in> set (err_chain e)"

fun is_MaxAttemptsError :: "goerr \<Rightarrow> bool" where
  "is_MaxAttemptsError (MaxAttemptsError _ _ _) = True"
| "is_MaxAttemptsError _ = False"

fun is_ContextCanceledError :: "goerr \<Rightarrow> bool" where
  "is_ContextCanceledError (ContextCanceledError _ _) = True"
| "is_ContextCanceledError _ = False"

text \<open>\<open>errors.As\<close> with a target of type \<open>*googleapi.Error\<close>: the first one of the chain.\<close>

fun as_google :: "goerr list \<Rightarrow> (int \<times> string \<times> string) option" where
  "as_google [] = None"
| "as_google (GoogleAPIError code body txt # es) = Some (code, body, txt)"
| "as_google (_ # es) = as_google es"

abbreviation errorf :: "string \<Rightarrow> goerr \<Rightarrow> goerr" where
  "errorf pre e \<equiv> Wrap pre e []"

lemma err_chain_self: "e \<in> set (err_chain e)"
  by (cases e) auto

lemma errors_Is_refl [simp]: "errors_Is e e"
  by (simp add: errors_Is_def err_chain_self)

lemma errors_Is_Wrap [simp]: "t \<noteq> Wrap pre e post \<Longrightarrow> errors_Is (Wrap pre e post) t = errors_Is e t"
  by (auto simp: errors_Is_def)

lemma Contains_Wrap: "Contains (Error e) p \<Longrightarrow> Contains (Error (Wrap pre e post)) p"
  by (auto intro: Contains_append_left Contains_append_right)

text \<open>Sentinels of the standard library and of the sources.\<close>

definition ctxCanceled :: goerr where "ctxCanceled = Sentinel ''context canceled''"
definition ctxDeadlineExceeded :: goerr where
  "ctxDeadlineExceeded = Sentinel ''context deadline exceeded''"
definition netErrClosed :: goerr where
  "netErrClosed = Sentinel ''use of closed network connection''"

text \<open>\<open>strconv.Quote\<close> (the verb \<open>%q\<close>) on ASCII text, as the sources use it for addresses and
  names; other bytes are escaped as Go escapes bytes that are not valid UTF-8.\<close>

definition hex_digit :: "nat \<Rightarrow> char" where
  "hex_digit n = (if n < 10 then char_of (48 + n) else char_of (87 + n))"

definition quote_byte :: "char \<Rightarrow> string" where
  "quote_byte c =
     (let n = of_char c :: nat in
      if n = 34 then [CHR 0x5C, CHR 0x22] else if n = 92 then [CHR 0x5C, CHR 0x5C]
      else if n = 7 then [CHR 0x5C, CHR ''a''] else if n = 8 then [CHR 0x5C, CHR ''b'']
      else if n = 9 then [CHR 0x5C, CHR ''t''] else if n = 10 then [CHR 0x5C, CHR ''n'']
      else if n = 11 then [CHR 0x5C, CHR ''v''] else if n = 12 then [CHR 0x5C, CHR ''f'']
      else if n = 13 then [CHR 0x5C, CHR ''r'']
      else if 32 \<le> n \<and> n < 127 then [c]
      else [CHR 0x5C, CHR ''x'', hex_digit (n div 16), hex_digit (n mod 16)])"

definition Quote :: "string \<Rightarrow> string" where
  "Quote s = CHR 0x22 # concat (map quote_byte s) @ [CHR 0x22]"

end
