(* ===== verification/Kube_Objects.thy ===== *)
theory Kube_Objects
  imports Go_Errors
begin

text \<open>
  The constants of \<open>api/api.go\<close>, the fields of the Kubernetes objects the sources read, and the
  \<open>Reference\<close> type of \<open>internal/serviceaccounts\<close>.
\<close>

section \<open>api/api.go\<close>

definition GroupCore :: string where "GroupCore = ''gke-metadata-server.matheuscscp.io''"
definition GroupNode :: string where "GroupNode = ''node.'' @ GroupCore"
definition GroupGKE :: string where "GroupGKE = ''iam.gke.io''"
definition AnnotationRoutingMode :: string where "AnnotationRoutingMode = GroupNode @ ''/routingMode''"
definition RoutingModeBPF :: string where "RoutingModeBPF = ''eBPF''"
definition RoutingModeLoopback :: string where "RoutingModeLoopback = ''Loopback''"
definition RoutingModeNone :: string where "RoutingModeNone = ''None''"
definition RoutingModeDefault :: string where "RoutingModeDefault = RoutingModeBPF"
definition GKEAnnotationServiceAccount :: string where
  "GKEAnnotationServiceAccount = GroupGKE @ ''/gcp-service-account''"

lemmas api_defs = GroupCore_def GroupNode_def GroupGKE_def AnnotationRoutingMode_def
  RoutingModeBPF_def RoutingModeLoopback_def RoutingModeNone_def RoutingModeDefault_def
  GKEAnnotationServiceAccount_def

section \<open>Kubernetes objects\<close>

text \<open>A Go map with string keys is an association list without duplicate keys, read with
  \<^const>\<open>map_of\<close>; indexing a missing key gives the empty string.\<close>

type_synonym go_map = "(string \<times> string) list"

definition gomap_get :: "go_map \<Rightarrow> string \<Rightarrow> string" where
  "gomap_get m k = (case map_of m k of None \<Rightarrow> [] | Some v \<Rightarrow> v)"

record kube_pod =
  pod_Name :: string
  pod_Namespace :: string
  pod_UID :: string
  pod_Deleting :: bool   \<comment> \<open>\<open>DeletionTimestamp != nil\<close>\<close>
  pod_NodeName :: string
  pod_HostNetwork :: bool
  pod_ServiceAccountName :: string
  pod_PodIP :: string
  pod_Phase :: string

record kube_sa =
  sa_Name :: string
  sa_Namespace :: string
  sa_Annotations :: go_map

record kube_taint =
  taint_Key :: string
  taint_Value :: string
  taint_Effect :: string

record kube_node =
  node_Name :: string
  node_Annotations :: go_map
  node_Labels :: go_map
  node_Taints :: "kube_taint list"

text \<open>\<open>serviceaccounts.Reference\<close>, compared by value as a Go map key.\<close>

record Reference =
  ref_Name :: string
  ref_Namespace :: string

text \<open>The object a \<open>DeleteFunc\<close> of an informer gets: the object, or, when the deletion was only
  noticed by a later re-list, a \<open>cache.DeletedFinalStateUnknown\<close> around its last known state.\<close>

datatype 'a delete_obj = Live 'a | DeletedFinalStateUnknown string 'a

end
