(* ===== verification/Service_Accounts.thy ===== *)
theory Service_Accounts
  imports Kube_Objects
begin

text \<open>
  \<open>internal/serviceaccounts\<close>: the reference of a ServiceAccount taken from an object, a pod and a
  token, the Google email annotation, and the two providers (\<open>get\<close>, straight from the API server,
  and \<open>watch\<close>, an informer cache with a fallback). The provider contract is the locale
  \<open>sa_provider\<close>, interpreted on both.
\<close>

section \<open>helpers.go\<close>

definition ReferenceFromObject :: "kube_sa \<Rightarrow> Reference" where
  "ReferenceFromObject sa = \<lparr>ref_Name = sa_Name sa, ref_Namespace = sa_Namespace sa\<rparr>"

definition ReferenceFromPod :: "kube_pod \<Rightarrow> Reference" where
  "ReferenceFromPod pod =
     \<lparr>ref_Name = pod_ServiceAccountName pod, ref_Namespace = pod_Namespace pod\<rparr>"

text \<open>
  \<open>jwt_sub\<close> stands for \<open>ParseUnverified\<close> followed by \<open>GetSubject\<close>: \<open>None\<close> when the parser
  returns a nil token, and otherwise the subject claim (the empty string when there is none).
\<close>

definition ReferenceFromToken :: "(string \<Rightarrow> string option) \<Rightarrow> string \<Rightarrow> Reference go" where
  "ReferenceFromToken jwt_sub token =
     (case jwt_sub token of
        None \<Rightarrow> Panic ''invalid memory address or nil pointer dereference''
      | Some sub \<Rightarrow>
          (let s = Split (CHR '':'') sub in
           if length s \<le> 3 then Panic ''index out of range''
           else Ret \<lparr>ref_Name = s ! 3, ref_Namespace = s ! 2\<rparr>))"

definition ErrGKEAnnotationInvalid :: goerr where
  "ErrGKEAnnotationInvalid = Sentinel (''gke annotation '' @ Quote GKEAnnotationServiceAccount @
     '' has invalid google service account email'')"

text \<open>The character class of the email regular expression, and the expression itself. Neither
  \<open>@\<close> nor \<open>.\<close> is in the class, so the greedy match is the only one.\<close>

definition email_byte :: "char \<Rightarrow> bool" where
  "email_byte c \<longleftrightarrow> is_alpha c \<or> is_digit c \<or> c = CHR ''-''"

definition googleEmailRegex :: "string \<Rightarrow> bool" where
  "googleEmailRegex v =
     (let u = takeWhile email_byte v; r = dropWhile email_byte v in
      u \<noteq> [] \<and>
      (case r of
         [] \<Rightarrow> False
       | c # r' \<Rightarrow> c = CHR ''@'' \<and> takeWhile email_byte r' \<noteq> [] \<and>
           dropWhile email_byte r' = ''.iam.gserviceaccount.com''))"

definition GoogleServiceAccountEmail :: "kube_sa \<Rightarrow> string option res" where
  "GoogleServiceAccountEmail sa =
     (case map_of (sa_Annotations sa) GKEAnnotationServiceAccount of
        None \<Rightarrow> Inr None
      | Some v \<Rightarrow> if \<not> googleEmailRegex v then Inl ErrGKEAnnotationInvalid else Inr (Some v))"

subsection \<open>The email pattern\<close>

lemma takeWhile_append_stop:
  "\<forall>x\<in>set u. P x \<Longrightarrow> \<not> P c \<Longrightarrow> takeWhile P (u @ c # r) = u \<and> dropWhile P (u @ c # r) = c # r"
  by (induction u) auto

lemma email_byte_punct [simp]: "\<not> email_byte (CHR ''@'')" "\<not> email_byte (CHR ''.'')"
  "\<not> email_byte (CHR ''/'')" "\<not> email_byte (CHR '':'')" "\<not> email_byte (CHR ''?'')"
  by (simp_all add: email_byte_def is_alpha_def is_digit_def Let_def)

lemma googleEmailRegex_iff:
  "googleEmailRegex v \<longleftrightarrow>
     (\<exists>u p. v = u @ ''@'' @ p @ ''.iam.gserviceaccount.com'' \<and> u \<noteq> [] \<and> p \<noteq> [] \<and>
            (\<forall>c\<in>set u. email_byte c) \<and> (\<forall>c\<in>set p. email_byte c))"
    (is "?L \<longleftrightarrow> ?R")
proof
  assume L: ?L
  define u where "u = takeWhile email_byte v"
  from L obtain r where r: "dropWhile email_byte v = CHR ''@'' # r" "u \<noteq> []"
      "takeWhile email_byte r \<noteq> []" "dropWhile email_byte r = ''.iam.gserviceaccount.com''"
    by (auto simp: googleEmailRegex_def u_def Let_def split: list.splits)
  define p where "p = takeWhile email_byte r"
  have "r = p @ ''.iam.gserviceaccount.com''"
    using r(4) takeWhile_dropWhile_id [of email_byte r] by (simp add: p_def)
  moreover have "v = u @ CHR ''@'' # r"
    using r(1) takeWhile_dropWhile_id [of email_byte v] by (simp add: u_def)
  ultimately show ?R
    using r by (intro exI [of _ u] exI [of _ p]) (auto simp: u_def p_def dest: set_takeWhileD)
next
  assume ?R
  then obtain u p where v: "v = u @ CHR ''@'' # p @ ''.iam.gserviceaccount.com''"
      and "u \<noteq> []" "p \<noteq> []" and cls: "\<forall>c\<in>set u. email_byte c" "\<forall>c\<in>set p. email_byte c"
    by auto
  then show ?L
    using takeWhile_append_stop [OF cls(1), of "CHR ''@''"]
      takeWhile_append_stop [OF cls(2), of "CHR ''.''"]
    by (simp add: googleEmailRegex_def)
qed

lemma googleEmail_url_safe:
  assumes "googleEmailRegex v"
  shows "CHR ''/'' \<notin> set v \<and> CHR '':'' \<notin> set v \<and> CHR ''?'' \<notin> set v"
proof -
  obtain u p where v: "v = u @ ''@'' @ p @ ''.iam.gserviceaccount.com''"
      and "\<forall>c\<in>set u. email_byte c" "\<forall>c\<in>set p. email_byte c"
    using assms by (auto simp: googleEmailRegex_iff)
  then have "\<forall>c\<in>set u \<union> set p. c \<noteq> CHR ''/'' \<and> c \<noteq> CHR '':'' \<and> c \<noteq> CHR ''?''"
    by force
  then show ?thesis using v by auto
qed

lemma GoogleServiceAccountEmail_Some:
  "GoogleServiceAccountEmail sa = Inr (Some e) \<longleftrightarrow>
     map_of (sa_Annotations sa) GKEAnnotationServiceAccount = Some e \<and> googleEmailRegex e"
  by (auto simp: GoogleServiceAccountEmail_def split: option.splits if_splits)

subsection \<open>The subject of a service account token\<close>

lemma ReferenceFromToken_subject:
  assumes "jwt_sub tok = Some (''system:serviceaccount:'' @ ref_Namespace r @ '':'' @ ref_Name r)"
    and "CHR '':'' \<notin> set (ref_Namespace r)" and "CHR '':'' \<notin> set (ref_Name r)"
  shows "ReferenceFromToken jwt_sub tok = Ret r"
proof -
  have "Split (CHR '':'') (''system'' @ CHR '':'' # ''serviceaccount'' @ CHR '':'' #
      ref_Namespace r @ CHR '':'' # ref_Name r) =
      [''system'', ''serviceaccount'', ref_Namespace r, ref_Name r]"
    using assms(2,3) by (subst Split_append_sep, simp)+ (simp add: Split_none)
  then show ?thesis using assms(1)
    by (cases r) (simp add: ReferenceFromToken_def)
qed

section \<open>get/provider.go\<close>

text \<open>\<open>kube_get_sa ns name\<close> is the client's \<open>CoreV1().ServiceAccounts(ns).Get(ctx, name)\<close>.\<close>

type_synonym kube_get_sa = "string \<Rightarrow> string \<Rightarrow> kube_sa res"

definition get_sa_Get :: "kube_get_sa \<Rightarrow> Reference \<Rightarrow> kube_sa res" where
  "get_sa_Get kube ref = kube (ref_Namespace ref) (ref_Name ref)"

section \<open>watch/provider.go\<close>

text \<open>
  The state of the watching provider: the metrics, the informer's store as \<open>GetByKey\<close> sees it, the
  fallback source when there is one, and the listeners, which act on the state \<open>'w\<close> of the
  components that registered them.
\<close>

record 'w sa_listener =
  UpdateServiceAccountL :: "Reference \<Rightarrow> 'w \<Rightarrow> 'w"
  DeleteServiceAccountL :: "Reference \<Rightarrow> 'w \<Rightarrow> 'w"

record 'w watch_sa =
  wsa_numServiceAccounts :: int
  wsa_cacheMisses :: nat
  wsa_GetByKey :: "string \<Rightarrow> kube_sa option res"
  wsa_FallbackSource :: "(Reference \<Rightarrow> kube_sa res) option"
  wsa_listeners :: "'w sa_listener list"

text \<open>\<open>NewProvider\<close>: the informer watches all namespaces, without a selector; \<open>store\<close> is its store.\<close>

definition wsa_NewProvider :: "(string \<Rightarrow> kube_sa option res) \<Rightarrow> (Reference \<Rightarrow> kube_sa res) option \<Rightarrow> 'w watch_sa" where
  "wsa_NewProvider store fallbackSource =
     \<lparr>wsa_numServiceAccounts = 0, wsa_cacheMisses = 0, wsa_GetByKey = store, wsa_FallbackSource = fallbackSource,
      wsa_listeners = []\<rparr>"

definition wsa_AddListener :: "'w watch_sa \<Rightarrow> 'w sa_listener \<Rightarrow> 'w watch_sa" where
  "wsa_AddListener p l = p\<lparr>wsa_listeners := wsa_listeners p @ [l]\<rparr>"

text \<open>The three informer callbacks. \<open>DeleteFunc\<close> asserts the dynamic type of its argument after
  it has decremented the gauge.\<close>

definition wsa_AddFunc :: "kube_sa \<Rightarrow> 'w watch_sa \<Rightarrow> 'w \<Rightarrow> 'w watch_sa \<times> 'w" where
  "wsa_AddFunc obj p w =
     (let saRef = ReferenceFromObject obj in
      (p\<lparr>wsa_numServiceAccounts := wsa_numServiceAccounts p + 1\<rparr>,
       fold (\<lambda>l. UpdateServiceAccountL l saRef) (wsa_listeners p) w))"

definition wsa_UpdateFunc :: "kube_sa \<Rightarrow> kube_sa \<Rightarrow> 'w watch_sa \<Rightarrow> 'w \<Rightarrow> 'w watch_sa \<times> 'w" where
  "wsa_UpdateFunc oldObj newObj p w =
     (let saRef = ReferenceFromObject newObj in
      (p, fold (\<lambda>l. UpdateServiceAccountL l saRef) (wsa_listeners p) w))"

definition wsa_DeleteFunc :: "kube_sa delete_obj \<Rightarrow> 'w watch_sa \<Rightarrow> 'w \<Rightarrow> ('w watch_sa \<times> 'w) go" where
  "wsa_DeleteFunc obj p w =
     (case obj of
        DeletedFinalStateUnknown _ _ \<Rightarrow> Panic ''interface conversion''
      | Live sa \<Rightarrow>
          (let saRef = ReferenceFromObject sa in
           Ret (p\<lparr>wsa_numServiceAccounts := wsa_numServiceAccounts p - 1\<rparr>,
                fold (\<lambda>l. DeleteServiceAccountL l saRef) (wsa_listeners p) w)))"

definition sa_key :: "string \<Rightarrow> string \<Rightarrow> string" where
  "sa_key namespace name = namespace @ ''/'' @ name"

definition wsa_get :: "'w watch_sa \<Rightarrow> string \<Rightarrow> string \<Rightarrow> kube_sa res" where
  "wsa_get p namespace name =
     (case wsa_GetByKey p (sa_key namespace name) of
        Inl err \<Rightarrow> Inl err
      | Inr None \<Rightarrow> Inl (ErrorString ''service account not present in cache'')
      | Inr (Some v) \<Rightarrow> Inr v)"

definition wsa_Get :: "'w watch_sa \<Rightarrow> Reference \<Rightarrow> kube_sa res \<times> 'w watch_sa" where
  "wsa_Get p ref =
     (case wsa_get p (ref_Namespace ref) (ref_Name ref) of
        Inr sa \<Rightarrow> (Inr sa, p)
      | Inl err \<Rightarrow>
          (case wsa_FallbackSource p of
             None \<Rightarrow> (Inl (errorf (''error getting service account '' @ ref_Namespace ref @ ''/'' @
                          ref_Name ref @ '' from cache: '') err), p)
           | Some fallback \<Rightarrow>
               (case fallback ref of
                  Inl err' \<Rightarrow> (Inl err', p)
                | Inr sa \<Rightarrow> (Inr sa, p\<lparr>wsa_cacheMisses := Suc (wsa_cacheMisses p)\<rparr>))))"

section \<open>The provider contract\<close>

text \<open>A provider configuration \<open>c\<close> that satisfies \<open>ok\<close> answers a successful \<open>Get\<close> with the
  object that was asked for, when the namespace has no slash, as every Kubernetes namespace.\<close>

definition valid_ref :: "Reference \<Rightarrow> bool" where
  "valid_ref ref \<longleftrightarrow> CHR ''/'' \<notin> set (ref_Namespace ref)"

locale sa_provider =
  fixes ok :: "'c \<Rightarrow> bool"
    and Get :: "'c \<Rightarrow> Reference \<Rightarrow> kube_sa res"
  assumes Get_ref: "ok c \<Longrightarrow> valid_ref ref \<Longrightarrow> Get c ref = Inr sa \<Longrightarrow> ReferenceFromObject sa = ref"
begin

lemma email_of_ref:
  assumes "ok c" and "valid_ref ref" and "ebind (Get c ref) GoogleServiceAccountEmail = Inr (Some e)"
  shows "\<exists>sa. ReferenceFromObject sa = ref \<and>
    map_of (sa_Annotations sa) GKEAnnotationServiceAccount = Some e \<and> googleEmailRegex e"
  using assms by (auto simp: ebind_Inr_iff GoogleServiceAccountEmail_Some dest: Get_ref)

end

text \<open>The documented behaviour the providers rely on: the API server and the informer's store
  return the object with the name that was asked for.\<close>

definition kube_get_sa_ok :: "kube_get_sa \<Rightarrow> bool" where
  "kube_get_sa_ok kube \<longleftrightarrow>
     (\<forall>ns name sa. kube ns name = Inr sa \<longrightarrow> sa_Namespace sa = ns \<and> sa_Name sa = name)"

definition store_key_ok :: "(string \<Rightarrow> kube_sa option res) \<Rightarrow> bool" where
  "store_key_ok get \<longleftrightarrow>
     (\<forall>ns name sa. CHR ''/'' \<notin> set ns \<longrightarrow> get (sa_key ns name) = Inr (Some sa) \<longrightarrow>
        sa_key (sa_Namespace sa) (sa_Name sa) = sa_key ns name \<and> CHR ''/'' \<notin> set (sa_Namespace sa))"

lemma sa_key_inj:
  "CHR ''/'' \<notin> set ns \<Longrightarrow> CHR ''/'' \<notin> set ns' \<Longrightarrow> sa_key ns name = sa_key ns' name' \<Longrightarrow>
     ns = ns' \<and> name = name'"
  unfolding sa_key_def
  by (metis SplitN_2_append append_Cons append_Nil list.inject)

lemma get_sa_Get_ref:
  "kube_get_sa_ok kube \<Longrightarrow> get_sa_Get kube ref = Inr sa \<Longrightarrow> ReferenceFromObject sa = ref"
  by (auto simp: get_sa_Get_def kube_get_sa_ok_def ReferenceFromObject_def)

interpretation get_sa: sa_provider kube_get_sa_ok get_sa_Get
  by unfold_locales (rule get_sa_Get_ref)

text \<open>A watching provider is sound when its store is and its fallback is.\<close>

definition watch_sa_ok :: "'w watch_sa \<Rightarrow> bool" where
  "watch_sa_ok p \<longleftrightarrow> store_key_ok (wsa_GetByKey p) \<and>
     (\<forall>f ref sa. wsa_FallbackSource p = Some f \<longrightarrow> valid_ref ref \<longrightarrow> f ref = Inr sa \<longrightarrow> ReferenceFromObject sa = ref)"

lemma wsa_Get_ref:
  assumes ok: "watch_sa_ok p" and ns: "valid_ref ref" and get: "fst (wsa_Get p ref) = Inr sa"
  shows "ReferenceFromObject sa = ref"
proof (cases "wsa_get p (ref_Namespace ref) (ref_Name ref)")
  case (Inr sa')
  then have "wsa_GetByKey p (sa_key (ref_Namespace ref) (ref_Name ref)) = Inr (Some sa)"
    using get by (auto simp: wsa_get_def wsa_Get_def split: sum.splits option.splits)
  then have "sa_Namespace sa = ref_Namespace ref \<and> sa_Name sa = ref_Name ref"
    using ok ns unfolding watch_sa_ok_def store_key_ok_def valid_ref_def by (metis sa_key_inj)
  then show ?thesis by (simp add: ReferenceFromObject_def)
next
  case (Inl err)
  then show ?thesis using get ok ns
    by (auto simp: wsa_Get_def watch_sa_ok_def split: option.splits sum.splits)
qed

interpretation watch_sa: sa_provider watch_sa_ok "\<lambda>p ref. fst (wsa_Get p ref)"
  by unfold_locales (rule wsa_Get_ref)

end
