(* ===== verification/Pods.thy ===== *)
theory Pods
  imports Service_Accounts
begin

text \<open>
  \<open>internal/pods\<close>: the filter of running pods, the provider that lists pods from the API server
  and the provider that watches them through an informer with an IP and a UID index. The contract
  the server relies on is the locale \<open>pod_provider\<close>.
\<close>

section \<open>provider.go\<close>

definition isPodRunning :: "kube_pod \<Rightarrow> bool" where
  "isPodRunning pod =
     (if pod_Deleting pod \<or> pod_Phase pod = ''Succeeded'' \<or> pod_Phase pod = ''Failed''
      then False else True)"

fun FilterPods :: "kube_pod list \<Rightarrow> kube_pod list" where
  "FilterPods [] = []"
| "FilterPods (v # pods) = (if isPodRunning v then v # FilterPods pods else FilterPods pods)"

lemma FilterPods_filter [simp]: "FilterPods ps = filter isPodRunning ps"
  by (induction ps) auto

section \<open>list/provider.go\<close>

text \<open>\<open>kube_list sel\<close> is \<open>CoreV1().Pods(NamespaceAll).List\<close> with the field selector \<open>sel\<close>.\<close>

type_synonym kube_list = "string \<Rightarrow> kube_pod list res"

definition pod_ref_text :: "kube_pod \<Rightarrow> string" where
  "pod_ref_text pod = pod_Namespace pod @ ''/'' @ pod_Name pod"

definition list_GetByIP :: "string \<Rightarrow> kube_list \<Rightarrow> string \<Rightarrow> kube_pod res" where
  "list_GetByIP nodeName kube ipAddr =
     (let fieldSelector = Join [''spec.nodeName='' @ nodeName, ''spec.hostNetwork=false'',
                                ''status.podIP='' @ ipAddr] '','' in
      case kube fieldSelector of
        Inl err \<Rightarrow> Inl (errorf (''error listing pods in the node matching cluster ip '' @ ipAddr @ '': '') err)
      | Inr podList \<Rightarrow>
          (let items = FilterPods podList; n = length items in
           if n \<noteq> 1 then
             (if n = 0 then Inl (ErrorString (''no pods found in the node matching cluster ip '' @ ipAddr))
              else Inl (ErrorString (''multiple pods found in the node matching cluster ip '' @ ipAddr @
                     '' ('' @ utoa n @ '' pods): '' @ Join (map pod_ref_text items) '', '')))
           else Inr (items ! 0)))"

definition list_GetByUID :: "string \<Rightarrow> kube_list \<Rightarrow> string \<Rightarrow> kube_pod res" where
  "list_GetByUID nodeName kube uid =
     (let fieldSelector = ''spec.nodeName='' @ nodeName in
      case kube fieldSelector of
        Inl err \<Rightarrow> Inl (errorf (''error listing pods in the node matching uid '' @ uid @ '': '') err)
      | Inr podList \<Rightarrow>
          (case List.find (\<lambda>pod. pod_UID pod = uid) (FilterPods podList) of
             Some pod \<Rightarrow> Inr pod
           | None \<Rightarrow> Inl (ErrorString (''no pods found in the node matching uid '' @ uid))))"

section \<open>watch/provider.go\<close>

text \<open>The index functions of the informer.\<close>

definition ipIndex_func :: "kube_pod \<Rightarrow> string list" where
  "ipIndex_func pod =
     (if pod_HostNetwork pod then []
      else if pod_PodIP pod \<noteq> [] then [pod_PodIP pod] else [])"

definition uidIndex_func :: "kube_pod \<Rightarrow> string list" where
  "uidIndex_func pod = (if pod_UID pod \<noteq> [] then [pod_UID pod] else [])"

record 'w pod_listener =
  AddPodServiceAccountL :: "Reference \<Rightarrow> 'w \<Rightarrow> 'w"
  DeletePodServiceAccountL :: "Reference \<Rightarrow> 'w \<Rightarrow> 'w"

text \<open>
  The state of the watching provider. \<open>wp_Index f obj\<close> is \<open>GetIndexer().Index\<close> with the index
  whose function is \<open>f\<close>.
\<close>

record 'w watch_pods =
  wp_numPods :: int
  wp_cacheMisses :: nat
  wp_Index :: "(kube_pod \<Rightarrow> string list) \<Rightarrow> kube_pod \<Rightarrow> kube_pod list res"
  wp_FallbackSource :: "((string \<Rightarrow> kube_pod res) \<times> (string \<Rightarrow> kube_pod res)) option"
  wp_listeners :: "'w pod_listener list"

text \<open>\<open>NewProvider\<close>: the informer lists and watches with the selector of the node; its gauge and counter are new.\<close>

definition wp_selector :: "string \<Rightarrow> string" where
  "wp_selector nodeName = ''spec.nodeName='' @ nodeName"

definition wp_NewProvider ::
    "((kube_pod \<Rightarrow> string list) \<Rightarrow> kube_pod \<Rightarrow> kube_pod list res) \<Rightarrow>
     ((string \<Rightarrow> kube_pod res) \<times> (string \<Rightarrow> kube_pod res)) option \<Rightarrow> 'w watch_pods" where
  "wp_NewProvider indexer fallbackSource =
     \<lparr>wp_numPods = 0, wp_cacheMisses = 0, wp_Index = indexer, wp_FallbackSource = fallbackSource, wp_listeners = []\<rparr>"

definition wp_AddListener :: "'w watch_pods \<Rightarrow> 'w pod_listener \<Rightarrow> 'w watch_pods" where
  "wp_AddListener p l = p\<lparr>wp_listeners := wp_listeners p @ [l]\<rparr>"

definition wp_AddFunc :: "kube_pod \<Rightarrow> 'w watch_pods \<Rightarrow> 'w \<Rightarrow> 'w watch_pods \<times> 'w" where
  "wp_AddFunc obj p w =
     (let saRef = ReferenceFromPod obj in
      (p\<lparr>wp_numPods := wp_numPods p + 1\<rparr>,
       fold (\<lambda>l. AddPodServiceAccountL l saRef) (wp_listeners p) w))"

definition wp_DeleteFunc :: "kube_pod delete_obj \<Rightarrow> 'w watch_pods \<Rightarrow> 'w \<Rightarrow> ('w watch_pods \<times> 'w) go" where
  "wp_DeleteFunc obj p w =
     (case obj of
        DeletedFinalStateUnknown _ _ \<Rightarrow> Panic ''interface conversion''
      | Live pod \<Rightarrow>
          (let saRef = ReferenceFromPod pod in
           Ret (p\<lparr>wp_numPods := wp_numPods p - 1\<rparr>,
                fold (\<lambda>l. DeletePodServiceAccountL l saRef) (wp_listeners p) w)))"

text \<open>The zero value of \<open>corev1.Pod\<close>, from which the index queries are built.\<close>

definition zero_pod :: kube_pod where
  "zero_pod = \<lparr>pod_Name = [], pod_Namespace = [], pod_UID = [], pod_Deleting = False,
     pod_NodeName = [], pod_HostNetwork = False, pod_ServiceAccountName = [],
     pod_PodIP = [], pod_Phase = []\<rparr>"

definition wp_getByUID :: "'w watch_pods \<Rightarrow> string \<Rightarrow> kube_pod res" where
  "wp_getByUID p uid =
     (case wp_Index p uidIndex_func (zero_pod\<lparr>pod_UID := uid\<rparr>) of
        Inl err \<Rightarrow> Inl (errorf (''cache: error listing pods in the node matching uid '' @ uid @ '': '') err)
      | Inr lst \<Rightarrow>
          (let lst = FilterPods lst; n = length lst in
           if n \<noteq> 1 then
             (if n = 0 then Inl (ErrorString (''cache: no pods found in the node matching uid '' @ uid))
              else Inl (ErrorString (''cache: multiple pods found in the node matching uid '' @ uid @
                     '' ('' @ utoa n @ '' pods): '' @ Join (map pod_ref_text lst) '', '')))
           else Inr (lst ! 0)))"

definition wp_getByIP :: "'w watch_pods \<Rightarrow> string \<Rightarrow> kube_pod res" where
  "wp_getByIP p ipAddr =
     (case wp_Index p ipIndex_func (zero_pod\<lparr>pod_PodIP := ipAddr\<rparr>) of
        Inl err \<Rightarrow> Inl (errorf (''cache: error listing pods in the node matching cluster ip '' @ ipAddr @ '': '') err)
      | Inr lst \<Rightarrow>
          (let lst = FilterPods lst; n = length lst in
           if n \<noteq> 1 then
             (if n = 0 then Inl (ErrorString (''cache: no pods found in the node matching cluster ip '' @ ipAddr))
              else Inl (ErrorString (''cache: multiple pods found in the node matching cluster ip '' @ ipAddr @
                     '' ('' @ utoa n @ '' pods): '' @ Join (map pod_ref_text lst) '', '')))
           else Inr (lst ! 0)))"

definition wp_GetByIP :: "'w watch_pods \<Rightarrow> string \<Rightarrow> kube_pod res \<times> 'w watch_pods" where
  "wp_GetByIP p ipAddr =
     (case wp_getByIP p ipAddr of
        Inr pod \<Rightarrow> (Inr pod, p)
      | Inl err \<Rightarrow>
          (case wp_FallbackSource p of
             None \<Rightarrow> (Inl (errorf (''error getting pod with cluster ip '' @ ipAddr @ '' from cache: '') err), p)
           | Some fallback \<Rightarrow>
               (case fst fallback ipAddr of
                  Inl err' \<Rightarrow> (Inl err', p)
                | Inr pod \<Rightarrow> (Inr pod, p\<lparr>wp_cacheMisses := Suc (wp_cacheMisses p)\<rparr>))))"

definition wp_GetByUID :: "'w watch_pods \<Rightarrow> string \<Rightarrow> kube_pod res \<times> 'w watch_pods" where
  "wp_GetByUID p uid =
     (case wp_getByUID p uid of
        Inr pod \<Rightarrow> (Inr pod, p)
      | Inl err \<Rightarrow>
          (case wp_FallbackSource p of
             None \<Rightarrow> (Inl (errorf (''error getting pod with uid '' @ uid @ '' from cache: '') err), p)
           | Some fallback \<Rightarrow>
               (case snd fallback uid of
                  Inl err' \<Rightarrow> (Inl err', p)
                | Inr pod \<Rightarrow> (Inr pod, p\<lparr>wp_cacheMisses := Suc (wp_cacheMisses p)\<rparr>))))"

section \<open>The provider contract\<close>

text \<open>
  What the server relies on when it takes the identity of a caller from a provider: for a
  configuration \<open>c\<close> that serves the node \<open>node c\<close>, a pod found by IP is a running pod of that node
  which is not on the host network and has that IP, and a pod found by UID is a running pod of the
  node with that UID. \<open>valid\<close> is what callers guarantee of their queries.
\<close>

definition ip_match :: "string \<Rightarrow> string \<Rightarrow> kube_pod \<Rightarrow> bool" where
  "ip_match node ip pod \<longleftrightarrow> isPodRunning pod \<and> pod_NodeName pod = node \<and>
     \<not> pod_HostNetwork pod \<and> pod_PodIP pod = ip"

definition uid_match :: "string \<Rightarrow> string \<Rightarrow> kube_pod \<Rightarrow> bool" where
  "uid_match node uid pod \<longleftrightarrow> isPodRunning pod \<and> pod_NodeName pod = node \<and> pod_UID pod = uid"

text \<open>A value that may appear in a field selector: not empty and without its special characters.\<close>

definition selector_safe :: "string \<Rightarrow> bool" where
  "selector_safe v \<longleftrightarrow> v \<noteq> [] \<and>
     (\<forall>c\<in>set v. c \<noteq> CHR '','' \<and> c \<noteq> CHR ''='' \<and> c \<noteq> CHR ''!'' \<and> c \<noteq> CHR 0x5C)"

locale pod_provider =
  fixes ok :: "'c \<Rightarrow> bool"
    and node :: "'c \<Rightarrow> string"
    and ByIP :: "'c \<Rightarrow> string \<Rightarrow> kube_pod res"
    and ByUID :: "'c \<Rightarrow> string \<Rightarrow> kube_pod res"
  assumes ByIP_match: "ok c \<Longrightarrow> selector_safe ip \<Longrightarrow> ByIP c ip = Inr pod \<Longrightarrow> ip_match (node c) ip pod"
    and ByUID_match: "ok c \<Longrightarrow> ByUID c uid = Inr pod \<Longrightarrow> uid_match (node c) uid pod"
begin

lemma ByIP_not_host:
  "ok c \<Longrightarrow> selector_safe ip \<Longrightarrow> ByIP c ip = Inr pod \<Longrightarrow> \<not> pod_HostNetwork pod \<and> isPodRunning pod"
  by (auto dest: ByIP_match simp: ip_match_def)

lemma identity_of_ip:
  assumes "ok c" "selector_safe ip" "ByIP c ip = Inr pod"
    and "\<And>p q. p \<in> cluster \<Longrightarrow> q \<in> cluster \<Longrightarrow> ip_match (node c) ip p \<Longrightarrow> ip_match (node c) ip q \<Longrightarrow> p = q"
    and "pod \<in> cluster" "caller \<in> cluster" "ip_match (node c) ip caller"
  shows "ReferenceFromPod pod = ReferenceFromPod caller"
  using assms ByIP_match by blast

end

subsection \<open>What the providers rely on\<close>

text \<open>
  The API server's list call with a field selector: a selector is a comma-separated conjunction of
  terms, and the answer holds exactly the pods of the cluster that satisfy every term.
\<close>

fun field_term :: "string \<times> string \<Rightarrow> kube_pod \<Rightarrow> bool" where
  "field_term (k, v) pod =
     (if k = ''spec.nodeName'' then pod_NodeName pod = v
      else if k = ''spec.hostNetwork'' then (if pod_HostNetwork pod then ''true'' else ''false'') = v
      else if k = ''status.podIP'' then pod_PodIP pod = v
      else False)"

definition selector_text :: "(string \<times> string) list \<Rightarrow> string" where
  "selector_text kvs = Join (map (\<lambda>(k, v). k @ ''='' @ v) kvs) '',''"

definition kube_list_ok :: "kube_pod list \<Rightarrow> kube_list \<Rightarrow> bool" where
  "kube_list_ok cluster kube \<longleftrightarrow>
     (\<forall>kvs. kvs \<noteq> [] \<longrightarrow> (\<forall>kv\<in>set kvs. selector_safe (fst kv) \<and> selector_safe (snd kv)) \<longrightarrow>
        (case kube (selector_text kvs) of
           Inl _ \<Rightarrow> True
         | Inr items \<Rightarrow> set items = {p \<in> set cluster. \<forall>kv\<in>set kvs. field_term kv p} \<and> distinct items))"

text \<open>
  The informer's indexer: \<open>Index\<close> returns the stored objects whose index values meet those of the
  query object, in some order.
\<close>

definition indexer_ok ::
    "kube_pod set \<Rightarrow> ((kube_pod \<Rightarrow> string list) \<Rightarrow> kube_pod \<Rightarrow> kube_pod list res) \<Rightarrow> bool" where
  "indexer_ok store idx \<longleftrightarrow>
     (\<forall>f obj. f = ipIndex_func \<or> f = uidIndex_func \<longrightarrow>
        (\<exists>items. idx f obj = Inr items \<and> distinct items \<and>
           set items = {p \<in> store. set (f p) \<inter> set (f obj) \<noteq> {}}))"

lemma kube_list_okD:
  assumes "kube_list_ok cluster kube" "kvs \<noteq> []" "\<forall>kv\<in>set kvs. selector_safe (fst kv) \<and> selector_safe (snd kv)"
    and "kube (selector_text kvs) = Inr items"
  shows "set items = {p \<in> set cluster. \<forall>kv\<in>set kvs. field_term kv p} \<and> distinct items"
  using assms(1) [unfolded kube_list_ok_def, rule_format, of kvs] assms(2-) by simp

lemma indexer_okD:
  assumes "indexer_ok store idx" "f = ipIndex_func \<or> f = uidIndex_func"
  obtains items where "idx f obj = Inr items" "distinct items"
    "set items = {p \<in> store. set (f p) \<inter> set (f obj) \<noteq> {}}"
  using assms unfolding indexer_ok_def by blast

lemma kube_list_ip:
  assumes "kube_list_ok cluster kube" "selector_safe node" "selector_safe ip"
    and "kube (Join [''spec.nodeName='' @ node, ''spec.hostNetwork=false'', ''status.podIP='' @ ip] '','') = Inr items"
  shows "set items = {p \<in> set cluster. pod_NodeName p = node \<and> \<not> pod_HostNetwork p \<and> pod_PodIP p = ip}"
    and "distinct items"
proof -
  let ?kvs = "[(''spec.nodeName'', node), (''spec.hostNetwork'', ''false''), (''status.podIP'', ip)]"
  have "selector_text ?kvs =
      Join [''spec.nodeName='' @ node, ''spec.hostNetwork=false'', ''status.podIP='' @ ip] '',''"
    by (simp add: selector_text_def)
  moreover have "\<forall>kv\<in>set ?kvs. selector_safe (fst kv) \<and> selector_safe (snd kv)"
    using assms(2,3) by (simp add: selector_safe_def)
  ultimately have *: "set items = {p \<in> set cluster. \<forall>kv\<in>set ?kvs. field_term kv p} \<and> distinct items"
    using kube_list_okD [OF assms(1), of ?kvs] assms(4) by simp
  show "distinct items" using * by simp
  show "set items = {p \<in> set cluster. pod_NodeName p = node \<and> \<not> pod_HostNetwork p \<and> pod_PodIP p = ip}"
    using * by (auto split: if_splits)
qed

lemma kube_list_node:
  assumes "kube_list_ok cluster kube" "selector_safe node"
    and "kube (''spec.nodeName='' @ node) = Inr items"
  shows "set items = {p \<in> set cluster. pod_NodeName p = node}" and "distinct items"
proof -
  let ?kvs = "[(''spec.nodeName'', node)]"
  have "selector_text ?kvs = ''spec.nodeName='' @ node"
    by (simp add: selector_text_def)
  moreover have "\<forall>kv\<in>set ?kvs. selector_safe (fst kv) \<and> selector_safe (snd kv)"
    using assms(2) by (simp add: selector_safe_def)
  ultimately have *: "set items = {p \<in> set cluster. \<forall>kv\<in>set ?kvs. field_term kv p} \<and> distinct items"
    using kube_list_okD [OF assms(1), of ?kvs] assms(3) by simp
  then show "set items = {p \<in> set cluster. pod_NodeName p = node}" and "distinct items"
    by auto
qed

text \<open>The common shape of the lookups by IP: exactly one running pod.\<close>

lemma running_unique:
  assumes "set items = S" "distinct items"
  shows "length (filter isPodRunning items) = 1 \<and> filter isPodRunning items ! 0 = pod \<longleftrightarrow>
     {p \<in> S. isPodRunning p} = {pod}"
proof
  assume "length (filter isPodRunning items) = 1 \<and> filter isPodRunning items ! 0 = pod"
  then have "filter isPodRunning items = [pod]"
    by (cases "filter isPodRunning items") auto
  then show "{p \<in> S. isPodRunning p} = {pod}"
    using assms(1) by (metis list.set(1) list.set(2) set_filter)
next
  assume a: "{p \<in> S. isPodRunning p} = {pod}"
  then have "set (filter isPodRunning items) = {pod}" using assms(1) by auto
  moreover have "distinct (filter isPodRunning items)" using assms(2) by simp
  ultimately have "length (filter isPodRunning items) = 1"
    by (metis card.empty card_insert_disjoint distinct_card empty_iff finite.emptyI One_nat_def)
  then show "length (filter isPodRunning items) = 1 \<and> filter isPodRunning items ! 0 = pod"
    using \<open>set (filter isPodRunning items) = {pod}\<close>
    by (metis length_greater_0_conv less_one list.size(3) nth_mem singletonD zero_neq_one)
qed

text \<open>The list provider succeeds exactly when one running pod matches.\<close>

definition ip_pods :: "kube_pod list \<Rightarrow> string \<Rightarrow> string \<Rightarrow> kube_pod set" where
  "ip_pods cluster node ip = {p \<in> set cluster. ip_match node ip p}"

lemma list_GetByIP_iff:
  assumes "kube_list_ok cluster kube" "selector_safe node" "selector_safe ip"
    and "kube (Join [''spec.nodeName='' @ node, ''spec.hostNetwork=false'', ''status.podIP='' @ ip] '','') = Inr items"
  shows "list_GetByIP node kube ip = Inr pod \<longleftrightarrow> ip_pods cluster node ip = {pod}"
proof -
  note k = kube_list_ip [OF assms]
  have "list_GetByIP node kube ip = Inr pod \<longleftrightarrow>
      length (filter isPodRunning items) = 1 \<and> filter isPodRunning items ! 0 = pod"
    using assms(4) by (auto simp: list_GetByIP_def Let_def)
  also have "\<dots> \<longleftrightarrow> {p \<in> {p \<in> set cluster. pod_NodeName p = node \<and> \<not> pod_HostNetwork p \<and> pod_PodIP p = ip}.
      isPodRunning p} = {pod}"
    by (rule running_unique [OF k])
  also have "\<dots> \<longleftrightarrow> ip_pods cluster node ip = {pod}"
    by (rule arg_cong [of _ _ "\<lambda>S. S = {pod}"]) (auto simp: ip_pods_def ip_match_def)
  finally show ?thesis .
qed

lemma list_GetByIP_Inr_items:
  "list_GetByIP node kube ip = Inr pod \<Longrightarrow>
     \<exists>items. kube (Join [''spec.nodeName='' @ node, ''spec.hostNetwork=false'', ''status.podIP='' @ ip] '','') = Inr items"
  by (auto simp: list_GetByIP_def Let_def split: sum.splits)

lemma list_GetByIP_match:
  assumes "kube_list_ok cluster kube" "selector_safe node" "selector_safe ip"
    and "list_GetByIP node kube ip = Inr pod"
  shows "ip_match node ip pod"
proof -
  obtain items where "kube (Join [''spec.nodeName='' @ node, ''spec.hostNetwork=false'', ''status.podIP='' @ ip] '','') = Inr items"
    using list_GetByIP_Inr_items [OF assms(4)] by blast
  then have "ip_pods cluster node ip = {pod}"
    using list_GetByIP_iff [OF assms(1-3)] assms(4) by blast
  then show ?thesis by (auto simp: ip_pods_def)
qed

lemma list_GetByUID_match:
  assumes "kube_list_ok cluster kube" "selector_safe node" "list_GetByUID node kube uid = Inr pod"
  shows "uid_match node uid pod"
proof -
  obtain items where k: "kube (''spec.nodeName='' @ node) = Inr items"
      and f: "List.find (\<lambda>pod. pod_UID pod = uid) (filter isPodRunning items) = Some pod"
    using assms(3) by (auto simp: list_GetByUID_def split: sum.splits option.splits)
  then show ?thesis
    using find_Some_in [OF f] kube_list_node [OF assms(1,2) k] by (auto simp: uid_match_def)
qed

definition list_ok :: "string \<times> kube_list \<Rightarrow> bool" where
  "list_ok c \<longleftrightarrow> selector_safe (fst c) \<and> (\<exists>cluster. kube_list_ok cluster (snd c))"

interpretation list_pods: pod_provider list_ok fst
    "\<lambda>c. list_GetByIP (fst c) (snd c)" "\<lambda>c. list_GetByUID (fst c) (snd c)"
  by unfold_locales (auto simp: list_ok_def intro: list_GetByIP_match list_GetByUID_match)

subsection \<open>The watching provider\<close>

lemma ip_index_items:
  assumes "ip \<noteq> []"
  shows "{p \<in> store. set (ipIndex_func p) \<inter> set (ipIndex_func (zero_pod\<lparr>pod_PodIP := ip\<rparr>)) \<noteq> {}} =
     {p \<in> store. \<not> pod_HostNetwork p \<and> pod_PodIP p = ip}"
  using assms by (auto simp: ipIndex_func_def zero_pod_def)

lemma uid_index_items:
  "{p \<in> store. set (uidIndex_func p) \<inter> set (uidIndex_func (zero_pod\<lparr>pod_UID := uid\<rparr>)) \<noteq> {}} =
     {p \<in> store. pod_UID p = uid \<and> uid \<noteq> []}"
  by (auto simp: uidIndex_func_def zero_pod_def)

lemma wp_getByIP_iff:
  assumes "indexer_ok store (wp_Index p)" "ip \<noteq> []"
  shows "wp_getByIP p ip = Inr pod \<longleftrightarrow>
     {q \<in> store. isPodRunning q \<and> \<not> pod_HostNetwork q \<and> pod_PodIP q = ip} = {pod}"
proof -
  obtain items where i0: "wp_Index p ipIndex_func (zero_pod\<lparr>pod_PodIP := ip\<rparr>) = Inr items"
      "distinct items" "set items = {q \<in> store. set (ipIndex_func q) \<inter>
         set (ipIndex_func (zero_pod\<lparr>pod_PodIP := ip\<rparr>)) \<noteq> {}}"
    by (rule indexer_okD [OF assms(1), of ipIndex_func]) auto
  note i = i0(1,2) i0(3) [unfolded ip_index_items [OF assms(2)]]
  have "wp_getByIP p ip = Inr pod \<longleftrightarrow>
      length (filter isPodRunning items) = 1 \<and> filter isPodRunning items ! 0 = pod"
    using i(1) by (auto simp: wp_getByIP_def Let_def)
  also have "\<dots> \<longleftrightarrow> {q \<in> {p \<in> store. \<not> pod_HostNetwork p \<and> pod_PodIP p = ip}. isPodRunning q} = {pod}"
    by (rule running_unique [OF i(3,2)])
  also have "\<dots> \<longleftrightarrow> {q \<in> store. isPodRunning q \<and> \<not> pod_HostNetwork q \<and> pod_PodIP q = ip} = {pod}"
    by (rule arg_cong [of _ _ "\<lambda>S. S = {pod}"]) auto
  finally show ?thesis .
qed

lemma wp_getByUID_iff:
  assumes "indexer_ok store (wp_Index p)"
  shows "wp_getByUID p uid = Inr pod \<longleftrightarrow>
     {q \<in> store. isPodRunning q \<and> pod_UID q = uid \<and> uid \<noteq> []} = {pod}"
proof -
  obtain items where i0: "wp_Index p uidIndex_func (zero_pod\<lparr>pod_UID := uid\<rparr>) = Inr items"
      "distinct items" "set items = {q \<in> store. set (uidIndex_func q) \<inter>
         set (uidIndex_func (zero_pod\<lparr>pod_UID := uid\<rparr>)) \<noteq> {}}"
    by (rule indexer_okD [OF assms(1), of uidIndex_func]) auto
  note i = i0(1,2) i0(3) [unfolded uid_index_items]
  have "wp_getByUID p uid = Inr pod \<longleftrightarrow>
      length (filter isPodRunning items) = 1 \<and> filter isPodRunning items ! 0 = pod"
    using i(1) by (auto simp: wp_getByUID_def Let_def)
  also have "\<dots> \<longleftrightarrow> {q \<in> {p \<in> store. pod_UID p = uid \<and> uid \<noteq> []}. isPodRunning q} = {pod}"
    by (rule running_unique [OF i(3,2)])
  also have "\<dots> \<longleftrightarrow> {q \<in> store. isPodRunning q \<and> pod_UID q = uid \<and> uid \<noteq> []} = {pod}"
    by (rule arg_cong [of _ _ "\<lambda>S. S = {pod}"]) auto
  finally show ?thesis .
qed

text \<open>
  A watching provider serves a node when its informer's store holds pods of the node only (the list
  options of the informer select them) and its fallback, if it has one, is sound for the node.
\<close>

definition watch_ok :: "string \<times> 'w watch_pods \<Rightarrow> bool" where
  "watch_ok c \<longleftrightarrow>
     (\<exists>store. indexer_ok store (wp_Index (snd c)) \<and> (\<forall>p\<in>store. pod_NodeName p = fst c)) \<and>
     (\<forall>f. wp_FallbackSource (snd c) = Some f \<longrightarrow>
        (\<forall>ip pod. selector_safe ip \<longrightarrow> fst f ip = Inr pod \<longrightarrow> ip_match (fst c) ip pod) \<and>
        (\<forall>uid pod. snd f uid = Inr pod \<longrightarrow> uid_match (fst c) uid pod))"

lemma wp_GetByIP_cases:
  "fst (wp_GetByIP p ip) = Inr pod \<Longrightarrow>
     wp_getByIP p ip = Inr pod \<or> (\<exists>f. wp_FallbackSource p = Some f \<and> fst f ip = Inr pod)"
  by (auto simp: wp_GetByIP_def split: sum.splits option.splits)

lemma wp_GetByUID_cases:
  "fst (wp_GetByUID p uid) = Inr pod \<Longrightarrow>
     wp_getByUID p uid = Inr pod \<or> (\<exists>f. wp_FallbackSource p = Some f \<and> snd f uid = Inr pod)"
  by (auto simp: wp_GetByUID_def split: sum.splits option.splits)

lemma wp_GetByIP_match:
  assumes "watch_ok (node, p)" "selector_safe ip" "fst (wp_GetByIP p ip) = Inr pod"
  shows "ip_match node ip pod"
  using wp_GetByIP_cases [OF assms(3)]
proof
  assume cache: "wp_getByIP p ip = Inr pod"
  obtain store where s: "indexer_ok store (wp_Index p)" "\<forall>q\<in>store. pod_NodeName q = node"
    using assms(1) by (auto simp: watch_ok_def)
  have "pod \<in> {q \<in> store. isPodRunning q \<and> \<not> pod_HostNetwork q \<and> pod_PodIP q = ip}"
    using wp_getByIP_iff [OF s(1)] cache assms(2) by (auto simp: selector_safe_def)
  then show ?thesis using s(2) by (simp add: ip_match_def)
qed (use assms in \<open>auto simp: watch_ok_def\<close>)

lemma wp_GetByUID_match:
  assumes "watch_ok (node, p)" "fst (wp_GetByUID p uid) = Inr pod"
  shows "uid_match node uid pod"
  using wp_GetByUID_cases [OF assms(2)]
proof
  assume cache: "wp_getByUID p uid = Inr pod"
  obtain store where s: "indexer_ok store (wp_Index p)" "\<forall>q\<in>store. pod_NodeName q = node"
    using assms(1) by (auto simp: watch_ok_def)
  have "pod \<in> {q \<in> store. isPodRunning q \<and> pod_UID q = uid \<and> uid \<noteq> []}"
    using wp_getByUID_iff [OF s(1)] cache by auto
  then show ?thesis using s(2) by (simp add: uid_match_def)
qed (use assms in \<open>auto simp: watch_ok_def\<close>)

interpretation watch_pods: pod_provider watch_ok fst
    "\<lambda>c ip. fst (wp_GetByIP (snd c) ip)" "\<lambda>c uid. fst (wp_GetByUID (snd c) uid)"
  by unfold_locales (auto intro: wp_GetByIP_match wp_GetByUID_match)

text \<open>As \<open>main\<close> builds it, the watching provider serves its node: the informer's store holds what a list with
  its selector returned, and the fallback is nil or the listing provider of the same node.\<close>

lemma NewProvider_watch_ok:
  assumes "list_ok (node, kube)" "kube (wp_selector node) = Inr items" "indexer_ok (set items) idx"
    and "fb = None \<or> fb = Some (list_GetByIP node kube, list_GetByUID node kube)"
  shows "watch_ok (node, wp_NewProvider idx fb)"
proof -
  obtain cluster where k: "selector_safe node" "kube_list_ok cluster kube" using assms(1) by (auto simp: list_ok_def)
  have "set items = {p \<in> set cluster. pod_NodeName p = node}"
    using kube_list_node(1) [OF k(2,1)] assms(2) by (simp add: wp_selector_def)
  then show ?thesis
    using assms(3,4) list_GetByIP_match [OF k(2,1)] list_GetByUID_match [OF k(2,1)]
    by (auto simp: watch_ok_def wp_NewProvider_def)
qed

section \<open>Executable instances of the API server and the indexer\<close>

text \<open>A list call that evaluates the selector text on the pods of a cluster, and an index lookup
  over a list of stored pods. They satisfy the laws above, so the laws can hold.\<close>

definition term_holds :: "string \<Rightarrow> kube_pod \<Rightarrow> bool" where
  "term_holds t p = (case SplitN 2 (CHR ''='') t of [k, v] \<Rightarrow> field_term (k, v) p | _ \<Rightarrow> False)"

definition api_list :: "kube_pod list \<Rightarrow> kube_list" where
  "api_list cluster sel = Inr (filter (\<lambda>p. \<forall>t\<in>set (Split (CHR '','') sel). term_holds t p) cluster)"

definition api_index :: "kube_pod list \<Rightarrow> (kube_pod \<Rightarrow> string list) \<Rightarrow> kube_pod \<Rightarrow> kube_pod list res" where
  "api_index store f obj = Inr (filter (\<lambda>p. \<exists>x\<in>set (f p). x \<in> set (f obj)) store)"

lemma api_index_ok: "distinct store \<Longrightarrow> indexer_ok (set store) (api_index store)"
  by (auto simp: indexer_ok_def api_index_def)

lemma api_list_ok:
  assumes "distinct cluster"
  shows "kube_list_ok cluster (api_list cluster)"
proof -
  have eq: "(\<forall>t\<in>set (Split (CHR '','') (selector_text kvs)). term_holds t p) \<longleftrightarrow> (\<forall>kv\<in>set kvs. field_term kv p)"
    if k: "kvs \<noteq> []" "\<forall>kv\<in>set kvs. selector_safe (fst kv) \<and> selector_safe (snd kv)" for kvs p
  proof -
    have "\<forall>q\<in>set (map (\<lambda>(k, v). k @ ''='' @ v) kvs). CHR '','' \<notin> set q"
    proof
      fix q assume "q \<in> set (map (\<lambda>(k, v). k @ ''='' @ v) kvs)"
      then obtain kv where kv: "kv \<in> set kvs" "q = fst kv @ ''='' @ snd kv"
        by (auto simp: split_beta)
      have "CHR '','' \<notin> set (fst kv)" "CHR '','' \<notin> set (snd kv)"
        using bspec [OF k(2) kv(1)] unfolding selector_safe_def by blast+
      then show "CHR '','' \<notin> set q" by (simp add: kv(2))
    qed
    then have "Split (CHR '','') (selector_text kvs) = map (\<lambda>(k, v). k @ ''='' @ v) kvs"
      unfolding selector_text_def using k(1) Split_Join by simp
    moreover have "term_holds (fst kv @ ''='' @ snd kv) p = field_term kv p" if "kv \<in> set kvs" for kv
    proof -
      have "CHR ''='' \<notin> set (fst kv)"
        using bspec [OF k(2) that] unfolding selector_safe_def by blast
      from SplitN_2_append [OF this, of "snd kv"] show ?thesis
        by (simp add: term_holds_def del: field_term.simps)
    qed
    ultimately show ?thesis by (simp add: split_beta del: field_term.simps)
  qed
  show ?thesis
    unfolding kube_list_ok_def
  proof (intro allI impI)
    fix kvs :: "(string \<times> string) list"
    assume k: "kvs \<noteq> []" "\<forall>kv\<in>set kvs. selector_safe (fst kv) \<and> selector_safe (snd kv)"
    have "api_list cluster (selector_text kvs) = Inr (filter (\<lambda>p. \<forall>kv\<in>set kvs. field_term kv p) cluster)"
      by (simp only: api_list_def eq [OF k])
    then show "case api_list cluster (selector_text kvs) of Inl _ \<Rightarrow> True
       | Inr items \<Rightarrow> set items = {p \<in> set cluster. \<forall>kv\<in>set kvs. field_term kv p} \<and> distinct items"
      using assms by (simp del: field_term.simps)
  qed
qed

section \<open>Properties\<close>

text \<open>C30. A watching provider whose informer has synchronised with the API server answers as the
  listing provider: by IP always, and by UID when pod UIDs are unique, as Kubernetes makes them.
  Hence switching \<open>--watch-pods\<close> on does not change which pod a caller is taken for.\<close>

theorem watch_refines_list:
  assumes "kube_list_ok cluster kube" and "selector_safe node" and "selector_safe ip"
    and sync: "indexer_ok {p \<in> set cluster. pod_NodeName p = node} (wp_Index p)"
    and up: "\<forall>sel. \<exists>items. kube sel = Inr items"
    and uids: "\<forall>a\<in>set cluster. \<forall>b\<in>set cluster. pod_UID a = pod_UID b \<longrightarrow> a = b"
  shows "(wp_getByIP p ip = Inr pod \<longleftrightarrow> list_GetByIP node kube ip = Inr pod) \<and>
    (uid \<noteq> [] \<longrightarrow> (wp_getByUID p uid = Inr pod \<longleftrightarrow> list_GetByUID node kube uid = Inr pod))"
proof (intro conjI impI)
  obtain items where "kube (Join [''spec.nodeName='' @ node, ''spec.hostNetwork=false'', ''status.podIP='' @ ip] '','') = Inr items"
    using up by blast
  note l = list_GetByIP_iff [OF assms(1-3) this, of pod]
  have "ip \<noteq> []" using assms(3) unfolding selector_safe_def by blast
  moreover have "{q \<in> {p \<in> set cluster. pod_NodeName p = node}.
      isPodRunning q \<and> \<not> pod_HostNetwork q \<and> pod_PodIP q = ip} = ip_pods cluster node ip"
    by (auto simp: ip_pods_def ip_match_def)
  ultimately show "wp_getByIP p ip = Inr pod \<longleftrightarrow> list_GetByIP node kube ip = Inr pod"
    using wp_getByIP_iff [OF sync, of ip pod] l by simp
next
  assume "uid \<noteq> []"
  obtain items where k: "kube (''spec.nodeName='' @ node) = Inr items" using up by blast
  note items = kube_list_node [OF assms(1,2) k]
  have S: "{q \<in> {p \<in> set cluster. pod_NodeName p = node}. isPodRunning q \<and> pod_UID q = uid \<and> uid \<noteq> []} =
      {q \<in> set (filter isPodRunning items). pod_UID q = uid}"
    using \<open>uid \<noteq> []\<close> items(1) by auto
  have F: "List.find (\<lambda>q. pod_UID q = uid) (filter isPodRunning items) = Some pod \<longleftrightarrow>
      {q \<in> set (filter isPodRunning items). pod_UID q = uid} = {pod}"
    by (rule find_unique_iff) (use uids items(1) in auto)
  have "list_GetByUID node kube uid = Inr pod \<longleftrightarrow>
      List.find (\<lambda>q. pod_UID q = uid) (filter isPodRunning items) = Some pod"
    using k by (simp add: list_GetByUID_def split: option.split)
  then show "wp_getByUID p uid = Inr pod \<longleftrightarrow> list_GetByUID node kube uid = Inr pod"
    by (simp only: F wp_getByUID_iff [OF sync] S)
qed

definition example_pod :: kube_pod where
  "example_pod = \<lparr>pod_Name = ''web'', pod_Namespace = ''default'', pod_UID = ''u1'', pod_Deleting = False,
     pod_NodeName = ''n1'', pod_HostNetwork = False, pod_ServiceAccountName = ''sa'',
     pod_PodIP = ''10.0.0.5'', pod_Phase = ''Running''\<rparr>"

definition example_host_pod :: kube_pod where
  "example_host_pod = example_pod\<lparr>pod_Name := ''agent'', pod_UID := ''u2'', pod_HostNetwork := True\<rparr>"

definition example_cluster :: "kube_pod list" where
  "example_cluster = [example_host_pod, example_pod]"

definition example_watch :: "unit watch_pods" where
  "example_watch = \<lparr>wp_numPods = 2, wp_cacheMisses = 0, wp_Index = api_index example_cluster,
     wp_FallbackSource = None, wp_listeners = []\<rparr>"

lemmas example_pod_defs = example_pod_def example_host_pod_def example_cluster_def example_watch_def

lemma example_cluster_facts:
  "distinct example_cluster" "{p \<in> set example_cluster. pod_NodeName p = ''n1''} = set example_cluster"
  "\<forall>a\<in>set example_cluster. \<forall>b\<in>set example_cluster. pod_UID a = pod_UID b \<longrightarrow> a = b"
  by (auto simp: example_pod_defs)

lemma example_sync:
  "indexer_ok {p \<in> set example_cluster. pod_NodeName p = ''n1''} (wp_Index example_watch)"
  unfolding example_cluster_facts(2)
  using api_index_ok [OF example_cluster_facts(1)] by (simp add: example_watch_def)

theorem watch_refines_list_witness:
  "wp_getByIP example_watch ''10.0.0.5'' = Inr example_pod \<and>
   list_GetByIP ''n1'' (api_list example_cluster) ''10.0.0.5'' = Inr example_pod \<and>
   list_GetByUID ''n1'' (api_list example_cluster) ''u2'' = Inr example_host_pod"
proof -
  note R = watch_refines_list [OF api_list_ok [OF example_cluster_facts(1)] _ _ example_sync _
      example_cluster_facts(3), of "''10.0.0.5''"]
  have up: "\<forall>sel. \<exists>items. api_list example_cluster sel = Inr items"
    by (simp add: api_list_def)
  have safe: "selector_safe ''n1''" "selector_safe ''10.0.0.5''"
    by (simp_all add: selector_safe_def)
  have cache: "wp_getByIP example_watch ''10.0.0.5'' = Inr example_pod"
      "wp_getByUID example_watch ''u2'' = Inr example_host_pod"
    by (simp_all add: wp_getByIP_def wp_getByUID_def example_pod_defs api_index_def ipIndex_func_def
        uidIndex_func_def zero_pod_def isPodRunning_def)
  show ?thesis using cache R [OF safe up] by blast
qed

text \<open>What a successful lookup of the watching provider returns, from its cache or from its
  fallback: by IP a running pod of the node that is not on the host network and has that IP, by UID a
  running pod of the node with that UID. Never a finished or a terminating pod, never a pod of
  another node.\<close>

lemma watch_lookup_sound:
  assumes "watch_ok (node, p)"
  shows "(selector_safe ip \<longrightarrow> fst (wp_GetByIP p ip) = Inr pod \<longrightarrow>
           isPodRunning pod \<and> pod_NodeName pod = node \<and> \<not> pod_HostNetwork pod \<and> pod_PodIP pod = ip) \<and>
         (fst (wp_GetByUID p uid) = Inr pod \<longrightarrow>
           isPodRunning pod \<and> pod_NodeName pod = node \<and> pod_UID pod = uid)"
  using watch_pods.ByIP_match [of "(node, p)" ip pod] watch_pods.ByUID_match [of "(node, p)" uid pod] assms
  by (auto simp: ip_match_def uid_match_def)

lemma example_watch_ok: "watch_ok (''n1'', example_watch)"
  using example_sync by (auto simp: watch_ok_def example_watch_def)

lemma watch_lookup_sound_example:
  "fst (wp_GetByIP example_watch ''10.0.0.5'') = Inr example_pod \<and> \<not> pod_HostNetwork example_pod"
proof -
  have "fst (wp_GetByIP example_watch ''10.0.0.5'') = Inr example_pod"
    by (simp add: wp_GetByIP_def wp_getByIP_def example_pod_defs api_index_def ipIndex_func_def
        zero_pod_def isPodRunning_def)
  moreover have "selector_safe ''10.0.0.5''" by (simp add: selector_safe_def)
  ultimately show ?thesis
    using watch_lookup_sound [OF example_watch_ok, of "''10.0.0.5''" example_pod "[]"] by blast
qed

text \<open>The informer delivers a history of additions and deletions to the handlers.\<close>

datatype pod_event = PodAdded kube_pod | PodDeleted "kube_pod delete_obj"

fun wp_run :: "pod_event list \<Rightarrow> 'w watch_pods \<Rightarrow> 'w \<Rightarrow> ('w watch_pods \<times> 'w) go" where
  "wp_run [] p w = Ret (p, w)"
| "wp_run (PodAdded pod # es) p w = (case wp_AddFunc pod p w of (p', w') \<Rightarrow> wp_run es p' w')"
| "wp_run (PodDeleted obj # es) p w =
     gobind (wp_DeleteFunc obj p w) (\<lambda>(p', w'). wp_run es p' w')"

fun tombstone :: "pod_event \<Rightarrow> bool" where
  "tombstone (PodDeleted (DeletedFinalStateUnknown _ _)) = True"
| "tombstone _ = False"

fun is_added :: "pod_event \<Rightarrow> bool" where
  "is_added (PodAdded _) = True"
| "is_added _ = False"

text \<open>C39. The handlers process a history without panicking exactly when no deletion in it arrives as
  a \<open>DeletedFinalStateUnknown\<close>, and then the \<open>pods\<close> gauge has moved by the number of additions
  minus the number of deletions. A deletion that is only noticed by a re-list, which client-go
  delivers as such a tombstone, crashes the process.\<close>

theorem wp_run_gauge:
  "(panics (wp_run es p w) \<longleftrightarrow> (\<exists>e\<in>set es. tombstone e)) \<and>
   (case wp_run es p w of
      Panic _ \<Rightarrow> True
    | Ret (p', w') \<Rightarrow> wp_numPods p' = wp_numPods p + int (length (filter is_added es)) -
        int (length (filter (\<lambda>e. \<not> is_added e) es)))"
proof (induction es p w rule: wp_run.induct)
  case (2 pod es p w)
  then show ?case by (auto simp: wp_AddFunc_def Let_def split: go.splits)
next
  case (3 obj es p w)
  show ?case
  proof (cases obj)
    case (Live pod)
    then show ?thesis
      using "3.IH" [of "p\<lparr>wp_numPods := wp_numPods p - 1\<rparr>"
          "fold (\<lambda>l. DeletePodServiceAccountL l (ReferenceFromPod pod)) (wp_listeners p) w"]
      by (auto simp: wp_DeleteFunc_def Let_def split: go.splits)
  qed (simp add: wp_DeleteFunc_def)
qed simp

end
