(* ===== verification/Go_Net.thy ===== *)
theory Go_Net
  imports Go_Errors "HOL-Library.Word"
begin

text \<open>
  The fragment of Go's \<open>net\<close>, \<open>net/netip\<close> and \<open>strconv\<close> that the server calls on the addresses of a
  connection. An IPv6 address is its eight 16-bit groups and a zone. Parse failures carry one error
  text per function, not the text of each of its branches.
\<close>

unbundle bit_operations_syntax

datatype netip_addr =
    AddrV4 "8 word" "8 word" "8 word" "8 word"
  | AddrV6 "16 word list" string

section \<open>Numbers\<close>

text \<open>\<open>strconv.ParseUint(s, 10, 16)\<close> and \<open>strconv.Atoi\<close>.\<close>

definition ParseUint16 :: "string \<Rightarrow> (16 word) res" where
  "ParseUint16 s =
     (if s = [] \<or> \<not> list_all is_digit s
      then Inl (ErrorString (''strconv.ParseUint: parsing '' @ Quote s @ '': invalid syntax''))
      else if digits_val s > 65535
      then Inl (ErrorString (''strconv.ParseUint: parsing '' @ Quote s @ '': value out of range''))
      else Inr (of_nat (digits_val s)))"

definition Atoi :: "string \<Rightarrow> int res" where
  "Atoi s =
     (let neg = (s \<noteq> [] \<and> hd s = CHR ''-'');
          ds = (if s \<noteq> [] \<and> (hd s = CHR ''-'' \<or> hd s = CHR ''+'') then tl s else s);
          n = (if neg then - int (digits_val ds) else int (digits_val ds))
      in if ds = [] \<or> \<not> list_all is_digit ds
         then Inl (ErrorString (''strconv.Atoi: parsing '' @ Quote s @ '': invalid syntax''))
         else if \<not> in64 n
         then Inl (ErrorString (''strconv.Atoi: parsing '' @ Quote s @ '': value out of range''))
         else Inr n)"

section \<open>net.SplitHostPort\<close>

fun last_index :: "string \<Rightarrow> char \<Rightarrow> nat option" where
  "last_index [] c = None"
| "last_index (x # xs) c =
     (case last_index xs c of
        Some i \<Rightarrow> Some (Suc i)
      | None \<Rightarrow> if x = c then Some 0 else None)"

definition addr_error :: "string \<Rightarrow> string \<Rightarrow> goerr" where
  "addr_error addr why = ErrorString (''address '' @ addr @ '': '' @ why)"

definition SplitHostPort :: "string \<Rightarrow> (string \<times> string) res" where
  "SplitHostPort hp =
     (case last_index hp (CHR '':'') of
        None \<Rightarrow> Inl (addr_error hp ''missing port in address'')
      | Some i \<Rightarrow>
          ebind (if hd hp = CHR ''[''
                 then (case IndexByte hp (CHR '']'') of
                         None \<Rightarrow> Inl (addr_error hp ''missing ']' in address'')
                       | Some e \<Rightarrow>
                           if e + 1 = length hp then Inl (addr_error hp ''missing port in address'')
                           else if e + 1 = i then Inr (take (e - 1) (tl hp), 1, e + 1)
                           else if hp ! (e + 1) = CHR '':'' then Inl (addr_error hp ''too many colons in address'')
                           else Inl (addr_error hp ''missing port in address''))
                 else if CHR '':'' \<in> set (take i hp)
                      then Inl (addr_error hp ''too many colons in address'')
                      else Inr (take i hp, 0, 0))
            (\<lambda>(host, j, k).
               if CHR ''['' \<in> set (drop j hp) then Inl (addr_error hp ''unexpected '[' in address'')
               else if CHR '']'' \<in> set (drop k hp) then Inl (addr_error hp ''unexpected ']' in address'')
               else Inr (host, drop (i + 1) hp)))"

section \<open>netip.ParseAddr\<close>

definition parse_octet :: "string \<Rightarrow> (8 word) option" where
  "parse_octet s =
     (if s \<noteq> [] \<and> list_all is_digit s \<and> (length s = 1 \<or> hd s \<noteq> CHR ''0'') \<and> digits_val s \<le> 255
      then Some (of_nat (digits_val s)) else None)"

definition parseIPv4 :: "string \<Rightarrow> (8 word \<times> 8 word \<times> 8 word \<times> 8 word) option" where
  "parseIPv4 s =
     (case map parse_octet (Split (CHR ''.'') s) of
        [Some a, Some b, Some c, Some d] \<Rightarrow> Some (a, b, c, d)
      | _ \<Rightarrow> None)"

definition hex_val :: "char \<Rightarrow> nat option" where
  "hex_val c =
     (let n = of_char c :: nat in
      if 48 \<le> n \<and> n \<le> 57 then Some (n - 48)
      else if 97 \<le> n \<and> n \<le> 102 then Some (n - 87)
      else if 65 \<le> n \<and> n \<le> 70 then Some (n - 55)
      else None)"

definition hex_prefix :: "string \<Rightarrow> string" where
  "hex_prefix s = takeWhile (\<lambda>c. hex_val c \<noteq> None) s"

definition hex_num :: "string \<Rightarrow> nat" where
  "hex_num s = foldl (\<lambda>n c. 16 * n + the (hex_val c)) 0 s"

text \<open>
  The group loop of \<open>parseIPv6\<close>: \<open>room\<close> groups are still free, \<open>gs\<close> are the groups read so far and
  \<open>ell\<close> the position of a \<open>::\<close> seen before them.
\<close>

fun v6_groups :: "nat \<Rightarrow> string \<Rightarrow> 16 word list \<Rightarrow> nat option \<Rightarrow> (16 word list \<times> nat option \<times> string) option" where
  "v6_groups 0 s gs ell = Some (gs, ell, s)"
| "v6_groups (Suc room) s gs ell =
     (let h = hex_prefix s; r = drop (length h) s in
      if length h > 4 \<or> h = [] then None
      else if r \<noteq> [] \<and> hd r = CHR ''.'' then
        (if (ell = None \<and> length gs \<noteq> 6) \<or> room = 0 then None
         else case parseIPv4 s of
             None \<Rightarrow> None
           | Some (a, b, c, d) \<Rightarrow>
               Some (gs @ [push_bit 8 (ucast a) OR ucast b, push_bit 8 (ucast c) OR ucast d], ell, []))
      else (let gs' = gs @ [of_nat (hex_num h)] in
        case r of
          [] \<Rightarrow> Some (gs', ell, [])
        | [c] \<Rightarrow> None
        | c # c' # r' \<Rightarrow>
            if c \<noteq> CHR '':'' then None
            else if c' = CHR '':'' then
              (if ell \<noteq> None then None
               else if r' = [] then Some (gs', Some (length gs'), [])
               else v6_groups room r' gs' (Some (length gs')))
            else v6_groups room (c' # r') gs' ell))"

definition v6_finish :: "16 word list \<times> nat option \<times> string \<Rightarrow> 16 word list option" where
  "v6_finish t =
     (case t of (gs, ell, s) \<Rightarrow>
        if s \<noteq> [] then None
        else if length gs < 8 then
          (case ell of
             None \<Rightarrow> None
           | Some e \<Rightarrow> Some (take e gs @ replicate (8 - length gs) 0 @ drop e gs))
        else if ell \<noteq> None then None else Some gs)"

definition parseIPv6 :: "string \<Rightarrow> (16 word list \<times> string) option" where
  "parseIPv6 inp =
     (let (s, zone, ok) = (case IndexByte inp (CHR ''%'') of
            None \<Rightarrow> (inp, [], True)
          | Some i \<Rightarrow> (take i inp, drop (i + 1) inp, drop (i + 1) inp \<noteq> []))
      in if \<not> ok then None
         else if take 2 s = ''::'' then
           (if drop 2 s = [] then Some (replicate 8 0, zone)
            else map_option (\<lambda>g. (g, zone)) (Option.bind (v6_groups 8 (drop 2 s) [] (Some 0)) v6_finish))
         else map_option (\<lambda>g. (g, zone)) (Option.bind (v6_groups 8 s [] None) v6_finish))"

definition parse_addr_error :: "string \<Rightarrow> goerr" where
  "parse_addr_error s = ErrorString (''ParseAddr('' @ Quote s @ ''): unable to parse IP'')"

definition ParseAddr :: "string \<Rightarrow> netip_addr res" where
  "ParseAddr s =
     (case List.find (\<lambda>c. c = CHR ''.'' \<or> c = CHR '':'' \<or> c = CHR ''%'') s of
        Some c \<Rightarrow>
          if c = CHR ''.'' then
            (case parseIPv4 s of
               Some (a, b, c, d) \<Rightarrow> Inr (AddrV4 a b c d)
             | None \<Rightarrow> Inl (parse_addr_error s))
          else if c = CHR '':'' then
            (case parseIPv6 s of
               Some (gs, zone) \<Rightarrow> Inr (AddrV6 gs zone)
             | None \<Rightarrow> Inl (parse_addr_error s))
          else Inl (parse_addr_error s)
      | None \<Rightarrow> Inl (parse_addr_error s))"

section \<open>Addr methods\<close>

definition Is4In6 :: "netip_addr \<Rightarrow> bool" where
  "Is4In6 ip = (case ip of AddrV6 gs _ \<Rightarrow> take 6 gs = [0, 0, 0, 0, 0, 0xffff] | _ \<Rightarrow> False)"

definition word_hi :: "16 word \<Rightarrow> 8 word" where "word_hi w = ucast (drop_bit 8 w)"
definition word_lo :: "16 word \<Rightarrow> 8 word" where "word_lo w = ucast w"

fun Unmap :: "netip_addr \<Rightarrow> netip_addr" where
  "Unmap (AddrV4 a b c d) = AddrV4 a b c d"
| "Unmap (AddrV6 gs zone) =
     (if Is4In6 (AddrV6 gs zone)
      then AddrV4 (word_hi (gs ! 6)) (word_lo (gs ! 6)) (word_hi (gs ! 7)) (word_lo (gs ! 7))
      else AddrV6 gs zone)"

definition Is4 :: "netip_addr \<Rightarrow> bool" where
  "Is4 ip = (case ip of AddrV4 _ _ _ _ \<Rightarrow> True | _ \<Rightarrow> False)"

definition IsLoopback :: "netip_addr \<Rightarrow> bool" where
  "IsLoopback ip =
     (case Unmap ip of
        AddrV4 a _ _ _ \<Rightarrow> a = 127
      | AddrV6 gs _ \<Rightarrow> gs = [0, 0, 0, 0, 0, 0, 0, 1])"

definition IsLinkLocalUnicast :: "netip_addr \<Rightarrow> bool" where
  "IsLinkLocalUnicast ip =
     (case Unmap ip of
        AddrV4 a b _ _ \<Rightarrow> a = 169 \<and> b = 254
      | AddrV6 gs _ \<Rightarrow> gs \<noteq> [] \<and> (hd gs) AND 0xffc0 = 0xfe80)"

text \<open>\<open>As4\<close> panics on an IPv6 address that is not IPv4-mapped.\<close>

definition As4 :: "netip_addr \<Rightarrow> (8 word list) go" where
  "As4 ip =
     (case Unmap ip of
        AddrV4 a b c d \<Rightarrow> Ret [a, b, c, d]
      | AddrV6 _ _ \<Rightarrow> Panic ''As4 called on IPv6 address'')"

text \<open>\<open>Addr.String\<close>: dotted decimal, or the canonical text of an IPv6 address.\<close>

definition octet_text :: "8 word \<Rightarrow> string" where
  "octet_text b = utoa (unat b)"

definition v4_text :: "8 word \<Rightarrow> 8 word \<Rightarrow> 8 word \<Rightarrow> 8 word \<Rightarrow> string" where
  "v4_text a b c d = Join [octet_text a, octet_text b, octet_text c, octet_text d] ''.''"

fun utoa16 :: "nat \<Rightarrow> string" where
  "utoa16 n = (if n < 16 then [hex_digit n] else utoa16 (n div 16) @ [hex_digit (n mod 16)])"

declare utoa16.simps [simp del]

definition zero_run :: "16 word list \<Rightarrow> nat \<Rightarrow> nat" where
  "zero_run gs i = length (takeWhile (\<lambda>g. g = 0) (drop i gs))"

definition best_run :: "16 word list \<Rightarrow> nat \<times> nat" where
  "best_run gs = foldl (\<lambda>(s, l) i. let r = zero_run gs i in if r \<ge> 2 \<and> r > l then (i, r) else (s, l))
     (0, 0) [0..<length gs]"

definition v6_text :: "16 word list \<Rightarrow> string" where
  "v6_text gs =
     (let (s, l) = best_run gs; hex = map (\<lambda>g. utoa16 (unat g)) in
      if l = 0 then Join (hex gs) '':''
      else Join (hex (take s gs)) '':'' @ ''::'' @ Join (hex (drop (s + l) gs)) '':'')"

definition Addr_String :: "netip_addr \<Rightarrow> string" where
  "Addr_String ip =
     (case ip of
        AddrV4 a b c d \<Rightarrow> v4_text a b c d
      | AddrV6 gs zone \<Rightarrow>
          (if Is4In6 ip
           then (case Unmap ip of AddrV4 a b c d \<Rightarrow> ''::ffff:'' @ v4_text a b c d | _ \<Rightarrow> [])
           else v6_text gs) @ (if zone = [] then [] else CHR ''%'' # zone))"

section \<open>Laws\<close>

lemma utoa_no_leading_zero: "length (utoa n) = 1 \<or> hd (utoa n) \<noteq> CHR ''0''"
proof (induction n rule: utoa.induct)
  case (1 n)
  show ?case
  proof (cases "n < 10")
    case False
    have ne: "utoa (n div 10) \<noteq> []" using utoa_digits by blast
    have "hd (utoa (n div 10)) \<noteq> CHR ''0''"
    proof (cases "n div 10 < 10")
      case True
      have "(char_of (48 + n div 10) :: char) \<noteq> CHR ''0''"
      proof
        assume "(char_of (48 + n div 10) :: char) = CHR ''0''"
        then have "(of_char (char_of (48 + n div 10) :: char) :: nat) = of_char (CHR ''0'')" by simp
        then show False using True False by simp
      qed
      then show ?thesis using True by (simp add: utoa.simps [of "n div 10"])
    next
      case False2: False
      then have "length (utoa (n div 10)) \<noteq> 1"
        using utoa_digits [of "n div 10 div 10"] by (simp add: utoa.simps [of "n div 10"])
      then show ?thesis using 1 False by blast
    qed
    then show ?thesis using ne False by (simp add: utoa.simps [of n])
  qed (simp add: utoa.simps [of n])
qed

lemma parse_octet_text: "parse_octet (octet_text b) = Some b"
proof -
  have "unat b < 256" by (rule order_less_le_trans [OF unsigned_less]) simp
  then show ?thesis
    using utoa_digits [of "unat b"] utoa_no_leading_zero [of "unat b"]
    by (auto simp: parse_octet_def octet_text_def list_all_iff)
qed

lemma octet_text_no_dot: "CHR ''.'' \<notin> set (octet_text b)"
  using utoa_digits [of "unat b"] by (auto simp: octet_text_def is_digit_def)

lemma octet_text_digits: "c \<in> set (octet_text b) \<Longrightarrow> is_digit c"
  using utoa_digits [of "unat b"] by (auto simp: octet_text_def)

lemma parseIPv4_text: "parseIPv4 (v4_text a b c d) = Some (a, b, c, d)"
proof -
  have "Split (CHR ''.'') (v4_text a b c d) = [octet_text a, octet_text b, octet_text c, octet_text d]"
    unfolding v4_text_def by (rule Split_Join) (simp_all add: octet_text_no_dot)
  then show ?thesis by (simp add: parseIPv4_def parse_octet_text)
qed

lemma v4_text_chars: "x \<in> set (v4_text a b c d) \<Longrightarrow> is_digit x \<or> x = CHR ''.''"
  by (auto simp: v4_text_def dest: octet_text_digits)

lemma ParseAddr_v4_text: "ParseAddr (v4_text a b c d) = Inr (AddrV4 a b c d)"
proof -
  let ?P = "\<lambda>c. c = CHR ''.'' \<or> c = CHR '':'' \<or> c = CHR ''%''"
  obtain x where x: "List.find ?P (v4_text a b c d) = Some x"
    by (cases "List.find ?P (v4_text a b c d)") (auto simp: find_None_iff v4_text_def)
  have "x = CHR ''.''"
    using find_Some_in [OF x] v4_text_chars [of x a b c d] by (auto simp: is_digit_def)
  then show ?thesis using x by (simp add: ParseAddr_def parseIPv4_text)
qed

lemma Addr_String_v4: "Addr_String (AddrV4 a b c d) = v4_text a b c d"
  by (simp add: Addr_String_def)

lemma v4_text_inj: "v4_text a b c d = v4_text a' b' c' d' \<Longrightarrow> (a, b, c, d) = (a', b', c', d')"
  by (metis option.inject parseIPv4_text)

lemma last_index_append: "c \<notin> set r \<Longrightarrow> last_index (p @ c # r) c = Some (length p)"
proof (induction p)
  case Nil
  then have "last_index r c = None" by (induction r) auto
  then show ?case by simp
qed simp

lemma SplitHostPort_v4:
  assumes "\<forall>x\<in>set port. is_digit x"
  shows "SplitHostPort (v4_text a b c d @ '':'' @ port) = Inr (v4_text a b c d, port)"
proof -
  have port: "CHR '':'' \<notin> set port" "CHR ''['' \<notin> set port" "CHR '']'' \<notin> set port"
    using assms digit_not_punct by blast+
  have host: "CHR '':'' \<notin> set (v4_text a b c d)" "CHR ''['' \<notin> set (v4_text a b c d)"
      "CHR '']'' \<notin> set (v4_text a b c d)" "v4_text a b c d \<noteq> []"
    by (auto dest!: v4_text_chars dest: digit_not_punct) (simp add: v4_text_def)
  have "hd (v4_text a b c d @ CHR '':'' # port) \<noteq> CHR ''[''"
    using host(2,4) by (metis hd_append2 hd_in_set)
  moreover have "last_index (v4_text a b c d @ CHR '':'' # port) (CHR '':'') = Some (length (v4_text a b c d))"
    by (rule last_index_append) (rule port)
  ultimately show ?thesis
    using host port by (simp add: SplitHostPort_def)
qed

lemma ParseUint16_utoa: "ParseUint16 (utoa (unat p)) = Inr p"
proof -
  have "unat p < 65536" by (rule order_less_le_trans [OF unsigned_less]) simp
  then show ?thesis using utoa_digits [of "unat p"]
    by (auto simp: ParseUint16_def list_all_iff)
qed

end
