(* ===== verification/Attestation.thy ===== *)
theory Attestation
  imports Go_Net
begin

text \<open>
  \<open>internal/attestation\<close>: the pod UID of a process, from its cgroup path (\<open>proc.go\<close>), from the
  sockops map that the eBPF program \<open>ebpf/attest.c\<close> fills (\<open>bpf/bpf.go\<close>), and from the socket table
  (\<open>sockdiag/sockdiag.go\<close>). What the kernel answers is a parameter. The contract of a lookuper is
  the locale \<open>attestation_lookuper\<close>, interpreted on both.
\<close>

section \<open>proc.go: the pod UID in a cgroup path\<close>

definition is_hex :: "char \<Rightarrow> bool" where
  "is_hex c \<longleftrightarrow> hex_val c \<noteq> None"

definition is_sep :: "char \<Rightarrow> bool" where
  "is_sep c \<longleftrightarrow> c = CHR ''-'' \<or> c = CHR ''_''"

text \<open>The classes of the 36 characters of the captured group: 8, 4, 4, 4 and 12 hexadecimal digits
  with separators between them.\<close>

definition uid_classes :: "(char \<Rightarrow> bool) list" where
  "uid_classes = replicate 8 is_hex @ is_sep # replicate 4 is_hex @ is_sep # replicate 4 is_hex @
     is_sep # replicate 4 is_hex @ is_sep # replicate 12 is_hex"

definition uid_shape :: "string \<Rightarrow> bool" where
  "uid_shape u \<longleftrightarrow> length u = length uid_classes \<and> list_all2 (\<lambda>p c. p c) uid_classes u"

definition match_at :: "string \<Rightarrow> string option" where
  "match_at s =
     (let u = take (length uid_classes) (drop 3 s) in
      if HasPrefix s ''pod'' \<and> uid_shape u then Some u else None)"

text \<open>\<open>podUIDPattern.FindStringSubmatch(s)[1]\<close>: the group of the leftmost match.\<close>

fun podUIDPattern :: "string \<Rightarrow> string option" where
  "podUIDPattern [] = None"
| "podUIDPattern (c # cs) =
     (case match_at (c # cs) of Some u \<Rightarrow> Some u | None \<Rightarrow> podUIDPattern cs)"

definition canonical_uid :: "string \<Rightarrow> string" where
  "canonical_uid u = ReplaceAllByte u (CHR ''_'') (CHR ''-'')"

text \<open>The cgroup file of a process: an error of \<open>os.Open\<close>, or the scanned lines and the scanner's
  error.\<close>

type_synonym cgroup_file = "(string list \<times> goerr option) res"

fun scan_cgroup :: "int \<Rightarrow> string list \<Rightarrow> string res option" where
  "scan_cgroup pid [] = None"
| "scan_cgroup pid (line # rest) =
     (let fields = SplitN 3 (CHR '':'') line in
      if length fields \<noteq> 3 \<or> fields ! 0 \<noteq> ''0'' \<or> fields ! 1 \<noteq> [] then scan_cgroup pid rest
      else (case podUIDPattern (fields ! 2) of
              None \<Rightarrow> Some (Inl (ErrorString (''pid '' @ itoa pid @ '' cgroup path '' @ Quote (fields ! 2) @
                        '' is not under a kubepods pod cgroup'')))
            | Some m \<Rightarrow> Some (Inr (canonical_uid m))))"

definition PodUIDFromCgroup :: "(int \<Rightarrow> cgroup_file) \<Rightarrow> int \<Rightarrow> string res" where
  "PodUIDFromCgroup cgroup_of pid =
     (case cgroup_of pid of
        Inl err \<Rightarrow> Inl (errorf (''reading /proc/'' @ itoa pid @ ''/cgroup: '') err)
      | Inr (lines, scan_err) \<Rightarrow>
          (case scan_cgroup pid lines of
             Some r \<Rightarrow> r
           | None \<Rightarrow>
               (case scan_err of
                  Some err \<Rightarrow> Inl (errorf (''scanning /proc/'' @ itoa pid @ ''/cgroup: '') err)
                | None \<Rightarrow> Inl (ErrorString (''no cgroup v2 entry in /proc/'' @ itoa pid @ ''/cgroup'')))))"

text \<open>
  One call of the function that \<open>filepath.WalkDir\<close> is given: the path, the error of the visit, and
  for a directory the inode of its \<open>Stat_t\<close> (\<open>None\<close> when \<open>Info\<close> fails or has another type).
\<close>

record walk_entry =
  we_path :: string
  we_err :: "goerr option"
  we_isdir :: bool
  we_ino :: "64 word option"

definition fsErrNotExist :: goerr where "fsErrNotExist = Sentinel ''file does not exist''"
definition fsErrPermission :: goerr where "fsErrPermission = Sentinel ''permission denied''"

datatype walk_step = WalkOn | WalkFound string | WalkError goerr

definition walk_fn :: "64 word \<Rightarrow> walk_entry \<Rightarrow> walk_step" where
  "walk_fn cgid e =
     (case we_err e of
        Some err \<Rightarrow> if errors_Is err fsErrNotExist \<or> errors_Is err fsErrPermission then WalkOn else WalkError err
      | None \<Rightarrow>
          if \<not> we_isdir e then WalkOn
          else (case we_ino e of
              None \<Rightarrow> WalkOn
            | Some ino \<Rightarrow>
                if ino \<noteq> cgid then WalkOn
                else (case podUIDPattern (we_path e) of
                    None \<Rightarrow> WalkError (ErrorString (''cgroup id '' @ utoa (unat cgid) @ '' resolved to path '' @
                        Quote (we_path e) @ '', which is not under a kubepods pod cgroup''))
                  | Some m \<Rightarrow> WalkFound (canonical_uid m))))"

fun walk_dir :: "64 word \<Rightarrow> walk_entry list \<Rightarrow> string res" where
  "walk_dir cgid [] = Inr []"
| "walk_dir cgid (e # es) =
     (case walk_fn cgid e of
        WalkOn \<Rightarrow> walk_dir cgid es
      | WalkFound uid \<Rightarrow> Inr uid
      | WalkError err \<Rightarrow> Inl err)"

definition PodUIDFromCgroupID :: "walk_entry list \<Rightarrow> 64 word \<Rightarrow> string res" where
  "PodUIDFromCgroupID tree cgid =
     (case walk_dir cgid tree of
        Inl err \<Rightarrow> Inl err
      | Inr found \<Rightarrow>
          if found = [] then Inl (ErrorString (''cgroup id '' @ utoa (unat cgid) @ '' not found under /sys/fs/cgroup''))
          else Inr found)"

section \<open>attest.c and bpf.go: the sockops map\<close>

record attest_key =
  k_src_ip :: "32 word"
  k_dst_ip :: "32 word"
  k_src_port :: "16 word"
  k_dst_port :: "16 word"

text \<open>Four bytes in memory read as a native-endian word: the platforms of the program are
  little-endian.\<close>

definition native_u32 :: "8 word list \<Rightarrow> 32 word" where
  "native_u32 bs = (case bs of
      [a, b, c, d] \<Rightarrow> ucast a OR push_bit 8 (ucast b) OR push_bit 16 (ucast c) OR push_bit 24 (ucast d)
    | _ \<Rightarrow> 0)"

definition htons :: "16 word \<Rightarrow> 16 word" where
  "htons v = push_bit 8 v OR drop_bit 8 v"

text \<open>
  The context of the sockops program. \<open>local_ip4\<close> and \<open>remote_ip4\<close> hold network byte order in
  memory, \<open>local_port\<close> host byte order, and \<open>remote_port\<close> the network byte order port in its high
  16 bits.
\<close>

record bpf_sock_ops =
  skops_op :: nat
  skops_family :: nat
  local_ip4 :: "32 word"
  remote_ip4 :: "32 word"
  local_port :: "32 word"
  remote_port :: "32 word"

type_synonym attest_map = "attest_key \<Rightarrow> (64 word) option"

record attest_state =
  map_attest :: attest_map
  map_attest_debug :: "nat \<Rightarrow> nat"

definition inc_debug :: "nat \<Rightarrow> attest_state \<Rightarrow> attest_state" where
  "inc_debug idx st = st\<lparr>map_attest_debug := (map_attest_debug st)(idx := Suc (map_attest_debug st idx))\<rparr>"

definition TCP_CONNECT_CB :: nat where "TCP_CONNECT_CB = 3"
definition AF_INET :: nat where "AF_INET = 2"

definition attest_connect :: "64 word \<Rightarrow> bpf_sock_ops \<Rightarrow> attest_state \<Rightarrow> attest_state" where
  "attest_connect current_cgroup_id skops st =
     (let st = inc_debug 0 st in
      if skops_op skops \<noteq> TCP_CONNECT_CB then st
      else (let st = inc_debug 1 st in
        if skops_family skops \<noteq> AF_INET then st
        else (let st = inc_debug 2 st;
                  key = \<lparr>k_src_ip = local_ip4 skops, k_dst_ip = remote_ip4 skops,
                         k_src_port = htons (ucast (local_port skops)),
                         k_dst_port = ucast (drop_bit 16 (remote_port skops))\<rparr>;
                  st = st\<lparr>map_attest := (map_attest st)(key \<mapsto> current_cgroup_id)\<rparr>
              in inc_debug 3 st)))"

definition bpf_ErrNotFound :: goerr where
  "bpf_ErrNotFound = Sentinel ''attestation: 4-tuple not in map''"

text \<open>The key userspace builds from the addresses of the accepted connection.\<close>

definition attest_lookup_key ::
    "netip_addr \<Rightarrow> netip_addr \<Rightarrow> 16 word \<Rightarrow> 16 word \<Rightarrow> attest_key go" where
  "attest_lookup_key srcIP dstIP srcPort dstPort =
     gobind (As4 srcIP) (\<lambda>srcIPv4. gobind (As4 dstIP) (\<lambda>dstIPv4.
       Ret \<lparr>k_src_ip = native_u32 srcIPv4, k_dst_ip = native_u32 dstIPv4,
            k_src_port = htons srcPort, k_dst_port = htons dstPort\<rparr>))"

text \<open>The map's \<open>Lookup\<close> of the eBPF library: the value, \<open>None\<close> for a missing key, or another error.\<close>

type_synonym bpf_map = "attest_key \<Rightarrow> (64 word) option res"

definition bpf_Lookup :: "bpf_map \<Rightarrow> walk_entry list \<Rightarrow>
    netip_addr \<Rightarrow> netip_addr \<Rightarrow> 16 word \<Rightarrow> 16 word \<Rightarrow> string res go" where
  "bpf_Lookup m tree srcIP dstIP srcPort dstPort =
     gobind (attest_lookup_key srcIP dstIP srcPort dstPort) (\<lambda>key.
       Ret (case m key of
              Inl err \<Rightarrow> Inl (errorf ''looking up attestation map: '' err)
            | Inr None \<Rightarrow> Inl bpf_ErrNotFound
            | Inr (Some cgroup_id) \<Rightarrow>
                map_err (errorf (''resolving pod from cgroup id '' @ utoa (unat cgroup_id) @ '': ''))
                  (PodUIDFromCgroupID tree cgroup_id)))"

definition bpf_Verify :: "bpf_map \<Rightarrow>
    netip_addr \<Rightarrow> netip_addr \<Rightarrow> 16 word \<Rightarrow> 16 word \<Rightarrow> goerr option go" where
  "bpf_Verify m srcIP dstIP srcPort dstPort =
     gobind (attest_lookup_key srcIP dstIP srcPort dstPort) (\<lambda>key.
       Ret (case m key of
              Inl err \<Rightarrow> Some (errorf ''verifying attestation map: '' err)
            | Inr None \<Rightarrow> Some bpf_ErrNotFound
            | Inr (Some _) \<Rightarrow> None))"

section \<open>sockdiag.go\<close>

definition sockdiag_ErrNotFound :: goerr where
  "sockdiag_ErrNotFound = Sentinel ''sockdiag: 4-tuple not in host socket table''"

text \<open>
  What the walk of \<open>/proc\<close> sees: the batches of \<open>Readdirnames\<close>, and for a process directory the error
  of reading its \<open>fd\<close> directory or the results of \<open>Readlink\<close> on its entries.
\<close>

record proc_view =
  pv_open :: "unit res"
  pv_batches :: "(string list \<times> goerr option) list"
  pv_fds :: "string \<Rightarrow> string res list res"
  pv_cgroup :: "int \<Rightarrow> cgroup_file"

definition osErrClosed :: goerr where "osErrClosed = Sentinel ''file already closed''"

definition socket_link :: "64 word \<Rightarrow> string" where
  "socket_link inode = ''socket:['' @ utoa (unat inode) @ '']''"

definition fd_has :: "proc_view \<Rightarrow> string \<Rightarrow> string \<Rightarrow> bool" where
  "fd_has pv target name =
     (case pv_fds pv name of
        Inl _ \<Rightarrow> False
      | Inr links \<Rightarrow> list_ex (\<lambda>l. l = Inr target) links)"

fun pid_in_names :: "proc_view \<Rightarrow> string \<Rightarrow> string list \<Rightarrow> int option" where
  "pid_in_names pv target [] = None"
| "pid_in_names pv target (name # names) =
     (case Atoi name of
        Inl _ \<Rightarrow> pid_in_names pv target names
      | Inr pid \<Rightarrow> if fd_has pv target name then Some pid else pid_in_names pv target names)"

fun pid_in_batches :: "proc_view \<Rightarrow> string \<Rightarrow> (string list \<times> goerr option) list \<Rightarrow> int option" where
  "pid_in_batches pv target [] = None"
| "pid_in_batches pv target ((names, err) # bs) =
     (if (case err of Some e \<Rightarrow> errors_Is e osErrClosed | None \<Rightarrow> False) \<or> names = [] \<and> err \<noteq> None
      then None
      else case pid_in_names pv target names of
        Some pid \<Rightarrow> Some pid
      | None \<Rightarrow> if err \<noteq> None then None else pid_in_batches pv target bs)"

definition pidForSocketInode :: "proc_view \<Rightarrow> 64 word \<Rightarrow> int res" where
  "pidForSocketInode pv inode =
     (case pv_open pv of
        Inl err \<Rightarrow> Inl (errorf ''opening /proc: '' err)
      | Inr _ \<Rightarrow>
          (case pid_in_batches pv (socket_link inode) (pv_batches pv) of
             Some pid \<Rightarrow> Inr pid
           | None \<Rightarrow> Inl (Wrap [] sockdiag_ErrNotFound ('': no /proc/*/fd link to inode '' @ utoa (unat inode)))))"

text \<open>\<open>SocketGet\<close> is the netlink query for the socket of a connection; its result is the inode.\<close>

type_synonym socket_get = "netip_addr \<times> 16 word \<Rightarrow> netip_addr \<times> 16 word \<Rightarrow> (32 word) res"

definition tcp_addr_text :: "netip_addr \<times> 16 word \<Rightarrow> string" where
  "tcp_addr_text a =
     (case Unmap (fst a) of
        AddrV4 b1 b2 b3 b4 \<Rightarrow> v4_text b1 b2 b3 b4
      | AddrV6 gs _ \<Rightarrow> ''['' @ v6_text gs @ '']'') @ '':'' @ utoa (unat (snd a))"

definition sockdiag_Lookup :: "socket_get \<Rightarrow> proc_view \<Rightarrow>
    netip_addr \<Rightarrow> netip_addr \<Rightarrow> 16 word \<Rightarrow> 16 word \<Rightarrow> string res" where
  "sockdiag_Lookup SocketGet pv srcIP dstIP srcPort dstPort =
     (let loc = (srcIP, srcPort); rem = (dstIP, dstPort) in
      case SocketGet loc rem of
        Inl err \<Rightarrow> Inl (errorf (''netlink SocketGet for '' @ tcp_addr_text loc @ '' -> '' @ tcp_addr_text rem @ '': '') err)
      | Inr inode \<Rightarrow>
          if inode = 0 then Inl sockdiag_ErrNotFound
          else ebind (pidForSocketInode pv (ucast inode)) (\<lambda>pid.
            map_err (errorf (''resolving pod uid for pid '' @ itoa pid @ '': '')) (PodUIDFromCgroup (pv_cgroup pv) pid)))"

definition sockdiag_Verify :: "netip_addr \<Rightarrow> netip_addr \<Rightarrow> 16 word \<Rightarrow> 16 word \<Rightarrow> goerr option" where
  "sockdiag_Verify srcIP dstIP srcPort dstPort = None"

section \<open>The pattern\<close>

lemma length_uid_classes [simp]: "length uid_classes = 36"
  by (simp add: uid_classes_def)

lemma uid_shape_length: "uid_shape u \<Longrightarrow> length u = 36"
  by (simp add: uid_shape_def)

lemma match_at_Some_iff:
  "match_at s = Some u \<longleftrightarrow> uid_shape u \<and> HasPrefix s (''pod'' @ u)"
proof
  assume "match_at s = Some u"
  then have p: "HasPrefix s ''pod''" and u: "uid_shape u" "u = take 36 (drop 3 s)"
    by (auto simp: match_at_def Let_def split: if_splits)
  from p obtain r where s: "s = ''pod'' @ r" by (auto simp: HasPrefix_iff)
  with u have "r = u @ drop 36 r" by simp
  then show "uid_shape u \<and> HasPrefix s (''pod'' @ u)"
    using u(1) s by (auto simp: HasPrefix_iff)
next
  assume "uid_shape u \<and> HasPrefix s (''pod'' @ u)"
  then obtain r where "s = ''pod'' @ u @ r" "uid_shape u" by (auto simp: HasPrefix_iff)
  then show "match_at s = Some u"
    by (simp add: match_at_def uid_shape_length HasPrefix_def)
qed

lemma match_at_append: "match_at s = Some u \<Longrightarrow> match_at (s @ t) = Some u"
  by (auto simp: match_at_Some_iff intro: HasPrefix_mono)

text \<open>The leftmost match is not changed by what follows it.\<close>

lemma match_at_long:
  assumes "match_at (s @ t) = Some u" "39 \<le> length s"
  shows "match_at s = Some u"
proof -
  obtain r where r: "uid_shape u" "s @ t = (''pod'' @ u) @ r"
    using assms(1) by (auto simp: match_at_Some_iff HasPrefix_iff)
  then have "length (''pod'' @ u) \<le> length s"
    using assms(2) by (simp add: uid_shape_length)
  then have "take (length (''pod'' @ u)) s = ''pod'' @ u"
    using r(2) by (metis append_eq_conv_conj take_append diff_is_0_eq append_Nil2 take_0)
  then show ?thesis using r(1) by (simp add: match_at_Some_iff HasPrefix_def)
qed

lemma podUIDPattern_length: "podUIDPattern s = Some u \<Longrightarrow> 39 \<le> length s"
proof (induction s)
  case (Cons c cs)
  show ?case
  proof (cases "match_at (c # cs)")
    case (Some v)
    then show ?thesis
      using uid_shape_length [of v] by (auto simp: match_at_Some_iff HasPrefix_iff)
  qed (use Cons in auto)
qed simp

lemma podUIDPattern_append:
  "podUIDPattern s = Some u \<Longrightarrow> podUIDPattern (s @ t) = Some u"
proof (induction s)
  case (Cons c cs)
  show ?case
  proof (cases "match_at (c # cs)")
    case None
    then have u: "podUIDPattern cs = Some u" using Cons.prems by simp
    have "match_at (c # cs @ t) = None"
      using match_at_long [of "c # cs" t] None podUIDPattern_length [OF u]
      by (cases "match_at (c # cs @ t)") auto
    then show ?thesis using Cons.IH [OF u] by simp
  next
    case (Some v)
    then show ?thesis using Cons.prems match_at_append [OF Some, of t] by simp
  qed
qed simp

lemma podUIDPattern_shape: "podUIDPattern s = Some u \<Longrightarrow> uid_shape u"
  by (induction s) (auto split: option.splits simp: match_at_Some_iff)

lemma canonical_uid_no_underscore: "CHR ''_'' \<notin> set (canonical_uid u)"
  unfolding canonical_uid_def by (rule ReplaceAllByte_notin) simp

text \<open>A path of the kubelet: everything before the segment of the pod has no match, then \<open>pod\<close> and
  the UID.\<close>

lemma podUIDPattern_first:
  assumes "uid_shape u" "\<forall>i<length p. match_at (drop i (p @ ''pod'' @ u @ r)) = None"
  shows "podUIDPattern (p @ ''pod'' @ u @ r) = Some u"
  using assms(2)
proof (induction p)
  case Nil
  have "match_at (''pod'' @ u @ r) = Some u"
    using assms(1) by (simp add: match_at_Some_iff HasPrefix_iff)
  then show ?case by simp
next
  case (Cons c p)
  have "match_at (c # p @ ''pod'' @ u @ r) = None"
    using Cons.prems by (metis append_Cons drop0 length_greater_0_conv list.distinct(1))
  moreover have "\<forall>i<length p. match_at (drop i (p @ ''pod'' @ u @ r)) = None"
    using Cons.prems by (metis Suc_less_eq append_Cons drop_Suc_Cons length_Cons)
  ultimately show ?case using Cons.IH by simp
qed

section \<open>Keys\<close>

lemma htons_htons [simp]: "htons (htons v) = v"
  unfolding htons_def
  by (rule bit_word_eqI) (auto simp: bit_or_iff bit_push_bit_iff bit_drop_bit_eq)

lemma htons_inj: "htons a = htons b \<longleftrightarrow> a = b"
  by (metis htons_htons)

lemma native_u32_bytes:
  fixes a b c d :: "8 word"
  defines "w \<equiv> native_u32 [a, b, c, d]"
  shows "ucast w = a" "ucast (drop_bit 8 w) = b" "ucast (drop_bit 16 w) = c" "ucast (drop_bit 24 w) = d"
  unfolding w_def native_u32_def
  by (rule bit_word_eqI; auto simp: bit_or_iff bit_push_bit_iff bit_drop_bit_eq bit_unsigned_iff
      dest: bit_imp_le_length)+

lemma native_u32_inj: "native_u32 [a, b, c, d] = native_u32 [a', b', c', d'] \<Longrightarrow> [a, b, c, d] = [a', b', c', d']"
  using native_u32_bytes [of a b c d] native_u32_bytes [of a' b' c' d'] by simp

text \<open>
  An IPv4 connection as the kernel sees it, and the context it presents to the sockops program when
  the connection is opened.
\<close>

record conn4 =
  c_src :: "8 word \<times> 8 word \<times> 8 word \<times> 8 word"
  c_dst :: "8 word \<times> 8 word \<times> 8 word \<times> 8 word"
  c_sport :: "16 word"
  c_dport :: "16 word"

definition quad_bytes :: "8 word \<times> 8 word \<times> 8 word \<times> 8 word \<Rightarrow> 8 word list" where
  "quad_bytes q = (case q of (a, b, c, d) \<Rightarrow> [a, b, c, d])"

definition quad_addr :: "8 word \<times> 8 word \<times> 8 word \<times> 8 word \<Rightarrow> netip_addr" where
  "quad_addr q = (case q of (a, b, c, d) \<Rightarrow> AddrV4 a b c d)"

definition skops_of :: "conn4 \<Rightarrow> bpf_sock_ops" where
  "skops_of t = \<lparr>skops_op = TCP_CONNECT_CB, skops_family = AF_INET,
     local_ip4 = native_u32 (quad_bytes (c_src t)), remote_ip4 = native_u32 (quad_bytes (c_dst t)),
     local_port = ucast (c_sport t), remote_port = push_bit 16 (ucast (htons (c_dport t)))\<rparr>"

definition conn_key :: "conn4 \<Rightarrow> attest_key" where
  "conn_key t = \<lparr>k_src_ip = native_u32 (quad_bytes (c_src t)), k_dst_ip = native_u32 (quad_bytes (c_dst t)),
     k_src_port = htons (c_sport t), k_dst_port = htons (c_dport t)\<rparr>"

lemma As4_quad: "As4 (quad_addr q) = Ret (quad_bytes q)"
  by (cases q) (simp add: As4_def quad_addr_def quad_bytes_def)

lemma user_key: "attest_lookup_key (quad_addr (c_src t)) (quad_addr (c_dst t)) (c_sport t) (c_dport t) = Ret (conn_key t)"
  by (simp add: attest_lookup_key_def As4_quad conn_key_def)

lemma ucast_ucast_port: "ucast (ucast (p :: 16 word) :: 32 word) = p"
  by (rule bit_word_eqI) (auto simp: bit_unsigned_iff)

lemma high_port: "ucast (drop_bit 16 (push_bit 16 (ucast (p :: 16 word)) :: 32 word)) = p"
  by (rule bit_word_eqI) (auto simp: bit_unsigned_iff bit_drop_bit_eq bit_push_bit_iff)

lemma kernel_key:
  "map_attest (attest_connect g (skops_of t) st) = (map_attest st)(conn_key t \<mapsto> g)"
  by (simp add: attest_connect_def skops_of_def conn_key_def inc_debug_def Let_def
      ucast_ucast_port high_port)

lemma conn_key_inj: "conn_key t = conn_key t' \<longleftrightarrow> t = t'"
proof
  assume "conn_key t = conn_key t'"
  then have "native_u32 (quad_bytes (c_src t)) = native_u32 (quad_bytes (c_src t'))"
      "native_u32 (quad_bytes (c_dst t)) = native_u32 (quad_bytes (c_dst t'))"
      "c_sport t = c_sport t'" "c_dport t = c_dport t'"
    by (simp_all add: conn_key_def htons_inj)
  moreover have "q = q'" if "native_u32 (quad_bytes q) = native_u32 (quad_bytes q')" for q q'
    using that by (cases q; cases q') (auto simp: quad_bytes_def dest: native_u32_inj)
  ultimately show "t = t'" by simp
qed simp

text \<open>The history of the sockops hook: connections opened by a task of some cgroup, and other
  calls of the hook.\<close>

datatype sock_event = Connect conn4 "64 word" | OtherOp bpf_sock_ops "64 word"

definition other_op :: "bpf_sock_ops \<Rightarrow> bool" where
  "other_op s \<longleftrightarrow> skops_op s \<noteq> TCP_CONNECT_CB \<or> skops_family s \<noteq> AF_INET"

fun sock_step :: "sock_event \<Rightarrow> attest_state \<Rightarrow> attest_state" where
  "sock_step (Connect t g) st = attest_connect g (skops_of t) st"
| "sock_step (OtherOp s g) st = attest_connect g s st"

fun last_owner :: "sock_event list \<Rightarrow> conn4 \<Rightarrow> (64 word) option" where
  "last_owner [] t = None"
| "last_owner (Connect t' g # es) t =
     (case last_owner es t of Some g' \<Rightarrow> Some g' | None \<Rightarrow> if t' = t then Some g else None)"
| "last_owner (OtherOp _ _ # es) t = last_owner es t"

lemma other_op_map: "other_op s \<Longrightarrow> map_attest (attest_connect g s st) = map_attest st"
  by (auto simp: attest_connect_def other_op_def inc_debug_def Let_def)

lemma sock_run_map:
  assumes "\<forall>s g. OtherOp s g \<in> set es \<longrightarrow> other_op s"
  shows "map_attest (fold sock_step es st) (conn_key t) =
    (case last_owner es t of Some g \<Rightarrow> Some g | None \<Rightarrow> map_attest st (conn_key t))"
  using assms
proof (induction es arbitrary: st)
  case (Cons e es)
  have IH: "map_attest (fold sock_step es st') (conn_key t) =
      (case last_owner es t of Some g \<Rightarrow> Some g | None \<Rightarrow> map_attest st' (conn_key t))" for st'
    by (rule Cons.IH) (use Cons.prems in auto)
  show ?case
  proof (cases e)
    case (Connect t' g)
    then show ?thesis by (simp add: IH kernel_key conn_key_inj split: option.split)
  next
    case (OtherOp s g)
    then have "other_op s" using Cons.prems by simp
    then show ?thesis using OtherOp by (simp add: IH other_op_map split: option.split)
  qed
qed simp

section \<open>The lookuper contract\<close>

text \<open>
  A lookuper in a state \<open>c\<close> of the kernel that satisfies \<open>ok\<close> answers a lookup of a connection with
  the pod UID in the cgroup path of the process that opened it.
\<close>

locale attestation_lookuper =
  fixes ok :: "'c \<Rightarrow> bool"
    and path_of :: "'c \<Rightarrow> conn4 \<Rightarrow> string option"
    and Lookup :: "'c \<Rightarrow> netip_addr \<Rightarrow> netip_addr \<Rightarrow> 16 word \<Rightarrow> 16 word \<Rightarrow> string res go"
  assumes Lookup_owner:
    "ok c \<Longrightarrow> Lookup c (quad_addr (c_src t)) (quad_addr (c_dst t)) (c_sport t) (c_dport t) = Ret (Inr uid) \<Longrightarrow>
       \<exists>path u. path_of c t = Some path \<and> podUIDPattern path = Some u \<and> uid = canonical_uid u"
    and Lookup_no_panic:
    "ok c \<Longrightarrow> \<exists>r. Lookup c (quad_addr (c_src (t :: conn4))) (quad_addr (c_dst t)) (c_sport t) (c_dport t) = Ret r"
begin

lemma Lookup_shape:
  fixes t :: conn4
  assumes "ok c" "Lookup c (quad_addr (c_src t)) (quad_addr (c_dst t)) (c_sport t) (c_dport t) = Ret (Inr uid)"
  shows "length uid = 36 \<and> CHR ''_'' \<notin> set uid"
proof -
  obtain path u where u: "podUIDPattern path = Some u" "uid = canonical_uid u"
    using Lookup_owner [OF assms] by blast
  then have "length u = 36" using podUIDPattern_shape uid_shape_length by blast
  then show ?thesis using u canonical_uid_no_underscore by (simp add: canonical_uid_def)
qed

text \<open>Cgroups a process creates below its own do not change whose pod it is.\<close>

lemma Lookup_nested:
  fixes t :: conn4
  assumes "ok c" "path_of c t = Some (base @ nested)" "podUIDPattern base = Some u"
    and "Lookup c (quad_addr (c_src t)) (quad_addr (c_dst t)) (c_sport t) (c_dport t) = Ret (Inr uid)"
  shows "uid = canonical_uid u"
proof -
  obtain path v where "path_of c t = Some path" "podUIDPattern path = Some v" "uid = canonical_uid v"
    using Lookup_owner [OF assms(1,4)] by blast
  then show ?thesis using assms(2) podUIDPattern_append [OF assms(3), of nested] by simp
qed

end

text \<open>The eBPF lookuper: the history of the hook, the map after the kernel may have evicted entries,
  and the cgroup tree, in which an inode belongs to one path.\<close>

record bpf_world =
  bw_events :: "sock_event list"
  bw_map :: bpf_map
  bw_tree :: "walk_entry list"

definition live_dir :: "64 word \<Rightarrow> walk_entry \<Rightarrow> bool" where
  "live_dir g e \<longleftrightarrow> we_err e = None \<and> we_isdir e \<and> we_ino e = Some g"

definition cgroup_path :: "walk_entry list \<Rightarrow> 64 word \<Rightarrow> string option" where
  "cgroup_path tree g = map_option we_path (List.find (live_dir g) tree)"

definition attest_init :: attest_state where
  "attest_init = \<lparr>map_attest = Map.empty, map_attest_debug = (\<lambda>_. 0)\<rparr>"

definition bpf_ok :: "bpf_world \<Rightarrow> bool" where
  "bpf_ok c \<longleftrightarrow>
     (\<forall>s g. OtherOp s g \<in> set (bw_events c) \<longrightarrow> other_op s) \<and>
     (\<forall>k g. bw_map c k = Inr (Some g) \<longrightarrow> map_attest (fold sock_step (bw_events c) attest_init) k = Some g)"

definition bpf_path_of :: "bpf_world \<Rightarrow> conn4 \<Rightarrow> string option" where
  "bpf_path_of c t = Option.bind (last_owner (bw_events c) t) (cgroup_path (bw_tree c))"

lemma walk_dir_Some:
  "walk_dir g es = Inr uid \<Longrightarrow> uid \<noteq> [] \<Longrightarrow>
     \<exists>path u. cgroup_path es g = Some path \<and> podUIDPattern path = Some u \<and> uid = canonical_uid u"
proof (induction es)
  case (Cons e es)
  show ?case
  proof (cases "live_dir g e")
    case True
    then show ?thesis using Cons.prems
      by (auto simp: live_dir_def walk_fn_def cgroup_path_def split: option.splits)
  next
    case False
    then have "walk_fn g e = WalkOn"
      using Cons.prems by (auto simp: live_dir_def walk_fn_def split: option.splits if_splits)
    then show ?thesis using Cons False by (simp add: cgroup_path_def)
  qed
qed simp

lemma bpf_Lookup_conn:
  "bpf_Lookup m tree (quad_addr (c_src t)) (quad_addr (c_dst t)) (c_sport t) (c_dport t) =
     Ret (case m (conn_key t) of
            Inl err \<Rightarrow> Inl (errorf ''looking up attestation map: '' err)
          | Inr None \<Rightarrow> Inl bpf_ErrNotFound
          | Inr (Some g) \<Rightarrow> map_err (errorf (''resolving pod from cgroup id '' @ utoa (unat g) @ '': ''))
              (PodUIDFromCgroupID tree g))"
  by (simp add: bpf_Lookup_def user_key)

interpretation bpf: attestation_lookuper bpf_ok bpf_path_of "\<lambda>c. bpf_Lookup (bw_map c) (bw_tree c)"
proof (unfold_locales, goal_cases)
  case (1 c t uid)
  then obtain g where g: "bw_map c (conn_key t) = Inr (Some g)" "PodUIDFromCgroupID (bw_tree c) g = Inr uid"
    by (auto simp: bpf_Lookup_conn split: sum.splits option.splits)
  have "map_attest (fold sock_step (bw_events c) attest_init) (conn_key t) = Some g"
    using 1(1) g(1) by (auto simp: bpf_ok_def)
  then have "last_owner (bw_events c) t = Some g"
    using sock_run_map [of "bw_events c" attest_init t] 1(1)
    by (auto simp: bpf_ok_def attest_init_def split: option.splits)
  moreover have "walk_dir g (bw_tree c) = Inr uid" "uid \<noteq> []"
    using g(2) by (auto simp: PodUIDFromCgroupID_def split: sum.splits if_splits)
  ultimately show ?case using walk_dir_Some [of g "bw_tree c" uid] by (auto simp: bpf_path_of_def)
next
  case (2 c t)
  then show ?case by (simp add: bpf_Lookup_conn)
qed

text \<open>The socket-table lookuper: the netlink answer and the view of \<open>/proc\<close>. Every process that holds
  the socket of a connection is in the cgroup of the process that opened it.\<close>

record diag_world =
  dw_get :: socket_get
  dw_proc :: proc_view
  dw_path :: "conn4 \<Rightarrow> string option"

fun v2_path :: "string list \<Rightarrow> string option" where
  "v2_path [] = None"
| "v2_path (line # rest) =
     (let fields = SplitN 3 (CHR '':'') line in
      if length fields = 3 \<and> fields ! 0 = ''0'' \<and> fields ! 1 = [] then Some (fields ! 2) else v2_path rest)"

definition proc_path :: "proc_view \<Rightarrow> int \<Rightarrow> string option" where
  "proc_path pv pid = (case pv_cgroup pv pid of Inl _ \<Rightarrow> None | Inr (lines, _) \<Rightarrow> v2_path lines)"

definition diag_ok :: "diag_world \<Rightarrow> bool" where
  "diag_ok c \<longleftrightarrow>
     (\<forall>t inode name pid. dw_get c (quad_addr (c_src t), c_sport t) (quad_addr (c_dst t), c_dport t) = Inr inode \<longrightarrow>
        inode \<noteq> 0 \<longrightarrow> Atoi name = Inr pid \<longrightarrow> fd_has (dw_proc c) (socket_link (ucast inode)) name \<longrightarrow>
        proc_path (dw_proc c) pid = dw_path c t)"

lemma pid_in_names_Some:
  "pid_in_names pv target names = Some pid \<Longrightarrow> \<exists>name. Atoi name = Inr pid \<and> fd_has pv target name"
  by (induction names) (auto split: sum.splits if_splits)

lemma pid_in_batches_Some:
  "pid_in_batches pv target bs = Some pid \<Longrightarrow> \<exists>name. Atoi name = Inr pid \<and> fd_has pv target name"
proof (induction pv target bs rule: pid_in_batches.induct)
  case (2 pv target names err bs)
  then show ?case by (auto split: if_splits option.splits dest: pid_in_names_Some)
qed simp

lemma scan_cgroup_Inr:
  "scan_cgroup pid lines = Some (Inr uid) \<Longrightarrow>
     \<exists>path u. v2_path lines = Some path \<and> podUIDPattern path = Some u \<and> uid = canonical_uid u"
  by (induction lines) (auto simp: Let_def split: if_splits option.splits)

lemma PodUIDFromCgroup_Inr:
  assumes "PodUIDFromCgroup (pv_cgroup pv) pid = Inr uid"
  shows "\<exists>path u. proc_path pv pid = Some path \<and> podUIDPattern path = Some u \<and> uid = canonical_uid u"
  using assms scan_cgroup_Inr
  by (fastforce simp: PodUIDFromCgroup_def proc_path_def split: sum.splits option.splits)

interpretation diag: attestation_lookuper diag_ok dw_path
    "\<lambda>c s d sp dp. Ret (sockdiag_Lookup (dw_get c) (dw_proc c) s d sp dp)"
proof (unfold_locales, goal_cases)
  case (1 c t uid)
  then obtain inode pid where p: "dw_get c (quad_addr (c_src t), c_sport t) (quad_addr (c_dst t), c_dport t) = Inr inode"
      "inode \<noteq> 0" "pidForSocketInode (dw_proc c) (ucast inode) = Inr pid"
      "PodUIDFromCgroup (pv_cgroup (dw_proc c)) pid = Inr uid"
    by (auto simp: sockdiag_Lookup_def Let_def ebind_Inr_iff split: sum.splits if_splits)
  then obtain name where "Atoi name = Inr pid" "fd_has (dw_proc c) (socket_link (ucast inode)) name"
    using pid_in_batches_Some by (fastforce simp: pidForSocketInode_def split: sum.splits option.splits)
  then have "proc_path (dw_proc c) pid = dw_path c t"
    using 1(1) p unfolding diag_ok_def by blast
  then show ?case using PodUIDFromCgroup_Inr [OF p(4)] by auto
next
  case 2
  then show ?case by simp
qed

lemma panics_As4: "As4 ip = Panic e \<Longrightarrow> \<not> Is4 (Unmap ip)" "As4 ip = Ret bs \<Longrightarrow> Is4 (Unmap ip)"
  by (auto simp: As4_def Is4_def split: netip_addr.splits)

section \<open>Properties\<close>


definition example_uid :: string where
  "example_uid = ''12345678_1234_1234_1234_123456789abc''"

definition example_tree :: "walk_entry list" where
  "example_tree =
     [\<lparr>we_path = ''/sys/fs/cgroup'', we_err = None, we_isdir = True, we_ino = Some 1\<rparr>,
      \<lparr>we_path = ''/sys/fs/cgroup/locked'', we_err = Some fsErrPermission, we_isdir = True, we_ino = None\<rparr>,
      \<lparr>we_path = ''/sys/fs/cgroup/kubepods-pod'' @ example_uid @ ''.slice'', we_err = None,
       we_isdir = True, we_ino = Some 7\<rparr>]"

definition example_conn :: conn4 where
  "example_conn = \<lparr>c_src = (10, 0, 0, 5), c_dst = (10, 0, 0, 1), c_sport = 40000, c_dport = 16321\<rparr>"

definition example_history :: "sock_event list" where
  "example_history = [Connect example_conn 9, Connect (example_conn\<lparr>c_sport := 40001\<rparr>) 8,
     Connect example_conn 7, Connect (example_conn\<lparr>c_src := (10, 0, 0, 6)\<rparr>) 9]"

lemma example_uid_shape: "uid_shape example_uid"
  by (simp add: uid_shape_def uid_classes_def example_uid_def is_hex_def is_sep_def hex_val_def
      eval_nat_numeral)

lemma example_pod_path:
  "podUIDPattern (''/sys/fs/cgroup/kubepods-pod'' @ example_uid @ ''.slice'') = Some example_uid"
proof -
  have "podUIDPattern (''/sys/fs/cgroup/kubepods-'' @ ''pod'' @ example_uid @ ''.slice'') = Some example_uid"
  proof (rule podUIDPattern_first [OF example_uid_shape], intro allI impI)
    fix i assume "i < length ''/sys/fs/cgroup/kubepods-''"
    then have "i < 24" by simp
    then have "i \<in> set [0..<24]" by simp
    then show "match_at (drop i (''/sys/fs/cgroup/kubepods-'' @ ''pod'' @ example_uid @ ''.slice'')) = None"
      by (auto simp: upt_rec numeral_eq_Suc match_at_def HasPrefix_def uid_shape_def uid_classes_def
          example_uid_def is_hex_def hex_val_def)
  qed
  then show ?thesis by simp
qed

lemma example_walk: "PodUIDFromCgroupID example_tree 7 = Inr (canonical_uid example_uid)"
proof -
  have ne: "canonical_uid example_uid \<noteq> []"
    by (simp add: canonical_uid_def ReplaceAllByte_def example_uid_def)
  show ?thesis
    using ne example_pod_path
    by (simp add: PodUIDFromCgroupID_def example_tree_def walk_fn_def del: podUIDPattern.simps)
qed



text \<open>A lookup in the sockops map panics exactly when one of the addresses is an IPv6 address that does
  not map an IPv4 address.\<close>

lemma attest_lookup_panics:
  "panics (bpf_Lookup m tree srcIP dstIP srcPort dstPort) \<longleftrightarrow> \<not> Is4 (Unmap srcIP) \<or> \<not> Is4 (Unmap dstIP)"
  by (cases "As4 srcIP"; cases "As4 dstIP")
    (auto simp: bpf_Lookup_def attest_lookup_key_def dest: panics_As4)

text \<open>When the process that holds the other end of a connection is in a cgroup below its pod's, the
  lookup through the socket table that succeeds returns that pod's UID, however the cgroups the process
  creates for itself are named.\<close>

lemma sockdiag_nested:
  assumes "diag_ok c" "dw_path c t = Some (base @ nested)" "podUIDPattern base = Some u"
    and "sockdiag_Lookup (dw_get c) (dw_proc c) (quad_addr (c_src t)) (quad_addr (c_dst t)) (c_sport t) (c_dport t)
         = Inr uid"
  shows "uid = canonical_uid u \<and> length uid = 36 \<and> CHR ''_'' \<notin> set uid"
  using diag.Lookup_nested [OF assms(1-3)] diag.Lookup_shape [OF assms(1)] assms(4) by simp

definition example_pod_cgroup :: string where
  "example_pod_cgroup = ''/kubepods-pod'' @ example_uid @ ''.slice''"

definition example_other :: string where
  "example_other = ''/pod00000000_0000_0000_0000_000000000000''"

definition example_proc :: proc_view where
  "example_proc = \<lparr>pv_open = Inr (), pv_batches = [([''self'', ''42'', ''7''], None)],
     pv_fds = (\<lambda>name. if name = ''7'' then Inr [Inr ''socket:[5]''] else Inl (ErrorString ''no such process'')),
     pv_cgroup = (\<lambda>pid. Inr ([''1:name=systemd:/'', ''0::'' @ example_pod_cgroup @ example_other], None))\<rparr>"

definition example_diag :: diag_world where
  "example_diag = \<lparr>dw_get = (\<lambda>_ _. Inr 5), dw_proc = example_proc,
     dw_path = (\<lambda>_. Some (example_pod_cgroup @ example_other))\<rparr>"


lemma example_base: "podUIDPattern example_pod_cgroup = Some example_uid"
proof -
  have "podUIDPattern (''/kubepods-'' @ ''pod'' @ example_uid @ ''.slice'') = Some example_uid"
  proof (rule podUIDPattern_first [OF example_uid_shape], intro allI impI)
    fix i assume "i < length ''/kubepods-''"
    then have "i \<in> set [0..<10]" by simp
    then show "match_at (drop i (''/kubepods-'' @ ''pod'' @ example_uid @ ''.slice'')) = None"
      by (auto simp: upt_rec numeral_eq_Suc match_at_def HasPrefix_def uid_shape_def uid_classes_def
          example_uid_def is_hex_def hex_val_def)
  qed
  then show ?thesis by (simp add: example_pod_cgroup_def)
qed

lemma example_fields:
  "SplitN 3 (CHR '':'') (''0::'' @ example_pod_cgroup @ example_other) = [''0'', [], example_pod_cgroup @ example_other]"
  using SplitN_3_append [of "CHR '':''" "''0''" "[]" "example_pod_cgroup @ example_other"] by simp

lemma example_fields_v1: "SplitN 3 (CHR '':'') ''1:name=systemd:/'' = [''1'', ''name=systemd'', ''/'']"
  using SplitN_3_append [of "CHR '':''" "''1''" "''name=systemd''" "''/''"] by simp

lemma example_inode: "socket_link (ucast (5 :: 32 word)) = ''socket:[5]''"
  by code_simp

lemma example_Atoi: "Atoi ''42'' = Inr 42" "Atoi ''7'' = Inr 7" "\<exists>e. Atoi ''self'' = Inl e"
  by (code_simp, code_simp, simp add: Atoi_def is_digit_def)

lemma example_lookup:
  "sockdiag_Lookup (dw_get example_diag) (dw_proc example_diag) s d sp dp = Inr (canonical_uid example_uid)"
proof -
  have "scan_cgroup 7 [''1:name=systemd:/'', ''0::'' @ example_pod_cgroup @ example_other] =
      Some (Inr (canonical_uid example_uid))"
    using podUIDPattern_append [OF example_base, of example_other] example_fields example_fields_v1
    by (simp del: SplitN.simps podUIDPattern.simps)
  then have "PodUIDFromCgroup (pv_cgroup example_proc) 7 = Inr (canonical_uid example_uid)"
    by (simp add: PodUIDFromCgroup_def example_proc_def del: scan_cgroup.simps)
  moreover have "pidForSocketInode example_proc 5 = Inr 7"
    using example_Atoi example_inode
    by (auto simp: pidForSocketInode_def example_proc_def fd_has_def)
  ultimately show ?thesis by (simp add: sockdiag_Lookup_def example_diag_def)
qed

lemma example_diag_ok: "diag_ok example_diag"
  using example_fields example_fields_v1
  by (simp add: diag_ok_def example_diag_def proc_path_def example_proc_def del: SplitN.simps)

lemma sockdiag_nested_example:
  "sockdiag_Lookup (dw_get example_diag) (dw_proc example_diag) (AddrV4 10 0 0 5) (AddrV4 10 0 0 1) 40000 16321 =
     Inr (canonical_uid example_uid) \<and> length (canonical_uid example_uid) = 36"
  using sockdiag_nested [OF example_diag_ok _ example_base example_lookup, of example_conn example_other] example_lookup
  by (simp add: example_diag_def)

end
