(* ===== verification/Go_Time.thy ===== *)
theory Go_Time
  imports Go_Errors
begin

text \<open>
  Go's \<open>time.Time\<close>: a wall clock reading in nanoseconds and, for times obtained from
  \<open>time.Now\<close>, a monotonic clock reading. Two times that both carry a monotonic reading are
  compared by it, any other pair by the wall clock. \<open>time.Duration\<close> is a 64-bit number of
  nanoseconds; differences saturate, as \<open>Time.Sub\<close> does.
\<close>

type_synonym duration = int

record gotime =
  wall :: int
  mono :: "int option"

definition Nanosecond :: duration where "Nanosecond = 1"
definition Millisecond :: duration where "Millisecond = 1000000"
definition Second :: duration where "Second = 1000000000"
definition Minute :: duration where "Minute = 60 * Second"
definition Hour :: duration where "Hour = 60 * Minute"

lemmas duration_defs = Hour_def Minute_def Second_def Millisecond_def Nanosecond_def

text \<open>\<open>Time.Sub\<close>; \<open>time.Until t\<close> is \<open>Sub t now\<close>.\<close>

definition Sub :: "gotime \<Rightarrow> gotime \<Rightarrow> duration" where
  "Sub t u = (case (mono t, mono u) of
      (Some a, Some b) \<Rightarrow> sat64 (a - b)
    | _ \<Rightarrow> sat64 (wall t - wall u))"

text \<open>\<open>Time.Add\<close> drops the monotonic reading when it would overflow.\<close>

definition Add :: "gotime \<Rightarrow> duration \<Rightarrow> gotime" where
  "Add t d = \<lparr>wall = wall t + d,
     mono = (case mono t of None \<Rightarrow> None | Some m \<Rightarrow> if in64 (m + d) then Some (m + d) else None)\<rparr>"

definition Before :: "gotime \<Rightarrow> gotime \<Rightarrow> bool" where
  "Before t u = (case (mono t, mono u) of
      (Some a, Some b) \<Rightarrow> a < b
    | _ \<Rightarrow> wall t < wall u)"

text \<open>\<open>Time.Unix\<close> in seconds, and \<open>time.Unix(s, 0)\<close>, which has no monotonic reading.\<close>

definition Unix :: "gotime \<Rightarrow> int" where
  "Unix t = wall t div Second"

definition time_Unix :: "int \<Rightarrow> gotime" where
  "time_Unix s = \<lparr>wall = s * Second, mono = None\<rparr>"

lemma Unix_floor: "wall (time_Unix (Unix t)) \<le> wall t \<and> wall t < wall (time_Unix (Unix t)) + Second"
  by (simp add: Unix_def time_Unix_def Second_def) arith

lemma mono_time_Unix [simp]: "mono (time_Unix s) = None"
  by (simp add: time_Unix_def)

lemma wall_Add [simp]: "wall (Add t d) = wall t + d"
  by (simp add: Add_def)

lemma Sub_pos_mono: "mono t = Some a \<Longrightarrow> mono u = Some b \<Longrightarrow> 0 < Sub t u \<longleftrightarrow> b < a"
  by (simp add: Sub_def sat64_pos_iff)

lemma Sub_pos_wall: "mono t = None \<Longrightarrow> 0 < Sub t u \<longleftrightarrow> wall u < wall t"
  by (simp add: Sub_def sat64_pos_iff)

lemma Sub_in64 [simp]: "in64 (Sub t u)"
  by (simp add: Sub_def split: option.splits)

end
