(* ===== verification/Retry.thy ===== *)
theory Retry
  imports Go_Time
begin

text \<open>
  \<open>internal/retry\<close> and \<open>internal/time\<close>: retrying an operation with exponential back-off. What the
  environment decides is a parameter: the result of the \<open>i\<close>-th call of the operation and the result
  of the \<open>i\<close>-th sleep (\<open>None\<close> when the timer fired, the context's error when it was done first).
  The loop runs forever when \<open>MaxAttempts\<close> is negative and nothing stops it, so it has fuel; a
  bounded operation needs no more fuel than attempts.
\<close>

section \<open>The operation\<close>

record operation =
  MaxAttempts :: int
  InitialDelay :: duration
  MaxDelay :: duration
  Description :: string
  FailureCounter :: bool   \<comment> \<open>whether a counter was given\<close>
  Func :: "(nat \<Rightarrow> goerr option) option"   \<comment> \<open>result of the i-th call, from 1\<close>
  IsRetryable :: "(goerr \<Rightarrow> bool) option"

text \<open>What a run leaves behind: the returned error (\<open>None\<close> is nil), how often the failure counter
  was incremented, and the delays slept.\<close>

record retry_run =
  rr_err :: "goerr option"
  rr_failures :: nat
  rr_delays :: "duration list"

text \<open>\<open>pkgtime.SleepContext\<close>: the context's error or nil, whichever channel is selected.\<close>

datatype select_result = CtxDone goerr | TimerFired

fun SleepContext :: "select_result \<Rightarrow> goerr option" where
  "SleepContext (CtxDone err) = Some err"
| "SleepContext TimerFired = None"

definition retry_defaults :: "operation \<Rightarrow> operation" where
  "retry_defaults op =
     (let op = (if MaxAttempts op = 0 then op\<lparr>MaxAttempts := 3\<rparr> else op);
          op = (if InitialDelay op \<le> 0 then op\<lparr>InitialDelay := Second\<rparr> else op);
          op = (if MaxDelay op \<le> 0 then op\<lparr>MaxDelay := 30 * Second\<rparr> else op);
          op = (if MaxDelay op < InitialDelay op then op\<lparr>MaxDelay := InitialDelay op\<rparr> else op)
      in op)"

definition expDelay :: "operation \<Rightarrow> nat \<Rightarrow> duration" where
  "expDelay op i =
     (let d = wrap64 (wrap64 (2 ^ (i - 1)) * InitialDelay op) in
      if i > 11 \<or> d > MaxDelay op then MaxDelay op else d)"

text \<open>The loop at attempt \<open>i\<close>; \<open>r\<close> carries the counter and the delays so far.\<close>

fun retry_loop :: "nat \<Rightarrow> operation \<Rightarrow> (nat \<Rightarrow> goerr option) \<Rightarrow> (goerr \<Rightarrow> bool) \<Rightarrow>
    (nat \<Rightarrow> select_result) \<Rightarrow> nat \<Rightarrow> retry_run \<Rightarrow> retry_run option" where
  "retry_loop 0 op f retryable sel i r = None"
| "retry_loop (Suc fuel) op f retryable sel i r =
     (if \<not> (MaxAttempts op < 0 \<or> int i \<le> MaxAttempts op) then Some (r\<lparr>rr_err := None\<rparr>)
      else case f i of
        None \<Rightarrow> Some (r\<lparr>rr_err := None\<rparr>)
      | Some err \<Rightarrow>
          if \<not> retryable err then Some (r\<lparr>rr_err := Some err\<rparr>)
          else (let r = r\<lparr>rr_failures := Suc (rr_failures r)\<rparr> in
            if int i = MaxAttempts op
            then Some (r\<lparr>rr_err := Some (MaxAttemptsError (Description op) (MaxAttempts op) err)\<rparr>)
            else (let d = expDelay op i; r = r\<lparr>rr_delays := rr_delays r @ [d]\<rparr> in
              case SleepContext (sel i) of
                Some err' \<Rightarrow> Some (r\<lparr>rr_err := Some (ContextCanceledError (Description op) err')\<rparr>)
              | None \<Rightarrow> retry_loop fuel op f retryable sel (Suc i) r)))"

definition retry_init :: retry_run where
  "retry_init = \<lparr>rr_err = None, rr_failures = 0, rr_delays = []\<rparr>"

definition Retry_Do :: "nat \<Rightarrow> operation \<Rightarrow> (nat \<Rightarrow> select_result) \<Rightarrow> retry_run option" where
  "Retry_Do fuel op sel =
     (if Description op = [] then Some (retry_init\<lparr>rr_err := Some (ErrorString
        ''a retryable operation must have a description'')\<rparr>)
      else case Func op of
        None \<Rightarrow> Some (retry_init\<lparr>rr_err := Some (ErrorString
          ''a retryable operation must have a function to be called'')\<rparr>)
      | Some f \<Rightarrow>
          if \<not> FailureCounter op then Some (retry_init\<lparr>rr_err := Some (ErrorString
            ''a retryable operation must have a failure counter for observability'')\<rparr>)
          else case IsRetryable op of
            None \<Rightarrow> Some (retry_init\<lparr>rr_err := Some (ErrorString
              ''a retryable operation must have a function to check if an error is retryable'')\<rparr>)
          | Some retryable \<Rightarrow> retry_loop fuel (retry_defaults op) f retryable sel 1 retry_init)"

definition HTTPStatusCode :: "goerr \<Rightarrow> int" where
  "HTTPStatusCode err =
     (if list_ex is_MaxAttemptsError (err_chain err) then 429
      else if list_ex is_ContextCanceledError (err_chain err) then 499
      else 500)"

section \<open>Delays\<close>

text \<open>The delays are set up sanely: positive, with the maximum no smaller than the first.\<close>

definition sane_delays :: "operation \<Rightarrow> bool" where
  "sane_delays op \<longleftrightarrow> 0 < InitialDelay op \<and> InitialDelay op \<le> MaxDelay op \<and> in64 (1024 * InitialDelay op)"

lemma retry_defaults_sane:
  "in64 (1024 * InitialDelay op) \<Longrightarrow> sane_delays (retry_defaults op)"
  by (auto simp: sane_delays_def retry_defaults_def Let_def Second_def int64_defs)

lemma retry_defaults_MaxAttempts:
  "MaxAttempts (retry_defaults op) = (if MaxAttempts op = 0 then 3 else MaxAttempts op)"
  "Description (retry_defaults op) = Description op"
  by (auto simp: retry_defaults_def Let_def)

lemma expDelay_eq:
  assumes "sane_delays op" "1 \<le> i"
  shows "expDelay op i = min (2 ^ (i - 1) * InitialDelay op) (MaxDelay op) \<or>
         11 < i \<and> expDelay op i = MaxDelay op"
proof (cases "11 < i")
  case False
  then have "i - 1 \<le> 10" by simp
  then have le: "(2::int) ^ (i - 1) \<le> 2 ^ 10" by (rule power_increasing) simp
  have "in64 (2 ^ (i - 1))"
    by (rule in64_mono [OF _ le]) (simp_all add: int64_defs)
  moreover have "0 < InitialDelay op" using assms by (simp add: sane_delays_def)
  then have "2 ^ (i - 1) * InitialDelay op \<le> 1024 * InitialDelay op"
    using mult_right_mono [OF le, of "InitialDelay op"] by simp
  from in64_mono [OF _ this] have "in64 (2 ^ (i - 1) * InitialDelay op)"
    using assms \<open>0 < InitialDelay op\<close> by (simp add: sane_delays_def)
  ultimately show ?thesis using False by (auto simp: expDelay_def Let_def)
qed (simp add: expDelay_def Let_def)

lemma expDelay_bounds:
  assumes "sane_delays op" "1 \<le> i"
  shows "InitialDelay op \<le> expDelay op i \<and> expDelay op i \<le> MaxDelay op"
proof -
  have "1 * InitialDelay op \<le> 2 ^ (i - 1) * InitialDelay op"
    using assms(1) by (intro mult_right_mono) (auto simp: sane_delays_def)
  then show ?thesis using expDelay_eq [OF assms] assms(1) by (auto simp: sane_delays_def)
qed

lemma expDelay_mono:
  assumes "sane_delays op" "1 \<le> i"
  shows "expDelay op i \<le> expDelay op (Suc i)"
proof -
  obtain j where i: "i = Suc j" using assms(2) by (cases i) auto
  have "(2::int) ^ (i - 1) \<le> 2 ^ (Suc i - 1)" by (simp add: i)
  then have "2 ^ (i - 1) * InitialDelay op \<le> 2 ^ (Suc i - 1) * InitialDelay op"
    using assms(1) by (intro mult_right_mono) (auto simp: sane_delays_def)
  moreover have "expDelay op i \<le> MaxDelay op" using expDelay_bounds [OF assms] by simp
  moreover have "11 < i \<Longrightarrow> expDelay op (Suc i) = MaxDelay op"
    by (simp add: expDelay_def Let_def)
  ultimately show ?thesis
    using expDelay_eq [OF assms] expDelay_eq [OF assms(1), of "Suc i"] by auto
qed

section \<open>The loop against a reference\<close>

text \<open>
  Attempt \<open>i\<close> settles the run when the call succeeds, fails for good, exhausts the attempts, or the
  context is done while sleeping after it. \<open>outcome\<close> is what the run then returns.
\<close>

definition outcome :: "operation \<Rightarrow> (nat \<Rightarrow> goerr option) \<Rightarrow> (goerr \<Rightarrow> bool) \<Rightarrow>
    (nat \<Rightarrow> select_result) \<Rightarrow> nat \<Rightarrow> goerr option option" where
  "outcome op f retryable sel i =
     (case f i of
        None \<Rightarrow> Some None
      | Some err \<Rightarrow>
          if \<not> retryable err then Some (Some err)
          else if int i = MaxAttempts op
            then Some (Some (MaxAttemptsError (Description op) (MaxAttempts op) err))
          else (case sel i of
              CtxDone err' \<Rightarrow> Some (Some (ContextCanceledError (Description op) err'))
            | TimerFired \<Rightarrow> None))"

lemma retry_loop_settled:
  assumes "1 \<le> i" "MaxAttempts op < 0 \<or> int i \<le> MaxAttempts op" "outcome op f rt sel i = Some e"
  shows "\<exists>r'. retry_loop (Suc fuel) op f rt sel i r = Some r' \<and> rr_err r' = e \<and>
    rr_failures r \<le> rr_failures r' \<and> rr_failures r' \<le> Suc (rr_failures r) \<and>
    (e = None \<longrightarrow> rr_failures r' = rr_failures r) \<and>
    (rr_delays r' = rr_delays r \<or> int i \<noteq> MaxAttempts op \<and> rr_delays r' = rr_delays r @ [expDelay op i])"
  using assms by (auto simp: outcome_def Let_def split: option.splits if_splits select_result.splits)

lemma retry_loop_continue:
  assumes "MaxAttempts op < 0 \<or> int i \<le> MaxAttempts op" "outcome op f rt sel i = None"
  shows "retry_loop (Suc fuel) op f rt sel i r =
    retry_loop fuel op f rt sel (Suc i)
      (r\<lparr>rr_failures := Suc (rr_failures r), rr_delays := rr_delays r @ [expDelay op i]\<rparr>)"
  using assms by (auto simp: outcome_def Let_def split: option.splits if_splits select_result.splits)

lemma outcome_last: "int i = MaxAttempts op \<Longrightarrow> outcome op f rt sel i \<noteq> None"
  by (auto simp: outcome_def split: option.splits)

text \<open>If \<open>k\<close> is the first attempt that settles the run, the loop returns its outcome, after \<open>k - 1\<close>
  counted failures and exponential delays, plus at most one of each for the last attempt.\<close>

lemma retry_loop_outcome:
  assumes "1 \<le> i" "i \<le> k" "MaxAttempts op < 0 \<or> int k \<le> MaxAttempts op"
    and "outcome op f rt sel k = Some e" "\<forall>j. i \<le> j \<and> j < k \<longrightarrow> outcome op f rt sel j = None"
    and "k - i < fuel"
  shows "\<exists>r'. retry_loop fuel op f rt sel i r = Some r' \<and> rr_err r' = e \<and>
    rr_failures r + (k - i) \<le> rr_failures r' \<and> rr_failures r' \<le> rr_failures r + (k - i) + 1 \<and>
    (e = None \<longrightarrow> rr_failures r' = rr_failures r + (k - i)) \<and>
    (\<exists>last. rr_delays r' = rr_delays r @ map (expDelay op) [i..<k] @ last \<and>
       (last = [] \<or> int k \<noteq> MaxAttempts op \<and> last = [expDelay op k]))"
  using assms
proof (induction "k - i" arbitrary: i r fuel)
  case 0
  then obtain fuel' where "fuel = Suc fuel'" "k = i" by (cases fuel) auto
  then show ?case using retry_loop_settled [of i op f rt sel e fuel' r] 0 by fastforce
next
  case (Suc n)
  obtain fuel' where fuel: "fuel = Suc fuel'" using Suc.prems(6) by (cases fuel) auto
  have "i < k" using Suc.hyps(2) by simp
  define r1 where "r1 = r\<lparr>rr_failures := Suc (rr_failures r), rr_delays := rr_delays r @ [expDelay op i]\<rparr>"
  have step: "retry_loop fuel op f rt sel i r = retry_loop fuel' op f rt sel (Suc i) r1"
    unfolding fuel r1_def
    by (rule retry_loop_continue) (use Suc.prems \<open>i < k\<close> in auto)
  have "\<exists>r'. retry_loop fuel' op f rt sel (Suc i) r1 = Some r' \<and> rr_err r' = e \<and>
    rr_failures r1 + (k - Suc i) \<le> rr_failures r' \<and> rr_failures r' \<le> rr_failures r1 + (k - Suc i) + 1 \<and>
    (e = None \<longrightarrow> rr_failures r' = rr_failures r1 + (k - Suc i)) \<and>
    (\<exists>last. rr_delays r' = rr_delays r1 @ map (expDelay op) [Suc i..<k] @ last \<and>
       (last = [] \<or> int k \<noteq> MaxAttempts op \<and> last = [expDelay op k]))"
    by (rule Suc.hyps(1)) (use Suc.hyps(2) Suc.prems fuel \<open>i < k\<close> in auto)
  moreover have "[i..<k] = i # [Suc i..<k]" using \<open>i < k\<close> by (rule upt_conv_Cons)
  moreover have "Suc (k - Suc i) = k - i" using \<open>i < k\<close> by simp
  ultimately show ?case
    unfolding step by (auto simp: r1_def)
qed

lemma first_settled:
  assumes "0 < MaxAttempts op"
  obtains k e where "1 \<le> k" "int k \<le> MaxAttempts op" "outcome op f rt sel k = Some e"
    "\<forall>j. 1 \<le> j \<and> j < k \<longrightarrow> outcome op f rt sel j = None"
proof -
  let ?P = "\<lambda>k. 1 \<le> k \<and> outcome op f rt sel k \<noteq> None"
  have last: "?P (nat (MaxAttempts op))"
    using assms outcome_last [of "nat (MaxAttempts op)" op] by (auto simp: le_nat_iff)
  define k where "k = (LEAST k. ?P k)"
  have "?P k" unfolding k_def by (rule LeastI [of ?P, OF last])
  moreover have "k \<le> nat (MaxAttempts op)" unfolding k_def by (rule Least_le [of ?P, OF last])
  moreover have "\<forall>j. 1 \<le> j \<and> j < k \<longrightarrow> outcome op f rt sel j = None"
    unfolding k_def by (metis (mono_tags, lifting) not_less_Least)
  ultimately show thesis using that assms by (auto simp: le_nat_iff)
qed

lemma retry_loop_mono:
  "retry_loop fuel op f rt sel i r = Some r' \<Longrightarrow> retry_loop (fuel + n) op f rt sel i r = Some r'"
proof (induction fuel op f rt sel i r rule: retry_loop.induct)
  case (2 fuel op f rt sel i r)
  then show ?case
    by (auto simp: Let_def split: if_splits option.splits)
qed simp

section \<open>Properties\<close>

definition well_formed_op :: "operation \<Rightarrow> bool" where
  "well_formed_op op \<longleftrightarrow> Description op \<noteq> [] \<and> Func op \<noteq> None \<and> FailureCounter op \<and> IsRetryable op \<noteq> None"

lemma Retry_Do_loop:
  assumes "well_formed_op op" "Func op = Some f" "IsRetryable op = Some rt"
  shows "Retry_Do fuel op sel = retry_loop fuel (retry_defaults op) f rt sel 1 retry_init"
  using assms by (auto simp: Retry_Do_def well_formed_op_def)

lemma retry_bounded:
  assumes "well_formed_op op" "Func op = Some f" "IsRetryable op = Some rt"
    and "0 \<le> MaxAttempts op" "N = (if MaxAttempts op = 0 then 3 else nat (MaxAttempts op))" "N \<le> fuel"
  shows "\<exists>k r. 1 \<le> k \<and> k \<le> N \<and> Retry_Do fuel op sel = Some r \<and>
    outcome (retry_defaults op) f rt sel k = Some (rr_err r) \<and>
    (\<forall>j. 1 \<le> j \<and> j < k \<longrightarrow> outcome (retry_defaults op) f rt sel j = None) \<and>
    rr_failures r \<le> N \<and> length (rr_delays r) < N \<and> (rr_err r = None \<longrightarrow> Suc (rr_failures r) = k)"
proof -
  let ?op = "retry_defaults op"
  have N: "MaxAttempts ?op = int N"
    using assms(4,5) by (simp add: retry_defaults_MaxAttempts)
  have "0 < MaxAttempts ?op" using assms(4) by (simp add: retry_defaults_MaxAttempts)
  then obtain k e where k: "1 \<le> k" "int k \<le> MaxAttempts ?op" "outcome ?op f rt sel k = Some e"
    "\<forall>j. 1 \<le> j \<and> j < k \<longrightarrow> outcome ?op f rt sel j = None"
    by (rule first_settled)
  have "k \<le> N" using k(2) N by simp
  moreover have "k - 1 < fuel" using calculation k(1) assms(6) by linarith
  ultimately obtain r last where r: "retry_loop fuel ?op f rt sel 1 retry_init = Some r" "rr_err r = e"
      "rr_failures r \<le> k" "e = None \<longrightarrow> Suc (rr_failures r) = k" "rr_delays r = map (expDelay ?op) [1..<k] @ last"
      "last = [] \<or> k \<noteq> N \<and> length last = 1"
    using retry_loop_outcome [of 1 k ?op f rt sel e fuel retry_init] k assms(6) N
    by (auto simp: retry_init_def)
  have "length (rr_delays r) < N" using r(5,6) \<open>k \<le> N\<close> k(1) by auto
  then show ?thesis
    using Retry_Do_loop [OF assms(1-3)] r k \<open>k \<le> N\<close> by (intro exI [of _ k] exI [of _ r]) auto
qed

text \<open>C28. A bounded operation (\<open>MaxAttempts\<close> not negative, zero meaning 3) always returns: it needs no
  more iterations than attempts, its failure counter grows by at most the number of attempts, it
  sleeps fewer times than that, and what it returns is the outcome of the first attempt that settles
  it.\<close>

theorem retry_do_returns:
  assumes "well_formed_op op" "Func op = Some f" "IsRetryable op = Some rt"
    and "0 \<le> MaxAttempts op" "N = (if MaxAttempts op = 0 then 3 else nat (MaxAttempts op))" "N \<le> fuel"
  shows "\<exists>k r. 1 \<le> k \<and> k \<le> N \<and> Retry_Do fuel op sel = Some r \<and>
    outcome (retry_defaults op) f rt sel k = Some (rr_err r) \<and>
    (\<forall>j. 1 \<le> j \<and> j < k \<longrightarrow> outcome (retry_defaults op) f rt sel j = None) \<and>
    rr_failures r \<le> N \<and> length (rr_delays r) < N \<and> (rr_err r = None \<longrightarrow> Suc (rr_failures r) = k)"
  using assms by (rule retry_bounded)

definition example_op :: operation where
  "example_op = \<lparr>MaxAttempts = 0, InitialDelay = 0, MaxDelay = 0, Description = ''lookup pod by ip address'',
     FailureCounter = True, Func = Some (\<lambda>i. if i < 3 then Some (ErrorString ''timeout'') else None),
     IsRetryable = Some (\<lambda>_. True)\<rparr>"

lemma example_op_run:
  "Retry_Do 3 example_op (\<lambda>_. TimerFired) =
     Some \<lparr>rr_err = None, rr_failures = 2, rr_delays = [Second, 2 * Second]\<rparr>"
  by (simp add: Retry_Do_def example_op_def retry_defaults_def retry_init_def numeral_3_eq_3
      expDelay_def wrap64_def duration_defs)

theorem retry_do_returns_witness:
  "\<exists>(k::nat) r. 1 \<le> k \<and> k \<le> 3 \<and> Retry_Do 3 example_op (\<lambda>_. TimerFired) = Some r \<and> rr_failures r \<le> 3 \<and>
     length (rr_delays r) < 3 \<and> rr_err r = None"
proof -
  have wf: "well_formed_op example_op"
      "Func example_op = Some (\<lambda>i. if i < 3 then Some (ErrorString ''timeout'') else None)"
      "IsRetryable example_op = Some (\<lambda>_. True)" "0 \<le> MaxAttempts example_op"
      "3 = (if MaxAttempts example_op = 0 then 3 else nat (MaxAttempts example_op))" "(3::nat) \<le> 3"
    by (simp_all add: well_formed_op_def example_op_def)
  obtain k :: nat and r where "1 \<le> k" "k \<le> 3" "Retry_Do 3 example_op (\<lambda>_. TimerFired) = Some r"
      "rr_failures r \<le> 3" "length (rr_delays r) < 3"
    using retry_do_returns [OF wf, of "\<lambda>_. TimerFired"] by blast
  then show ?thesis using example_op_run by fastforce
qed

text \<open>The delays of a run double from the initial delay and are cut off at the maximum: each lies
  between the two (after the defaults are applied), they never decrease, and the first eleven are
  exactly \<open>min (2 ^ (i - 1) * InitialDelay) MaxDelay\<close>. The bound on \<open>InitialDelay\<close> (104 days) excludes
  the overflow of the 64-bit product.\<close>

lemma retry_delays:
  assumes "in64 (1024 * InitialDelay op)" "1 \<le> i"
  shows "InitialDelay (retry_defaults op) \<le> expDelay (retry_defaults op) i \<and>
    expDelay (retry_defaults op) i \<le> MaxDelay (retry_defaults op) \<and>
    expDelay (retry_defaults op) i \<le> expDelay (retry_defaults op) (Suc i) \<and>
    (i \<le> 11 \<longrightarrow> expDelay (retry_defaults op) i =
       min (2 ^ (i - 1) * InitialDelay (retry_defaults op)) (MaxDelay (retry_defaults op)))"
proof -
  note sane = retry_defaults_sane [OF assms(1)]
  show ?thesis
    using expDelay_bounds [OF sane assms(2)] expDelay_mono [OF sane assms(2)]
      expDelay_eq [OF sane assms(2)] by auto
qed

lemma retry_delays_example:
  "in64 (1024 * InitialDelay example_op) \<and> expDelay (retry_defaults example_op) 5 = 16 * Second \<and>
   expDelay (retry_defaults example_op) 6 = 30 * Second"
proof -
  have h: "in64 (1024 * InitialDelay example_op)"
    by (simp add: example_op_def int64_defs)
  show ?thesis
    using h retry_delays [OF h, of 5] retry_delays [OF h, of 6]
    by (simp add: retry_defaults_def example_op_def Second_def)
qed

text \<open>An operation with a negative \<open>MaxAttempts\<close> never gives up: it returns as soon as an attempt
  succeeds, fails for good or sees its context done, and if none ever does no amount of iterations
  makes it return.\<close>

lemma retry_unbounded:
  assumes "well_formed_op op" "Func op = Some f" "IsRetryable op = Some rt" "MaxAttempts op < 0"
  shows "(\<exists>fuel r. Retry_Do fuel op sel = Some r) \<longleftrightarrow>
    (\<exists>k\<ge>1. outcome (retry_defaults op) f rt sel k \<noteq> None)"
proof
  let ?op = "retry_defaults op"
  have neg: "MaxAttempts ?op < 0" using assms(4) by (simp add: retry_defaults_MaxAttempts)
  {
    assume none: "\<forall>k\<ge>1. outcome ?op f rt sel k = None"
    have "retry_loop fuel ?op f rt sel i r = None" if "1 \<le> i" for fuel i r
      using that
    proof (induction fuel arbitrary: i r)
      case (Suc fuel)
      then show ?case
        using retry_loop_continue [of ?op i f rt sel fuel r] none neg by simp
    qed simp
  }
  then show "\<exists>fuel r. Retry_Do fuel op sel = Some r \<Longrightarrow> \<exists>k\<ge>1. outcome ?op f rt sel k \<noteq> None"
    using Retry_Do_loop [OF assms(1-3)] by (metis option.distinct(1) order_refl)
next
  let ?op = "retry_defaults op"
  have neg: "MaxAttempts ?op < 0" using assms(4) by (simp add: retry_defaults_MaxAttempts)
  assume "\<exists>k\<ge>1. outcome ?op f rt sel k \<noteq> None"
  then obtain k where k: "1 \<le> k \<and> outcome ?op f rt sel k \<noteq> None"
      "\<forall>j<k. \<not> (1 \<le> j \<and> outcome ?op f rt sel j \<noteq> None)"
    using exists_least_iff [of "\<lambda>k. 1 \<le> k \<and> outcome ?op f rt sel k \<noteq> None"] by blast
  then obtain e where "outcome ?op f rt sel k = Some e" by blast
  moreover have "\<forall>j. 1 \<le> j \<and> j < k \<longrightarrow> outcome ?op f rt sel j = None" using k(2) by blast
  moreover have "k - 1 < Suc k" by simp
  ultimately obtain r where "retry_loop (Suc k) ?op f rt sel 1 retry_init = Some r"
    using retry_loop_outcome [OF order_refl, of k ?op f rt sel e "Suc k" retry_init] k(1) neg by blast
  then show "\<exists>fuel r. Retry_Do fuel op sel = Some r"
    using Retry_Do_loop [OF assms(1-3)] by metis
qed

lemma retry_unbounded_example:
  "\<exists>fuel r. Retry_Do fuel (example_op\<lparr>MaxAttempts := - 1\<rparr>) (\<lambda>_. TimerFired) = Some r"
proof -
  let ?op = "example_op\<lparr>MaxAttempts := - 1\<rparr>"
  have wf: "well_formed_op ?op"
      "Func ?op = Some (\<lambda>i. if i < 3 then Some (ErrorString ''timeout'') else None)"
      "IsRetryable ?op = Some (\<lambda>_. True)" "MaxAttempts ?op < 0"
    by (simp_all add: well_formed_op_def example_op_def)
  have "outcome (retry_defaults ?op) (\<lambda>i. if i < 3 then Some (ErrorString ''timeout'') else None)
      (\<lambda>_. True) (\<lambda>_. TimerFired) 3 \<noteq> None"
    by (simp add: outcome_def)
  then show ?thesis using retry_unbounded [OF wf, of "\<lambda>_. TimerFired"]
    by (metis one_le_numeral)
qed

end
