(* ===== verification/Http_Response.thy ===== *)
theory Http_Response
  imports Go_Time
begin

text \<open>
  \<open>internal/http/response.go\<close> and \<open>status.go\<close>: the requests the handlers read, the response writer of
  \<open>net/http\<close> they write to, and the helpers that send a response and observe it. The body of a JSON
  response is kept as the value that is marshalled, not as its bytes; log entries are kept with their
  level and message; the latency histogram is kept as the list of its observations' labels. The lemmas
  say when a helper panics and that it sends exactly one response.
\<close>

section \<open>Values, requests and responses\<close>

text \<open>The dynamic types that \<open>any\<close> has in the sources. \<open>AUnsupported\<close> stands for a value
  \<open>json.Marshal\<close> refuses, with the name of its type.\<close>

datatype any =
    ANil
  | AString string
  | AInt int
  | AStrings "string list"
  | AMap "(string \<times> any) list"
  | AUnsupported string

text \<open>The error of \<open>json.Marshal\<close>, if any: the first unsupported value.\<close>

fun json_Marshal :: "any \<Rightarrow> goerr option" where
  "json_Marshal (AMap kvs) =
     foldr (\<lambda>kv rest. case json_Marshal (snd kv) of Some e \<Rightarrow> Some e | None \<Rightarrow> rest) kvs None"
| "json_Marshal (AUnsupported t) = Some (ErrorString (''json: unsupported type: '' @ t))"
| "json_Marshal _ = None"

type_synonym go_headers = "(string \<times> string) list"

definition header_get :: "go_headers \<Rightarrow> string \<Rightarrow> string" where
  "header_get h k = (case map_of h k of Some v \<Rightarrow> v | None \<Rightarrow> [])"

definition header_set :: "string \<Rightarrow> string \<Rightarrow> go_headers \<Rightarrow> go_headers" where
  "header_set k v h = (k, v) # filter (\<lambda>kv. fst kv \<noteq> k) h"

text \<open>A request: \<open>rq_start\<close> is the start time \<open>InitRequest\<close> puts in the context, \<open>rq_ctx\<close> the rest of
  the context. Header keys are canonical, as the server of \<open>net/http\<close> stores them.\<close>

record 'c request =
  rq_method :: string
  rq_path :: string
  rq_query :: go_headers
  rq_header :: go_headers
  rq_remote :: string
  rq_start :: "gotime option"
  rq_ctx :: 'c

datatype body = BText string | BJSON any

datatype log_level = LDebug | LInfo | LWarning | LError

text \<open>The response writer with the observations made so far, and the state \<open>app\<close> of the application
  (its caches and metrics). \<open>w_sent\<close> holds the status and the headers as they were sent.\<close>

record 's http =
  w_header :: go_headers
  w_sent :: "(int \<times> go_headers) option"
  w_body :: "body list"
  w_observed :: "(string \<times> string \<times> int) list"
  w_logs :: "(log_level \<times> string) list"
  app :: 's

definition fresh :: "'s \<Rightarrow> 's http" where
  "fresh s = \<lparr>w_header = [], w_sent = None, w_body = [], w_observed = [], w_logs = [], app = s\<rparr>"

definition log :: "log_level \<Rightarrow> string \<Rightarrow> 's http \<Rightarrow> 's http" where
  "log lv msg st = st\<lparr>w_logs := w_logs st @ [(lv, msg)]\<rparr>"

section \<open>net/http's response writer\<close>

definition WriteHeader :: "int \<Rightarrow> 's http \<Rightarrow> 's http go" where
  "WriteHeader code st =
     (if w_sent st \<noteq> None then Ret st
      else if code < 100 \<or> 999 < code then Panic (''invalid WriteHeader code '' @ itoa code)
      else if code \<le> 199 \<and> code \<noteq> 101 then Ret st
      else Ret (st\<lparr>w_sent := Some (code, w_header st)\<rparr>))"

definition bodyAllowedForStatus :: "int \<Rightarrow> bool" where
  "bodyAllowedForStatus code \<longleftrightarrow> \<not> (100 \<le> code \<and> code \<le> 199) \<and> code \<noteq> 204 \<and> code \<noteq> 304"

text \<open>\<open>Write\<close> sends the status 200 if none was sent, and refuses a body the status does not allow.\<close>

definition Write :: "body \<Rightarrow> 's http \<Rightarrow> ('s http \<times> goerr option) go" where
  "Write b st =
     gobind (if w_sent st = None then WriteHeader 200 st else Ret st) (\<lambda>st.
       (case w_sent st of
          Some (code, _) \<Rightarrow>
            if b = BText [] then Ret (st, None)
            else if \<not> bodyAllowedForStatus code
            then Ret (st, Some (Sentinel ''http: request method or response status code does not allow body''))
            else Ret (st\<lparr>w_body := w_body st @ [b]\<rparr>, None)
        | None \<Rightarrow> Ret (st, None)))"

text \<open>\<open>http.StatusText\<close>.\<close>

definition status_texts :: "(int \<times> string) list" where
  "status_texts =
    [(100, ''Continue''), (101, ''Switching Protocols''), (102, ''Processing''), (103, ''Early Hints''),
     (200, ''OK''), (201, ''Created''), (202, ''Accepted''), (203, ''Non-Authoritative Information''),
     (204, ''No Content''), (205, ''Reset Content''), (206, ''Partial Content''), (207, ''Multi-Status''),
     (208, ''Already Reported''), (226, ''IM Used''),
     (300, ''Multiple Choices''), (301, ''Moved Permanently''), (302, ''Found''), (303, ''See Other''),
     (304, ''Not Modified''), (305, ''Use Proxy''), (307, ''Temporary Redirect''), (308, ''Permanent Redirect''),
     (400, ''Bad Request''), (401, ''Unauthorized''), (402, ''Payment Required''), (403, ''Forbidden''),
     (404, ''Not Found''), (405, ''Method Not Allowed''), (406, ''Not Acceptable''),
     (407, ''Proxy Authentication Required''), (408, ''Request Timeout''), (409, ''Conflict''), (410, ''Gone''),
     (411, ''Length Required''), (412, ''Precondition Failed''), (413, ''Request Entity Too Large''),
     (414, ''Request URI Too Long''), (415, ''Unsupported Media Type''), (416, ''Requested Range Not Satisfiable''),
     (417, ''Expectation Failed''), (418, ''I'' @ [CHR 0x27] @ ''m a teapot''), (421, ''Misdirected Request''),
     (422, ''Unprocessable Entity''), (423, ''Locked''), (424, ''Failed Dependency''), (425, ''Too Early''),
     (426, ''Upgrade Required''), (428, ''Precondition Required''), (429, ''Too Many Requests''),
     (431, ''Request Header Fields Too Large''), (451, ''Unavailable For Legal Reasons''),
     (500, ''Internal Server Error''), (501, ''Not Implemented''), (502, ''Bad Gateway''),
     (503, ''Service Unavailable''), (504, ''Gateway Timeout''), (505, ''HTTP Version Not Supported''),
     (506, ''Variant Also Negotiates''), (507, ''Insufficient Storage''), (508, ''Loop Detected''),
     (510, ''Not Extended''), (511, ''Network Authentication Required'')]"

definition StatusText :: "int \<Rightarrow> string" where
  "StatusText code = (case map_of status_texts code of Some t \<Rightarrow> t | None \<Rightarrow> [])"

section \<open>response.go\<close>

definition MetadataFlavorHeader :: string where "MetadataFlavorHeader = ''Metadata-Flavor''"
definition MetadataFlavorGoogle :: string where "MetadataFlavorGoogle = ''Google''"

definition StatusClientClosedRequest :: int where "StatusClientClosedRequest = 499"

type_synonym errData = "goerr option \<times> any list"

definition InitRequest :: "gotime \<Rightarrow> 'c request \<Rightarrow> 'c request" where
  "InitRequest now r = r\<lparr>rq_start := Some now\<rparr>"

definition RespondNotFound :: "'s http \<Rightarrow> 's http go" where
  "RespondNotFound st = WriteHeader 404 st"

definition setGKEMetadataServerHeaders :: "string \<Rightarrow> int \<Rightarrow> 's http \<Rightarrow> 's http" where
  "setGKEMetadataServerHeaders contentType statusCode st =
     (let h = header_set ''Content-Type'' contentType (w_header st) in
      st\<lparr>w_header :=
        (if 200 \<le> statusCode \<and> statusCode < 300
         then header_set ''Server'' ''GKE Metadata Server'' (header_set MetadataFlavorHeader MetadataFlavorGoogle h)
         else h)\<rparr>)"

definition responseLogFields :: "int \<Rightarrow> any list \<Rightarrow> any" where
  "responseLogFields statusCode errResp =
     (let status = (if statusCode = StatusClientClosedRequest then ''Client Closed Request'' else StatusText statusCode)
      in AMap ([(''status'', AString status), (''status_code'', AInt statusCode)] @
               (case errResp of [] \<Rightarrow> [] | d # _ \<Rightarrow> [(''data'', d)])))"

text \<open>The histogram observation and the log entry of a request.\<close>

definition observe_log :: "string \<Rightarrow> int \<Rightarrow> log_level \<times> string" where
  "observe_log path statusCode =
     (if statusCode < 400 then
        (if HasSuffix path ''/token'' \<or> HasSuffix path ''/identity'' then LInfo else LDebug, ''request'')
      else if statusCode < 500 then (LInfo, ''client error'')
      else (LError, ''server error''))"

definition observeRequest :: "'c request \<Rightarrow> int \<Rightarrow> 's http \<Rightarrow> 's http go" where
  "observeRequest r statusCode st =
     (case rq_start r of
        None \<Rightarrow> Panic ''interface conversion: interface is nil, not requestObservability''
      | Some _ \<Rightarrow>
          (let st = st\<lparr>w_observed := w_observed st @ [(rq_method r, rq_path r, statusCode)]\<rparr> in
           Ret (case_prod log (observe_log (rq_path r) statusCode) st)))"

definition log_write :: "goerr option \<Rightarrow> 's http \<Rightarrow> 's http" where
  "log_write err st = (case err of None \<Rightarrow> st | Some _ \<Rightarrow> log LError ''error writing response'' st)"

text \<open>The part of \<open>RespondJSON\<close> and of \<open>RespondText\<close> after the payload is known.\<close>

definition send :: "'c request \<Rightarrow> string \<Rightarrow> int \<Rightarrow> body \<Rightarrow> 's http \<Rightarrow> 's http go" where
  "send r contentType statusCode b st =
     gobind (WriteHeader statusCode (setGKEMetadataServerHeaders contentType statusCode st)) (\<lambda>st.
       gobind (Write b st) (\<lambda>(st, err).
         observeRequest r statusCode (log_write err st)))"

definition RespondText :: "'c request \<Rightarrow> int \<Rightarrow> string \<Rightarrow> 's http \<Rightarrow> 's http go" where
  "RespondText r statusCode text = send r ''application/text'' statusCode (BText text)"

definition error_object :: "int \<Rightarrow> goerr \<Rightarrow> any list \<Rightarrow> any" where
  "error_object statusCode err errResp =
     AMap [(''error'', AString (Error err)), (''http_response'', responseLogFields statusCode errResp)]"

text \<open>
  \<open>RespondJSON\<close> calls \<open>RespondErrorf\<close> when the value cannot be marshalled, and that calls \<open>RespondJSON\<close>
  again with an object of strings and numbers, which can be. The recursion is unfolded once here;
  \<open>RespondJSON_eq\<close> below is the equation of the source.
\<close>

definition marshal_error :: "goerr \<Rightarrow> goerr" where
  "marshal_error e = errorf ''error marshaling json response: '' e"

definition RespondJSON :: "'c request \<Rightarrow> int \<Rightarrow> any \<Rightarrow> 's http \<Rightarrow> 's http go" where
  "RespondJSON r statusCode obj st =
     (case json_Marshal obj of
        None \<Rightarrow> send r ''application/json'' statusCode (BJSON obj) st
      | Some e \<Rightarrow> send r ''application/json'' 500 (BJSON (error_object 500 (marshal_error e) [])) st)"

definition RespondError :: "'c request \<Rightarrow> int \<Rightarrow> goerr \<Rightarrow> any list \<Rightarrow> 's http \<Rightarrow> 's http go" where
  "RespondError r statusCode err errResp = RespondJSON r statusCode (error_object statusCode err errResp)"

abbreviation RespondErrorf :: "'c request \<Rightarrow> int \<Rightarrow> goerr \<Rightarrow> 's http \<Rightarrow> 's http go" where
  "RespondErrorf r statusCode err \<equiv> RespondError r statusCode err []"

section \<open>Laws\<close>

lemma error_object_marshals: "json_Marshal (error_object statusCode err []) = None"
  by (simp add: error_object_def responseLogFields_def Let_def)

lemma RespondJSON_eq:
  "RespondJSON r statusCode obj st =
     (case json_Marshal obj of
        None \<Rightarrow> send r ''application/json'' statusCode (BJSON obj) st
      | Some e \<Rightarrow> RespondErrorf r 500 (marshal_error e) st)"
  using error_object_marshals by (simp add: RespondJSON_def RespondError_def split: option.split)

lemma w_sent_simps [simp]:
  "w_sent (log lv msg st) = w_sent st"
  "w_sent (setGKEMetadataServerHeaders ct code st) = w_sent st"
  "w_sent (log_write err st) = w_sent st"
  "w_sent (fresh s) = None"
  by (simp_all add: log_def setGKEMetadataServerHeaders_def log_write_def fresh_def Let_def split: option.split)

lemma app_simps [simp]:
  "app (log lv msg st) = app st"
  "app (setGKEMetadataServerHeaders ct code st) = app st"
  "app (log_write err st) = app st"
  "app (fresh s) = s"
  by (simp_all add: log_def setGKEMetadataServerHeaders_def log_write_def fresh_def Let_def split: option.split)

lemma w_body_simps [simp]:
  "w_body (log lv msg st) = w_body st"
  "w_body (setGKEMetadataServerHeaders ct code st) = w_body st"
  "w_body (log_write err st) = w_body st"
  "w_body (fresh s) = []"
  by (simp_all add: log_def setGKEMetadataServerHeaders_def log_write_def fresh_def Let_def split: option.split)

lemma w_observed_simps [simp]:
  "w_observed (log lv msg st) = w_observed st"
  "w_observed (setGKEMetadataServerHeaders ct code st) = w_observed st"
  "w_observed (log_write err st) = w_observed st"
  "w_observed (fresh s) = []"
  by (simp_all add: log_def setGKEMetadataServerHeaders_def log_write_def fresh_def Let_def split: option.split)

text \<open>A final status: one the server may send as the status of the response.\<close>

definition final_status :: "int \<Rightarrow> bool" where
  "final_status code \<longleftrightarrow> code = 101 \<or> 200 \<le> code \<and> code \<le> 999"

lemma WriteHeader_final:
  "final_status code \<Longrightarrow> w_sent st = None \<Longrightarrow> WriteHeader code st = Ret (st\<lparr>w_sent := Some (code, w_header st)\<rparr>)"
  by (auto simp: WriteHeader_def final_status_def)

text \<open>What a helper sends when nothing was sent before: the status with the headers of the program,
  the body where the status allows one, and one observation.\<close>

definition sent_headers :: "string \<Rightarrow> int \<Rightarrow> go_headers \<Rightarrow> go_headers" where
  "sent_headers ct code h = w_header (setGKEMetadataServerHeaders ct code ((fresh ())\<lparr>w_header := h\<rparr>))"

lemma send_sent:
  assumes "final_status code" "w_sent st = None" "rq_start r = Some t0"
  shows "\<exists>st'. send r ct code b st = Ret st' \<and>
    w_sent st' = Some (code, sent_headers ct code (w_header st)) \<and>
    w_body st' = w_body st @ (if b \<noteq> BText [] \<and> bodyAllowedForStatus code then [b] else []) \<and>
    w_observed st' = w_observed st @ [(rq_method r, rq_path r, code)] \<and> app st' = app st"
proof -
  have "w_header (setGKEMetadataServerHeaders ct code st) = sent_headers ct code (w_header st)"
    by (simp add: sent_headers_def setGKEMetadataServerHeaders_def Let_def)
  then show ?thesis
    using assms by (simp add: send_def WriteHeader_final Write_def observeRequest_def Let_def split_def)
qed

text \<open>The only panics: a status outside 100 to 999, and a request that was not initialised.\<close>

lemma send_panics:
  assumes "w_sent st = None"
  shows "panics (send r ct code b st) \<longleftrightarrow> code < 100 \<or> 999 < code \<or> rq_start r = None"
  using assms
  by (auto simp: send_def WriteHeader_def Write_def observeRequest_def Let_def split_def split: option.split)

definition succeeded :: "int \<Rightarrow> bool" where
  "succeeded code \<longleftrightarrow> 200 \<le> code \<and> code < 300"

lemma sent_headers_flavor:
  assumes "header_get h MetadataFlavorHeader = []"
  shows "header_get (sent_headers ct code h) MetadataFlavorHeader =
    (if succeeded code then MetadataFlavorGoogle else [])"
proof -
  have skip: "map_of (filter (\<lambda>kv. fst kv \<noteq> ''Content-Type'') h) ''Metadata-Flavor'' = map_of h ''Metadata-Flavor''"
    by (induction h) auto
  show ?thesis
    using assms skip
    by (auto simp: sent_headers_def setGKEMetadataServerHeaders_def succeeded_def header_set_def header_get_def
        MetadataFlavorHeader_def Let_def split: option.splits)
qed

end
