(* ===== verification/Http_Directory.thy ===== *)
theory Http_Directory
  imports Http_Response
begin

text \<open>
  \<open>internal/http/directory_handler.go\<close>: the tree of directories and handlers, the registration of
  patterns, and the dispatch of requests. A handler is a function of the request and of the state of
  the response writer; it returns a metadata value or, after it has responded, an error.
\<close>

section \<open>The tree\<close>

type_synonym ('c, 's) getter = "'c request \<Rightarrow> 's http \<Rightarrow> (any res \<times> 's http) go"

type_synonym ('c, 's) lister = "'c request \<Rightarrow> 's http \<Rightarrow> ((string list \<times> 'c request) res \<times> 's http) go"

text \<open>The two dynamic types of a \<open>MetadataHandler\<close>: \<open>MetadataHandlerFunc\<close> and \<open>TokenHandler\<close>.\<close>

datatype 'h MetadataHandler = MetadataHandlerFunc 'h | TokenHandler 'h

text \<open>The dynamic value of an edge, \<open>nil\<close> until something is registered behind it. A node has its static
  edges in the order of their registration, its parameter edge and its lister.\<close>

datatype ('h, 'l) edge_value =
    VNil
  | VHandler "'h MetadataHandler"
  | VDir "('h, 'l) directoryNode"
and ('h, 'l) directoryNode =
    Node (children: "(string \<times> ('h, 'l) edge_value) list")
      (pathParam: "(string \<times> ('h, 'l) edge_value) option")
      (dirLister: "'l option")

definition empty_node :: "('h, 'l) directoryNode" where
  "empty_node = Node [] None None"

definition splitPathPieces :: "string \<Rightarrow> string list" where
  "splitPathPieces path = filter (\<lambda>s. s \<noteq> []) (map TrimSpace (Split (CHR ''/'') path))"

text \<open>The name of a recursive entry: the letter after a hyphen is raised, hyphens are dropped. Names are
  ASCII.\<close>

fun camel :: "bool \<Rightarrow> string \<Rightarrow> string" where
  "camel up [] = []"
| "camel up (c # cs) =
     (if c = CHR ''-'' then camel True cs
      else (if up then upper_byte c else c) # camel False cs)"

definition camelCaseFromKebab :: "string \<Rightarrow> string" where
  "camelCaseFromKebab s = camel False s"

section \<open>Registration\<close>

text \<open>What a call registers: a handler, or the lister of the directory that contains the parameter.\<close>

datatype ('h, 'l) registration = RegHandler "'h MetadataHandler" | RegLister 'l

text \<open>The edge a piece selects: the parameter edge or the static edge with its name.\<close>

datatype edge_ref = ParamEdge | StaticEdge string

fun edge_get :: "('h, 'l) directoryNode \<Rightarrow> edge_ref \<Rightarrow> ('h, 'l) edge_value" where
  "edge_get n ParamEdge = (case pathParam n of Some (_, v) \<Rightarrow> v | None \<Rightarrow> VNil)"
| "edge_get n (StaticEdge name) = (case map_of (children n) name of Some v \<Rightarrow> v | None \<Rightarrow> VNil)"

fun update_first :: "string \<Rightarrow> 'v \<Rightarrow> (string \<times> 'v) list \<Rightarrow> (string \<times> 'v) list" where
  "update_first k v [] = []"
| "update_first k v ((k', v') # kvs) = (if k' = k then (k, v) # kvs else (k', v') # update_first k v kvs)"

fun edge_put :: "('h, 'l) directoryNode \<Rightarrow> edge_ref \<Rightarrow> ('h, 'l) edge_value \<Rightarrow> ('h, 'l) directoryNode" where
  "edge_put (Node cs p l) ParamEdge v = Node cs (map_option (\<lambda>(name, _). (name, v)) p) l"
| "edge_put (Node cs p l) (StaticEdge name) v = Node (update_first name v cs) p l"

text \<open>The first part of \<open>handle\<close>: find or create the edge of the first piece.\<close>

definition find_edge :: "string \<Rightarrow> string list \<Rightarrow> ('h, 'l) directoryNode \<Rightarrow> (('h, 'l) directoryNode \<times> edge_ref) go" where
  "find_edge prefix path n =
     (let piece = hd path;
          panicPrefix = (if prefix = [] then ''/'' else prefix);
          panicPath = Join (prefix # path) ''/''
      in if HasPrefix piece ''$'' then
           (case pathParam n of
              None \<Rightarrow>
                if children n \<noteq> []
                then Panic (''conflicting static directory and parameterized directory: '' @ panicPrefix @
                       '' with children {'' @ Join (map fst (children n)) '', '' @ ''} and '' @ panicPath)
                else Ret (Node (children n) (Some (piece, VNil)) (dirLister n), ParamEdge)
            | Some (name, _) \<Rightarrow>
                if name = piece then Ret (n, ParamEdge)
                else Panic (''conflicting parameterized directories: '' @ prefix @ ''/'' @ name @ '' and '' @ panicPath))
         else
           (case pathParam n of
              Some (name, _) \<Rightarrow>
                Panic (''conflicting parameterized directory and static directory: '' @ prefix @ ''/'' @ name @
                  '' and '' @ panicPath)
            | None \<Rightarrow>
                if piece \<in> fst ` set (children n) then Ret (n, StaticEdge piece)
                else Ret (Node (children n @ [(piece, VNil)]) (pathParam n) (dirLister n), StaticEdge piece)))"

text \<open>The base case: the last piece of the pattern.\<close>

definition register :: "string \<Rightarrow> string \<Rightarrow> ('h, 'l) registration \<Rightarrow> ('h, 'l) directoryNode \<Rightarrow> edge_ref \<Rightarrow>
    ('h, 'l) directoryNode go" where
  "register prefix piece reg n e =
     (let panicPrefix = (if prefix = [] then ''/'' else prefix) in
      case reg of
        RegLister l \<Rightarrow>
          if dirLister n \<noteq> None then Panic (''conflicting directory listers: '' @ panicPrefix)
          else if pathParam n = None then Panic (''directory lister with no path parameter: '' @ panicPrefix)
          else Ret (Node (children n) (pathParam n) (Some l))
      | RegHandler h \<Rightarrow>
          (case edge_get n e of
             VNil \<Rightarrow> Ret (edge_put n e (VHandler h))
           | _ \<Rightarrow> Panic (''conflicting handlers: '' @ prefix @ ''/'' @ piece)))"

fun handle :: "string \<Rightarrow> string list \<Rightarrow> ('h, 'l) registration \<Rightarrow> ('h, 'l) directoryNode \<Rightarrow>
    ('h, 'l) directoryNode go" where
  "handle prefix [] reg n = Panic ''index out of range [0] with length 0''"
| "handle prefix [piece] reg n =
     gobind (find_edge prefix [piece] n) (\<lambda>(n, e). register prefix piece reg n e)"
| "handle prefix (piece # q # rest) reg n =
     gobind (find_edge prefix (piece # q # rest) n) (\<lambda>(n, e).
       case edge_get n e of
         VNil \<Rightarrow> gobind (handle (prefix @ ''/'' @ piece) (q # rest) reg empty_node) (\<lambda>c. Ret (edge_put n e (VDir c)))
       | VDir c \<Rightarrow> gobind (handle (prefix @ ''/'' @ piece) (q # rest) reg c) (\<lambda>c. Ret (edge_put n e (VDir c)))
       | VHandler _ \<Rightarrow> Panic (''conflicting handlers: '' @ prefix @ ''/'' @ piece @ '' and '' @
           Join (prefix # piece # q # rest) ''/''))"

definition HandleMetadata :: "string \<Rightarrow> 'h MetadataHandler option \<Rightarrow> ('h, 'l) directoryNode \<Rightarrow> ('h, 'l) directoryNode go" where
  "HandleMetadata pattern handler n =
     (case handler of
        None \<Rightarrow> Panic ''nil handler''
      | Some h \<Rightarrow>
          (let path = splitPathPieces pattern in
           if path = [] then Panic ''cannot handle empty path'' else handle [] path (RegHandler h) n))"

definition HandleDirectory :: "string \<Rightarrow> 'l option \<Rightarrow> ('h, 'l) directoryNode \<Rightarrow> ('h, 'l) directoryNode go" where
  "HandleDirectory pattern dir_lister n =
     (case dir_lister of
        None \<Rightarrow> Panic ''nil directory lister''
      | Some l \<Rightarrow>
          (let path = splitPathPieces pattern in
           if path = [] then Panic ''cannot handle directory on empty path'' else handle [] path (RegLister l) n))"

section \<open>Serving metadata\<close>

text \<open>\<open>%T\<close> of a metadata value.\<close>

fun type_name :: "any \<Rightarrow> string" where
  "type_name ANil = ''<nil>''"
| "type_name (AString _) = ''string''"
| "type_name (AInt _) = ''int''"
| "type_name (AStrings _) = ''[]string''"
| "type_name (AMap _) = ''map[string]interface {}''"
| "type_name (AUnsupported t) = t"

definition lines_text :: "string list \<Rightarrow> string" where
  "lines_text xs = Join xs [CHR 0x0A] @ [CHR 0x0A]"

definition serve_value :: "'c request \<Rightarrow> any \<Rightarrow> 's http \<Rightarrow> 's http go" where
  "serve_value r v st =
     (case v of
        AString metadata \<Rightarrow> RespondText r 200 metadata st
      | AStrings metadata \<Rightarrow> RespondText r 200 (lines_text metadata) st
      | AMap metadata \<Rightarrow> RespondJSON r 200 (AMap metadata) st
      | _ \<Rightarrow> RespondErrorf r 500 (ErrorString (''unsupported metadata type: '' @ type_name v)) st)"

fun GetMetadata :: "('c, 's) getter MetadataHandler \<Rightarrow> ('c, 's) getter" where
  "GetMetadata (MetadataHandlerFunc f) = f"
| "GetMetadata (TokenHandler f) = f"

definition serveMetadata :: "('c, 's) getter MetadataHandler \<Rightarrow> 'c request \<Rightarrow> 's http \<Rightarrow> 's http go" where
  "serveMetadata handler r st =
     gobind (GetMetadata handler r st) (\<lambda>(res, st).
       case res of
         Inl _ \<Rightarrow> Ret st
       | Inr v \<Rightarrow> serve_value r v st)"

section \<open>The recursive listing\<close>

type_synonym ('c, 's) builder = "'c request \<Rightarrow> 's http \<Rightarrow> (any option res \<times> 's http) go"

text \<open>Assignment to a key of a Go map; the order of the entries is not observable.\<close>

definition map_set :: "string \<Rightarrow> any \<Rightarrow> (string \<times> any) list \<Rightarrow> (string \<times> any) list" where
  "map_set k v m = filter (\<lambda>kv. fst kv \<noteq> k) m @ [(k, v)]"

definition map_set_opt :: "string \<Rightarrow> any option \<Rightarrow> (string \<times> any) list \<Rightarrow> (string \<times> any) list" where
  "map_set_opt k md m = (case md of None \<Rightarrow> m | Some v \<Rightarrow> map_set k v m)"

fun build_children :: "(string \<times> ('c, 's) builder) list \<Rightarrow> 'c request \<Rightarrow> 's http \<Rightarrow> (string \<times> any) list \<Rightarrow>
    ((string \<times> any) list res \<times> 's http) go" where
  "build_children [] r st m = Ret (Inr m, st)"
| "build_children ((name, b) # bs) r st m =
     gobind (b r st) (\<lambda>(res, st).
       case res of
         Inl e \<Rightarrow> Ret (Inl e, st)
       | Inr md \<Rightarrow> build_children bs r st (map_set_opt (camelCaseFromKebab name) md m))"

fun build_entries :: "(string \<times> ('c, 's) builder) option \<Rightarrow> string list \<Rightarrow> 'c request \<Rightarrow> 's http \<Rightarrow>
    (string \<times> any) list \<Rightarrow> ((string \<times> any) list res \<times> 's http) go" where
  "build_entries p [] r st m = Ret (Inr m, st)"
| "build_entries p (entry # es) r st m =
     (case p of
        None \<Rightarrow> Panic ''invalid memory address or nil pointer dereference''
      | Some (_, b) \<Rightarrow>
          gobind (b r st) (\<lambda>(res, st).
            case res of
              Inl e \<Rightarrow> Ret (Inl e, st)
            | Inr md \<Rightarrow> build_entries p es r st (map_set_opt entry md m)))"

primrec buildValueRecursive :: "(('c, 's) getter, ('c, 's) lister) edge_value \<Rightarrow> ('c, 's) builder"
  and buildRecursive :: "(('c, 's) getter, ('c, 's) lister) directoryNode \<Rightarrow> 'c request \<Rightarrow> 's http \<Rightarrow>
    ((string \<times> any) list res \<times> 's http) go" where
  "buildValueRecursive VNil = (\<lambda>r st. Ret (Inr (Some ANil), st))"
| "buildValueRecursive (VHandler h) =
     (case h of
        TokenHandler _ \<Rightarrow> (\<lambda>r st. Ret (Inr None, st))
      | MetadataHandlerFunc f \<Rightarrow> (\<lambda>r st. gobind (f r st) (\<lambda>(res, st).
          Ret (case res of Inl e \<Rightarrow> Inl e | Inr v \<Rightarrow> Inr (Some v), st))))"
| "buildValueRecursive (VDir n) =
     (\<lambda>r st. gobind (buildRecursive n r st) (\<lambda>(res, st).
        Ret (case res of Inl e \<Rightarrow> Inl e | Inr m \<Rightarrow> Inr (Some (AMap m)), st)))"
| "buildRecursive (Node cs p l) =
     (\<lambda>r st. gobind (build_children (map (map_prod (\<lambda>x. x) buildValueRecursive) cs) r st []) (\<lambda>(res, st).
        case res of
          Inl e \<Rightarrow> Ret (Inl e, st)
        | Inr m \<Rightarrow>
            (case l of
               None \<Rightarrow> Ret (Inr m, st)
             | Some ls \<Rightarrow>
                 gobind (ls r st) (\<lambda>(res, st).
                   case res of
                     Inl e \<Rightarrow> Ret (Inl e, st)
                   | Inr (entries, r) \<Rightarrow>
                       build_entries (map_option (map_prod (\<lambda>x. x) buildValueRecursive) p) entries r st m))))"

section \<open>Directory listings\<close>

text \<open>\<open>http.Redirect\<close> of \<open>net/http\<close> with the URL it is given; the cleaning of the path that precedes the
  \<open>Location\<close> header is left out, and the HTML page is kept as its link.\<close>

definition http_Redirect :: "'c request \<Rightarrow> string \<Rightarrow> int \<Rightarrow> 's http \<Rightarrow> 's http go" where
  "http_Redirect r url code st =
     (let hadCT = ''Content-Type'' \<in> fst ` set (w_header st);
          st = st\<lparr>w_header := header_set ''Location'' url (w_header st)\<rparr>;
          st = (if \<not> hadCT \<and> (rq_method r = ''GET'' \<or> rq_method r = ''HEAD'')
                then st\<lparr>w_header := header_set ''Content-Type'' ''text/html; charset=utf-8'' (w_header st)\<rparr> else st)
      in gobind (WriteHeader code st) (\<lambda>st.
           if \<not> hadCT \<and> rq_method r = ''GET''
           then gobind (Write (BText url) st) (\<lambda>(st, _). Ret st) else Ret st))"

fun is_dir :: "('h, 'l) edge_value \<Rightarrow> bool" where
  "is_dir (VDir _) = True"
| "is_dir _ = False"

definition entry_text :: "string \<Rightarrow> ('h, 'l) edge_value \<Rightarrow> string" where
  "entry_text name v = (if is_dir v then name @ ''/'' else name)"

definition list_directory :: "(('c, 's) getter, ('c, 's) lister) directoryNode \<Rightarrow> 'c request \<Rightarrow> 's http \<Rightarrow> 's http go" where
  "list_directory n r st =
     (let dirEntries = map (\<lambda>(name, v). entry_text name v) (children n) in
      case dirLister n of
        None \<Rightarrow> RespondText r 200 (lines_text dirEntries) st
      | Some ls \<Rightarrow>
          gobind (ls r st) (\<lambda>(res, st).
            case res of
              Inl _ \<Rightarrow> Ret st
            | Inr (moreDirEntries, r) \<Rightarrow>
                (case pathParam n of
                   None \<Rightarrow> if moreDirEntries = [] then RespondText r 200 (lines_text dirEntries) st
                           else Panic ''invalid memory address or nil pointer dereference''
                 | Some (_, v) \<Rightarrow>
                     RespondText r 200 (lines_text (dirEntries @ map (\<lambda>e. entry_text e v) moreDirEntries)) st)))"

definition is_v1 :: "string \<Rightarrow> bool" where
  "is_v1 path = HasPrefix path ''/computeMetadata/v1''"

definition node_ServeHTTP :: "(('c, 's) getter, ('c, 's) lister) directoryNode \<Rightarrow> 'c request \<Rightarrow> 's http \<Rightarrow> 's http go" where
  "node_ServeHTTP n r st =
     (if \<not> HasSuffix (rq_path r) ''/'' then
        gobind (http_Redirect r (rq_path r @ ''/'') 301 st) (\<lambda>st. Ret (log LDebug ''directory redirect'' st))
      else if is_v1 (rq_path r) \<and> ToLower (header_get (rq_query r) ''recursive'') = ''true'' then
        gobind (buildRecursive n r st) (\<lambda>(res, st).
          case res of
            Inl _ \<Rightarrow> Ret st
          | Inr m \<Rightarrow> RespondJSON r 200 (AMap m) st)
      else list_directory n r st)"

section \<open>Dispatch\<close>

definition not_found :: "string \<Rightarrow> 's http \<Rightarrow> 's http go" where
  "not_found msg st = gobind (RespondNotFound st) (\<lambda>st. Ret (log LDebug msg st))"

text \<open>What happens at the edge a piece selected, with the pieces that are left.\<close>

definition serve_leaf :: "(('c, 's) getter, ('c, 's) lister) edge_value \<Rightarrow> 'c request \<Rightarrow> 's http \<Rightarrow> 's http go" where
  "serve_leaf v r st =
     (case v of
        VDir d \<Rightarrow> node_ServeHTTP d r st
      | VHandler h \<Rightarrow> serveMetadata h r st
      | VNil \<Rightarrow> Panic ''interface conversion: interface is nil, not MetadataHandler'')"

fun walk :: "string list \<Rightarrow> (('c, 's) getter, ('c, 's) lister) directoryNode \<Rightarrow> 'c request \<Rightarrow> 's http \<Rightarrow> 's http go" where
  "walk [] u r st = Ret st"
| "walk (piece # rest) u r st =
     (let continue = (\<lambda>v r st.
            if rest = [] then serve_leaf v r st
            else (case v of VDir d \<Rightarrow> walk rest d r st | _ \<Rightarrow> not_found ''path not found'' st))
      in case pathParam u of
           Some (_, v) \<Rightarrow>
             (case dirLister u of
                None \<Rightarrow> Panic ''invalid memory address or nil pointer dereference''
              | Some ls \<Rightarrow>
                  gobind (ls r st) (\<lambda>(res, st).
                    case res of
                      Inl _ \<Rightarrow> Ret st
                    | Inr (entries, r) \<Rightarrow>
                        if piece \<notin> set entries then not_found ''dynamic directory entry not found'' st
                        else continue v r st))
         | None \<Rightarrow>
             (case map_of (children u) piece of
                None \<Rightarrow> not_found ''static directory entry not found'' st
              | Some v \<Rightarrow> continue v r st))"

definition missing_flavor :: string where
  "missing_flavor = ''Missing required header '' @ Quote MetadataFlavorHeader @ '': '' @ Quote MetadataFlavorGoogle @ [CHR 0x0A]"

definition ServeHTTP :: "(('c, 's) getter, ('c, 's) lister) directoryNode \<Rightarrow> 'c request \<Rightarrow> 's http \<Rightarrow> 's http go" where
  "ServeHTTP h r st =
     (if is_v1 (rq_path r) \<and> header_get (rq_header r) MetadataFlavorHeader \<noteq> MetadataFlavorGoogle then
        gobind (WriteHeader 403 st) (\<lambda>st. gobind (Write (BText missing_flavor) st) (\<lambda>(st, _). Ret st))
      else (let pieces = splitPathPieces (rq_path r) in
        if pieces = [] then node_ServeHTTP h r (log LDebug ''empty path'' st)
        else walk pieces h r st))"

text \<open>\<open>MarshalJSON\<close> of a node, the value the program logs at start.\<close>

fun handler_type :: "'h MetadataHandler \<Rightarrow> string" where
  "handler_type (MetadataHandlerFunc _) = ''pkghttp.MetadataHandlerFunc''"
| "handler_type (TokenHandler _) = ''pkghttp.TokenHandler''"

definition node_map :: "(string \<times> any) list \<Rightarrow> (string \<times> any) option \<Rightarrow> any" where
  "node_map cs p =
     (let m = fold (\<lambda>(name, v). map_set (camelCaseFromKebab name) v) cs [] in
      AMap (case p of None \<Rightarrow> m | Some (name, v) \<Rightarrow> map_set name v m))"

primrec marshal_value :: "('h, 'l) edge_value \<Rightarrow> any"
  and MarshalJSON :: "('h, 'l) directoryNode \<Rightarrow> any" where
  "marshal_value VNil = AString ''<nil>''"
| "marshal_value (VHandler h) = AString (handler_type h)"
| "marshal_value (VDir n) = MarshalJSON n"
| "MarshalJSON (Node cs p l) = node_map (map (map_prod (\<lambda>x. x) marshal_value) cs) (map_option (map_prod (\<lambda>x. x) marshal_value) p)"

section \<open>The tree as a table of patterns\<close>

definition edge_at :: "('h, 'l) directoryNode \<Rightarrow> string \<Rightarrow> ('h, 'l) edge_value option" where
  "edge_at n piece =
     (if HasPrefix piece ''$''
      then (case pathParam n of Some (name, v) \<Rightarrow> if name = piece then Some v else None | None \<Rightarrow> None)
      else map_of (children n) piece)"

text \<open>The handler registered for a pattern and the lister registered for a pattern that ends in a
  parameter.\<close>

fun route :: "('h, 'l) directoryNode \<Rightarrow> string list \<Rightarrow> 'h MetadataHandler option" where
  "route n [] = None"
| "route n [p] = (case edge_at n p of Some (VHandler h) \<Rightarrow> Some h | _ \<Rightarrow> None)"
| "route n (p # q # rest) = (case edge_at n p of Some (VDir d) \<Rightarrow> route d (q # rest) | _ \<Rightarrow> None)"

fun lister_at :: "('h, 'l) directoryNode \<Rightarrow> string list \<Rightarrow> 'l option" where
  "lister_at n [] = None"
| "lister_at n [p] = (if HasPrefix p ''$'' \<and> edge_at n p \<noteq> None then dirLister n else None)"
| "lister_at n (p # q # rest) = (case edge_at n p of Some (VDir d) \<Rightarrow> lister_at d (q # rest) | _ \<Rightarrow> None)"

text \<open>Well-formed nodes: either static edges with different names or one parameter edge, and a lister
  only beside a parameter.\<close>

inductive wf_value :: "('h, 'l) edge_value \<Rightarrow> bool" and wf_node :: "('h, 'l) directoryNode \<Rightarrow> bool" where
  "wf_value VNil"
| "wf_value (VHandler h)"
| "wf_node n \<Longrightarrow> wf_value (VDir n)"
| "distinct (map fst cs) \<Longrightarrow> \<forall>kv\<in>set cs. \<not> HasPrefix (fst kv) ''$'' \<Longrightarrow> \<forall>kv\<in>set cs. wf_value (snd kv) \<Longrightarrow>
   wf_node (Node cs None None)"
| "HasPrefix name ''$'' \<Longrightarrow> wf_value v \<Longrightarrow> wf_node (Node [] (Some (name, v)) l)"

inductive_cases wf_value_DirE [elim!]: "wf_value (VDir n)"
inductive_simps wf_node_simps: "wf_node (Node cs p l)"
inductive_simps wf_value_simps [simp]: "wf_value VNil" "wf_value (VHandler h)" "wf_value (VDir n)"

lemma wf_empty_node: "wf_node empty_node"
  by (simp add: empty_node_def wf_node_simps)

lemma edge_at_empty [simp]: "edge_at empty_node p = None"
  by (simp add: edge_at_def empty_node_def)

lemma update_first_keys: "map fst (update_first k v cs) = map fst cs"
  by (induction cs) auto

lemma map_of_update_first:
  "map_of cs k = Some w \<Longrightarrow> map_of (update_first k v cs) = (map_of cs)(k \<mapsto> v)"
  by (induction cs) (auto split: if_splits)

lemma update_first_values: "\<forall>kv\<in>set cs. P (snd kv) \<Longrightarrow> P v \<Longrightarrow> \<forall>kv\<in>set (update_first k v cs). P (snd kv)"
  by (induction cs) (fastforce split: if_splits)+

lemma update_first_names: "\<forall>kv\<in>set cs. P (fst kv) \<Longrightarrow> \<forall>kv\<in>set (update_first k v cs). P (fst kv)"
  by (induction cs) (fastforce split: if_splits)+

text \<open>The edge of a piece after \<open>find_edge\<close>.\<close>

definition ref_of :: "string \<Rightarrow> edge_ref" where
  "ref_of piece = (if HasPrefix piece ''$'' then ParamEdge else StaticEdge piece)"

lemma find_edge_Ret:
  assumes "wf_node n" "find_edge prefix (piece # rest) n = Ret (n1, e)"
  shows "wf_node n1 \<and> e = ref_of piece \<and> dirLister n1 = dirLister n \<and>
    edge_at n1 = (edge_at n)(piece \<mapsto> edge_get n1 e) \<and>
    edge_get n1 e = (case edge_at n piece of Some v \<Rightarrow> v | None \<Rightarrow> VNil)"
proof -
  obtain cs p l where n: "n = Node cs p l" by (cases n)
  show ?thesis
  proof (cases "HasPrefix piece ''$''")
    case True
    then show ?thesis using assms n
      by (cases p) (auto simp: find_edge_def ref_of_def edge_at_def wf_node_simps Let_def fun_eq_iff split: if_splits)
  next
    case False
    then have p: "p = None" using assms(2) n
      by (cases p) (auto simp: find_edge_def Let_def)
    show ?thesis
    proof (cases "piece \<in> fst ` set cs")
      case True
      then have "n1 = n" "e = StaticEdge piece"
        using assms(2) False n p by (auto simp: find_edge_def Let_def)
      moreover obtain w where "map_of cs piece = Some w"
        using True by (metis map_of_eq_None_iff not_None_eq)
      ultimately show ?thesis using assms(1) False n p
        by (auto simp: ref_of_def edge_at_def fun_eq_iff)
    next
      case new: False
      then have "n1 = Node (cs @ [(piece, VNil)]) p l" "e = StaticEdge piece"
        using assms(2) False n p by (auto simp: find_edge_def Let_def)
      moreover have "map_of cs piece = None" using new by (simp add: map_of_eq_None_iff image_iff)
      ultimately show ?thesis using assms(1) new False n p
        by (auto simp: ref_of_def edge_at_def fun_eq_iff wf_node_simps map_add_def split: option.splits)
    qed
  qed
qed

lemma edge_put_at:
  assumes "wf_node n" "edge_at n piece = Some w" "wf_value v"
  shows "wf_node (edge_put n (ref_of piece) v) \<and> dirLister (edge_put n (ref_of piece) v) = dirLister n \<and>
    edge_at (edge_put n (ref_of piece) v) = (edge_at n)(piece \<mapsto> v)"
proof -
  obtain cs p l where n: "n = Node cs p l" by (cases n)
  show ?thesis
  proof (cases "HasPrefix piece ''$''")
    case True
    then show ?thesis
      using assms n by (auto simp: ref_of_def edge_at_def wf_node_simps fun_eq_iff split: option.splits if_splits)
  next
    case False
    then have w: "map_of cs piece = Some w" using assms(2) n by (simp add: edge_at_def)
    then have "p = None \<and> l = None"
      using assms(1) n by (auto simp: wf_node_simps)
    then show ?thesis
      using assms n False w map_of_update_first [OF w, of v]
      by (auto simp: ref_of_def edge_at_def wf_node_simps update_first_keys fun_eq_iff
          dest: bspec [OF update_first_values] bspec [OF update_first_names])
  qed
qed

text \<open>A registration that does not panic adds one entry to one of the two tables and changes nothing
  else.\<close>

definition registered :: "('h, 'l) registration \<Rightarrow> string list \<Rightarrow> ('h, 'l) directoryNode \<Rightarrow> ('h, 'l) directoryNode \<Rightarrow> bool" where
  "registered reg path n n' \<longleftrightarrow>
     wf_node n' \<and>
     (case reg of
        RegHandler h \<Rightarrow> route n path = None \<and> route n' = (route n)(path \<mapsto> h) \<and> lister_at n' = lister_at n
      | RegLister l \<Rightarrow> lister_at n path = None \<and> route n' = route n \<and> lister_at n' = (lister_at n)(path \<mapsto> l))"

lemma route_put:
  assumes "edge_at n' = (edge_at n)(p \<mapsto> v)"
  shows "route n' path = (case path of
      [] \<Rightarrow> None
    | q # rest \<Rightarrow> if q \<noteq> p then route n path
        else (case v of
            VHandler h \<Rightarrow> if rest = [] then Some h else None
          | VDir d \<Rightarrow> route d rest
          | VNil \<Rightarrow> None))"
  using assms
  by (cases "(n, path)" rule: route.cases) (auto split: edge_value.splits)

lemma lister_put:
  assumes "edge_at n' = (edge_at n)(p \<mapsto> v)"
  shows "lister_at n' path = (case path of
      [] \<Rightarrow> None
    | q # rest \<Rightarrow>
        if rest = [] then (if HasPrefix q ''$'' \<and> (q = p \<or> edge_at n q \<noteq> None) then dirLister n' else None)
        else if q \<noteq> p then lister_at n path
        else (case v of VDir d \<Rightarrow> lister_at d rest | _ \<Rightarrow> None))"
  using assms
  by (cases "(n, path)" rule: lister_at.cases) (auto split: edge_value.splits)

lemma param_unique: "edge_at n p \<noteq> None \<Longrightarrow> edge_at n q \<noteq> None \<Longrightarrow> HasPrefix p ''$'' \<Longrightarrow> HasPrefix q ''$'' \<Longrightarrow> p = q"
  by (auto simp: edge_at_def split: option.splits if_splits)

lemma lister_edge: "wf_node n \<Longrightarrow> dirLister n \<noteq> None \<Longrightarrow> \<exists>p. HasPrefix p ''$'' \<and> edge_at n p \<noteq> None"
  by (cases n) (auto simp: wf_node_simps edge_at_def)

text \<open>What the edge of the first piece was before the registration.\<close>

lemma found_edge_conflict:
  assumes "wf_node n" "find_edge prefix (p # rest) n = Ret (n1, e)" "HasPrefix q ''$''" "edge_at n q \<noteq> None"
  shows "q = p"
proof -
  have e: "edge_at n1 = (edge_at n)(p \<mapsto> edge_get n1 e)" "wf_node n1"
    using find_edge_Ret [OF assms(1,2)] by auto
  then have q: "edge_at n1 q \<noteq> None" "edge_at n1 p \<noteq> None" using assms(4) by auto
  show ?thesis
  proof (cases "HasPrefix p ''$''")
    case True
    then show ?thesis using param_unique [OF q] assms(3) by simp
  next
    case False
    then have "children n1 \<noteq> []" "pathParam n1 \<noteq> None"
      using q assms(3) by (auto simp: edge_at_def split: option.splits if_splits)
    then show ?thesis using e(2) by (cases n1) (auto simp: wf_node_simps)
  qed
qed

lemma lister_unchanged:
  assumes "wf_node n" "find_edge prefix (p # rest) n = Ret (n1, e)" "dirLister n' = dirLister n"
    and "HasPrefix q ''$''" "q = p \<or> edge_at n q \<noteq> None"
  shows "dirLister n' = lister_at n [q]"
proof (cases "edge_at n q")
  case (Some v)
  then show ?thesis using assms(3,4) by simp
next
  case None
  then have "q = p" using assms(5) by simp
  have "dirLister n = None"
  proof (rule ccontr)
    assume "dirLister n \<noteq> None"
    then obtain q' where "HasPrefix q' ''$''" "edge_at n q' \<noteq> None"
      using lister_edge [OF assms(1)] by auto
    then show False using found_edge_conflict [OF assms(1,2)] None \<open>q = p\<close> by auto
  qed
  then show ?thesis using assms(3) None by simp
qed

lemma register_handler:
  assumes n: "wf_node n" and f: "find_edge prefix [p] n = Ret (n1, e)" and "register prefix p (RegHandler h) n1 e = Ret n'"
  shows "registered (RegHandler h) [p] n n'"
proof -
  have n1: "wf_node n1" "e = ref_of p" "dirLister n1 = dirLister n"
      "edge_at n1 = (edge_at n)(p \<mapsto> edge_get n1 e)"
      "edge_get n1 e = (case edge_at n p of Some v \<Rightarrow> v | None \<Rightarrow> VNil)"
    using find_edge_Ret [OF n f] by auto
  have nil: "edge_get n1 e = VNil" and n': "n' = edge_put n1 e (VHandler h)"
    using assms(3) by (auto simp: register_def split: edge_value.splits)
  have "edge_at n1 p = Some (edge_get n1 e)" by (subst n1(4)) simp
  then have put: "wf_node n'" "dirLister n' = dirLister n" "edge_at n' = (edge_at n)(p \<mapsto> VHandler h)"
    using edge_put_at [OF n1(1), of p "edge_get n1 e" "VHandler h"] n1(2,3,4) n' by auto
  have old: "edge_at n p = None \<or> edge_at n p = Some VNil"
    using nil n1(5) by (auto split: option.splits)
  have "route n' path = ((route n)([p] \<mapsto> h)) path" for path
    unfolding route_put [OF put(3)]
    using old by (cases "(n, path)" rule: route.cases) (auto split: edge_value.splits)
  moreover have "lister_at n' path = lister_at n path" for path
    unfolding lister_put [OF put(3)]
    using old lister_unchanged [OF n f put(2)]
    by (cases "(n, path)" rule: lister_at.cases) (auto split: edge_value.splits if_splits)
  ultimately show ?thesis using put(1) old by (auto simp: registered_def)
qed

lemma register_lister:
  assumes n: "wf_node n" and f: "find_edge prefix [p] n = Ret (n1, e)" and "register prefix p (RegLister l) n1 e = Ret n'"
  shows "registered (RegLister l) [p] n n'"
proof -
  have n1: "wf_node n1" "dirLister n1 = dirLister n" "edge_at n1 = (edge_at n)(p \<mapsto> edge_get n1 e)"
      "edge_get n1 e = (case edge_at n p of Some v \<Rightarrow> v | None \<Rightarrow> VNil)"
    using find_edge_Ret [OF n f] by auto
  have d: "dirLister n1 = None" "pathParam n1 \<noteq> None" and n': "n' = Node (children n1) (pathParam n1) (Some l)"
    using assms(3) by (auto simp: register_def Let_def split: if_splits)
  have wf': "wf_node n'" using n1(1) d(2) n' by (cases n1) (auto simp: wf_node_simps)
  have "edge_at n' = edge_at n1" using n' by (simp add: edge_at_def fun_eq_iff)
  then have e': "edge_at n' = (edge_at n)(p \<mapsto> edge_get n1 e)" using n1(3) by simp
  have dollar: "HasPrefix p ''$''"
  proof (rule ccontr)
    assume "\<not> HasPrefix p ''$''"
    moreover have "edge_at n1 p \<noteq> None" by (subst n1(3)) simp
    ultimately have "children n1 \<noteq> []" by (auto simp: edge_at_def)
    then show False using d(2) n1(1) by (cases n1) (auto simp: wf_node_simps)
  qed
  have "route n' path = route n path" for path
    unfolding route_put [OF e']
    using n1(4) by (cases "(n, path)" rule: route.cases) (auto split: edge_value.splits option.splits)
  moreover have "lister_at n' path = ((lister_at n)([p] \<mapsto> l)) path" for path
  proof (cases "(n, path)" rule: lister_at.cases)
    case (2 m q)
    have one: "path = [q]" "dirLister n' = Some l" using 2 n' by simp_all
    have "HasPrefix q ''$'' \<longrightarrow> edge_at n q = None" if "q \<noteq> p"
      using found_edge_conflict [OF n f] that by blast
    then show ?thesis
      using lister_put [OF e', of path] one dollar by (cases "q = p"; cases "HasPrefix q ''$''") simp_all
  next
    case (3 m q q' rest)
    then show ?thesis unfolding lister_put [OF e'] using n1(4) by (auto split: edge_value.splits option.splits)
  qed simp
  moreover have "lister_at n [p] = None" using d(1) n1(2) by simp
  ultimately show ?thesis using wf' by (auto simp: registered_def)
qed

lemma register_registered:
  assumes "wf_node n" "find_edge prefix [p] n = Ret (n1, e)" "register prefix p reg n1 e = Ret n'"
  shows "registered reg [p] n n'"
proof (cases reg)
  case (RegHandler h)
  then show ?thesis using register_handler [OF assms(1,2)] assms(3) by simp
next
  case (RegLister l)
  then show ?thesis using register_lister [OF assms(1,2)] assms(3) by simp
qed

text \<open>Registration below an edge: the tables of the subtree become the tables below the piece.\<close>

lemma registered_below:
  assumes n: "wf_node n" and f: "find_edge prefix (p # path) n = Ret (n1, e)" and path: "path \<noteq> []"
    and c: "edge_get n1 e = VDir c \<or> edge_get n1 e = VNil \<and> c = empty_node"
    and r: "registered reg path c c'"
  shows "registered reg (p # path) n (edge_put n1 e (VDir c'))"
proof -
  let ?n' = "edge_put n1 e (VDir c')"
  have n1: "wf_node n1" "e = ref_of p" "dirLister n1 = dirLister n"
      "edge_at n1 = (edge_at n)(p \<mapsto> edge_get n1 e)"
      "edge_get n1 e = (case edge_at n p of Some v \<Rightarrow> v | None \<Rightarrow> VNil)"
    using find_edge_Ret [OF n f] by auto
  have "edge_at n1 p = Some (edge_get n1 e)" by (subst n1(4)) simp
  then have put: "wf_node ?n'" "dirLister ?n' = dirLister n" "edge_at ?n' = (edge_at n)(p \<mapsto> VDir c')"
    using edge_put_at [OF n1(1), of p "edge_get n1 e" "VDir c'"] n1(2,3,4) r by (auto simp: registered_def)
  have old: "edge_at n p = Some (VDir c) \<or> (edge_at n p = None \<or> edge_at n p = Some VNil) \<and> c = empty_node"
    using c n1(5) by (auto split: option.splits)
  have route_c: "route n (p # rest) = route c rest" if "rest \<noteq> []" for rest
    using that old by (cases rest; cases "tl rest") auto
  have lister_c: "lister_at n (p # rest) = lister_at c rest" if "rest \<noteq> []" for rest
    using that old by (cases rest; cases "tl rest") auto
  have route': "route ?n' path' = (case path' of q # rest \<Rightarrow>
      if q = p \<and> rest \<noteq> [] then route c' rest else route n path' | [] \<Rightarrow> None)" for path'
    unfolding route_put [OF put(3)] using old by (auto split: list.split)
  have lister': "lister_at ?n' path' = (case path' of q # rest \<Rightarrow>
      if q = p \<and> rest \<noteq> [] then lister_at c' rest else lister_at n path' | [] \<Rightarrow> None)" for path'
    unfolding lister_put [OF put(3)]
    using lister_unchanged [OF n f put(2)] by (auto split: list.split)
  show ?thesis
  proof (cases reg)
    case (RegHandler h)
    then have "route ?n' path' = ((route n)(p # path \<mapsto> h)) path'" "lister_at ?n' path' = lister_at n path'" for path'
      unfolding route' lister' using r path route_c lister_c
      by (auto simp: registered_def split: list.split)
    then show ?thesis using RegHandler r put(1) route_c [OF path] by (auto simp: registered_def)
  next
    case (RegLister l)
    then have "route ?n' path' = route n path'" "lister_at ?n' path' = ((lister_at n)(p # path \<mapsto> l)) path'" for path'
      unfolding route' lister' using r path route_c lister_c
      by (auto simp: registered_def split: list.split)
    then show ?thesis using RegLister r put(1) lister_c [OF path] by (auto simp: registered_def)
  qed
qed

lemma handle_registered:
  "wf_node n \<Longrightarrow> handle prefix path reg n = Ret n' \<Longrightarrow> registered reg path n n'"
proof (induction prefix path reg n arbitrary: n' rule: handle.induct)
  case (2 prefix piece reg n)
  then obtain n1 e where f: "find_edge prefix [piece] n = Ret (n1, e)" "register prefix piece reg n1 e = Ret n'"
    by (auto simp: gobind_Ret_iff)
  then show ?case by (rule register_registered [OF 2(1)])
next
  case (3 prefix piece q rest reg n)
  then obtain n1 e where f: "find_edge prefix (piece # q # rest) n = Ret (n1, e)"
    by (auto simp: gobind_Ret_iff)
  have wf1: "wf_node n1" and e: "edge_get n1 e = (case edge_at n piece of Some v \<Rightarrow> v | None \<Rightarrow> VNil)"
      "edge_at n1 piece = Some (edge_get n1 e)"
    using find_edge_Ret [OF 3(3) f] by (auto simp: fun_eq_iff)
  show ?case
  proof (cases "edge_get n1 e")
    case VNil
    then obtain c' where c': "handle (prefix @ ''/'' @ piece) (q # rest) reg empty_node = Ret c'"
        "n' = edge_put n1 e (VDir c')"
      using 3(4) f by (auto simp: gobind_Ret_iff)
    have "registered reg (q # rest) empty_node c'"
      by (rule 3(1) [OF VNil wf_empty_node c'(1)])
    then show ?thesis using registered_below [OF 3(3) f] VNil c'(2) by auto
  next
    case (VDir c)
    then obtain c' where c': "handle (prefix @ ''/'' @ piece) (q # rest) reg c = Ret c'"
        "n' = edge_put n1 e (VDir c')"
      using 3(4) f by (auto simp: gobind_Ret_iff)
    have "wf_node c" using wf1 e(2) VDir
      by (cases n1) (auto simp: wf_node_simps edge_at_def dest: map_of_SomeD split: if_splits)
    then have "registered reg (q # rest) c c'"
      using 3(2) [OF VDir _ c'(1)] by simp
    then show ?thesis using registered_below [OF 3(3) f] VDir c'(2) by auto
  next
    case (VHandler h)
    then show ?thesis using 3(4) f by auto
  qed
qed simp

section \<open>Every request is answered\<close>

text \<open>
  A complete tree: every edge leads to a handler or a directory and a parameter has its lister. The
  handlers and listers are taken from given sets.
\<close>

inductive complete_value :: "'h set \<Rightarrow> 'l set \<Rightarrow> ('h, 'l) edge_value \<Rightarrow> bool"
  and complete_node :: "'h set \<Rightarrow> 'l set \<Rightarrow> ('h, 'l) directoryNode \<Rightarrow> bool" for H L where
  "f \<in> H \<Longrightarrow> complete_value H L (VHandler (MetadataHandlerFunc f))"
| "f \<in> H \<Longrightarrow> complete_value H L (VHandler (TokenHandler f))"
| "complete_node H L n \<Longrightarrow> complete_value H L (VDir n)"
| "\<forall>kv\<in>set cs. complete_value H L (snd kv) \<Longrightarrow> complete_node H L (Node cs None None)"
| "\<forall>kv\<in>set cs. complete_value H L (snd kv) \<Longrightarrow> complete_value H L v \<Longrightarrow> ls \<in> L \<Longrightarrow>
     complete_node H L (Node cs (Some (name, v)) (Some ls))"

inductive_simps complete_value_simps: "complete_value H L VNil" "complete_value H L (VHandler h)"
  "complete_value H L (VDir n)"
inductive_simps complete_node_simps: "complete_node H L (Node cs p l)"

text \<open>
  The contract of a handler and of a lister: on a request that satisfies \<open>ok_req\<close>, in an application
  state that satisfies \<open>ok_app\<close> and with nothing sent yet, it does not panic, keeps \<open>ok_app\<close>, and has
  sent a response exactly if it returns an error. Under this contract every request to a complete tree
  gets a response.
\<close>

locale metadata_endpoints =
  fixes ok_req :: "'c request \<Rightarrow> bool" and ok_app :: "'s \<Rightarrow> bool"
    and getters :: "('c, 's) getter set" and listers :: "('c, 's) lister set"
  assumes ok_start: "ok_req r \<Longrightarrow> rq_start r \<noteq> None"
    and getter_contract: "f \<in> getters \<Longrightarrow> ok_req r \<Longrightarrow> ok_app (app st) \<Longrightarrow> w_sent st = None \<Longrightarrow>
      \<exists>res st'. f r st = Ret (res, st') \<and> ok_app (app st') \<and> (w_sent st' = None \<longleftrightarrow> \<not> isl res)"
    and lister_contract: "ls \<in> listers \<Longrightarrow> ok_req r \<Longrightarrow> ok_app (app st) \<Longrightarrow> w_sent st = None \<Longrightarrow>
      \<exists>res st'. ls r st = Ret (res, st') \<and> ok_app (app st') \<and> (w_sent st' = None \<longleftrightarrow> \<not> isl res) \<and>
        (\<forall>entries r'. res = Inr (entries, r') \<longrightarrow> ok_req r')"
begin

definition answered :: "'s http go \<Rightarrow> bool" where
  "answered m \<longleftrightarrow> (\<exists>st'. m = Ret st' \<and> w_sent st' \<noteq> None \<and> ok_app (app st'))"

definition ready :: "'c request \<Rightarrow> 's http \<Rightarrow> bool" where
  "ready r st \<longleftrightarrow> ok_req r \<and> ok_app (app st) \<and> w_sent st = None"

lemma answered_log [simp]: "answered (Ret (log lv msg st)) = answered (Ret st)"
  by (simp add: answered_def)

lemma answered_not_found: "ready r st \<Longrightarrow> answered (not_found msg st)"
  by (simp add: not_found_def RespondNotFound_def answered_def ready_def WriteHeader_def)

lemma answered_send: "ready r st \<Longrightarrow> final_status code \<Longrightarrow> answered (send r ct code b st)"
  using ok_start [of r] send_sent [of code st r _ ct b] by (fastforce simp: answered_def ready_def)

lemma answered_text: "ready r st \<Longrightarrow> final_status code \<Longrightarrow> answered (RespondText r code t st)"
  by (simp add: RespondText_def answered_send)

lemma answered_json: "ready r st \<Longrightarrow> final_status code \<Longrightarrow> answered (RespondJSON r code v st)"
  by (auto simp: RespondJSON_def answered_send final_status_def split: option.split)

lemma answered_error: "ready r st \<Longrightarrow> final_status code \<Longrightarrow> answered (RespondError r code e d st)"
  by (simp add: RespondError_def answered_json)

lemma answered_value: "ready r st \<Longrightarrow> answered (serve_value r v st)"
  by (auto simp: serve_value_def final_status_def intro: answered_text answered_json answered_error split: any.split)

text \<open>The result of a handler, a lister or a recursive listing, handled by its caller.\<close>

definition delivers :: "'c request \<Rightarrow> ('b res \<times> 's http) go \<Rightarrow> bool" where
  "delivers r m \<longleftrightarrow>
     (case m of Ret (Inr _, st') \<Rightarrow> ready r st' | Ret (Inl _, st') \<Rightarrow> answered (Ret st') | Panic _ \<Rightarrow> False)"

lemma delivers_simps [simp]:
  "delivers r (Ret (Inr x, st)) = ready r st"
  "delivers r (Ret (Inl e, st)) = answered (Ret st)"
  "\<not> delivers r (Panic s)"
  by (simp_all add: delivers_def)

lemma deliversE:
  assumes "delivers r m"
  obtains (error) e st' where "m = Ret (Inl e, st')" "answered (Ret st')"
    | (result) x st' where "m = Ret (Inr x, st')" "ready r st'"
proof (cases m)
  case (Ret p)
  then show ?thesis using that assms by (cases p; cases "fst p") auto
next
  case (Panic s)
  then show ?thesis using assms by simp
qed

lemma delivers_getter: "f \<in> getters \<Longrightarrow> ready r st \<Longrightarrow> delivers r (f r st)"
  using getter_contract [of f r st] by (auto simp: delivers_def ready_def answered_def split: sum.split)

lemma delivers_lister: "ls \<in> listers \<Longrightarrow> ready r st \<Longrightarrow> delivers r (ls r st)"
  using lister_contract [of ls r st] by (auto simp: delivers_def ready_def answered_def split: sum.split)

lemma lister_ready:
  "ls \<in> listers \<Longrightarrow> ready r st \<Longrightarrow> ls r st = Ret (Inr (entries, r'), st') \<Longrightarrow> ready r' st'"
  using lister_contract [of ls r st] by (auto simp: ready_def)

lemma answered_bind:
  assumes "delivers r m" "\<And>x st'. m = Ret (Inr x, st') \<Longrightarrow> ready r st' \<Longrightarrow> answered (k x st')"
  shows "answered (gobind m (\<lambda>(res, st). case res of Inl e \<Rightarrow> Ret st | Inr x \<Rightarrow> k x st))"
  using assms by (auto elim!: deliversE)

lemma delivers_bind:
  assumes "delivers r m" "\<And>x st'. m = Ret (Inr x, st') \<Longrightarrow> ready r st' \<Longrightarrow> delivers r (k x st')"
  shows "delivers r (gobind m (\<lambda>(res, st). case res of Inl e \<Rightarrow> Ret (Inl e, st) | Inr x \<Rightarrow> k x st))"
  using assms by (auto elim!: deliversE)

lemma delivers_ready: "delivers r m \<Longrightarrow> ok_req r' \<Longrightarrow> delivers r' m"
  by (auto elim!: deliversE simp: ready_def)

lemma delivers_wrap:
  "delivers r m \<Longrightarrow> delivers r (gobind m (\<lambda>(res, st). Ret (case res of Inl e \<Rightarrow> Inl e | Inr v \<Rightarrow> Inr (g v), st)))"
  by (auto elim!: deliversE)

lemma delivers_children:
  assumes "ready r st" "\<forall>nb\<in>set bs. \<forall>st. ready r st \<longrightarrow> delivers r (snd nb r st)"
  shows "delivers r (build_children bs r st m)"
  using assms
proof (induction bs arbitrary: st m)
  case (Cons nb bs)
  then show ?case by (cases nb) (auto intro!: delivers_bind)
qed simp

lemma delivers_entries:
  assumes "\<And>st. ready r st \<Longrightarrow> delivers r (b r st)" "ready r st"
  shows "delivers r (build_entries (Some (name, b)) es r st m)"
  using assms(2) by (induction es arbitrary: st m) (auto intro!: delivers_bind assms(1))

lemma delivers_recursive:
  "complete_value getters listers v \<Longrightarrow> \<forall>r st. ready r st \<longrightarrow> delivers r (buildValueRecursive v r st)"
  "complete_node getters listers n \<Longrightarrow> \<forall>r st. ready r st \<longrightarrow> delivers r (buildRecursive n r st)"
proof (induction rule: complete_value_complete_node.inducts)
  case (4 cs)
  then have "delivers r (build_children (map (map_prod (\<lambda>x. x) buildValueRecursive) cs) r st [])"
    if "ready r st" for r st
    using that by (intro delivers_children) auto
  then show ?case by (auto intro!: delivers_bind)
next
  case (5 cs v ls name)
  show ?case
  proof (intro allI impI)
    fix r st assume ready: "ready r st"
    have cs: "delivers r (build_children (map (map_prod (\<lambda>x. x) buildValueRecursive) cs) r st [])"
      using 5 ready by (intro delivers_children) auto
    have "delivers r (build_entries (Some (name, buildValueRecursive v)) entries r' st2 m)"
      if "ready r st1" "ls r st1 = Ret (Inr (entries, r'), st2)" for st1 st2 entries r' m
    proof -
      have "ready r' st2" using lister_ready 5 that by blast
      then show ?thesis
        using 5 ready by (intro delivers_ready [OF delivers_entries, of r']) (auto simp: ready_def)
    qed
    then show "delivers r (buildRecursive (Node cs (Some (name, v)) (Some ls)) r st)"
      using cs 5 by (auto intro!: delivers_bind delivers_lister)
  qed
qed (auto intro!: delivers_wrap delivers_getter)

lemma answered_redirect: "ready r st \<Longrightarrow> answered (http_Redirect r url 301 st)"
  by (auto simp: http_Redirect_def answered_def ready_def WriteHeader_def Write_def Let_def bodyAllowedForStatus_def)

lemma answered_listing:
  assumes "complete_node getters listers n" "ready r st"
  shows "answered (list_directory n r st)"
proof (cases "dirLister n")
  case None
  then show ?thesis using assms(2) by (simp add: list_directory_def Let_def answered_text final_status_def)
next
  case (Some ls)
  then obtain name v where "pathParam n = Some (name, v)" "ls \<in> listers"
    using assms(1) by (cases n) (auto simp: complete_node_simps)
  then show ?thesis
    using Some assms(2) lister_ready [of ls r st]
    by (auto simp: list_directory_def Let_def final_status_def intro!: answered_bind [OF delivers_lister] answered_text)
qed

lemma answered_node:
  assumes "complete_node getters listers n" "ready r st"
  shows "answered (node_ServeHTTP n r st)"
proof -
  have "delivers r (buildRecursive n r st)" using delivers_recursive(2) assms by blast
  moreover have "answered (gobind (http_Redirect r url 301 st) (\<lambda>st. Ret (log lv msg st)))" for url lv msg
    using answered_redirect [OF assms(2), of url] by (auto simp: answered_def)
  ultimately show ?thesis
    using answered_listing [OF assms]
    by (auto simp: node_ServeHTTP_def final_status_def intro!: answered_bind answered_json)
qed

lemma answered_metadata: "f \<in> getters \<Longrightarrow> GetMetadata h = f \<Longrightarrow> ready r st \<Longrightarrow> answered (serveMetadata h r st)"
  unfolding serveMetadata_def
  by (rule answered_bind [of r]) (simp_all add: delivers_getter answered_value)

lemma answered_leaf:
  assumes "complete_value getters listers v" "ready r st"
  shows "answered (serve_leaf v r st)"
  using assms answered_node answered_metadata
  by (cases v) (auto simp: serve_leaf_def complete_value_simps)

lemma answered_walk:
  assumes "complete_node getters listers n" "ready r st" "ps \<noteq> []"
  shows "answered (walk ps n r st)"
  using assms
proof (induction ps arbitrary: n r st)
  case (Cons piece rest)
  have cont: "answered (if rest = [] then serve_leaf v r st
      else (case v of VDir d \<Rightarrow> walk rest d r st | _ \<Rightarrow> not_found ''path not found'' st))"
    if "complete_value getters listers v" "ready r st" for v r st
    using that answered_leaf [OF that] Cons.IH [of _ r st] answered_not_found
    by (auto simp: complete_value_simps split: edge_value.split)
  show ?case
  proof (cases "pathParam n")
    case None
    have "complete_value getters listers v" if "map_of (children n) piece = Some v" for v
      using that Cons.prems(1) None map_of_SomeD [OF that] by (cases n) (auto simp: complete_node_simps)
    then show ?thesis
      using None cont Cons.prems(2) answered_not_found by (auto simp: Let_def split: option.split)
  next
    case (Some p)
    then obtain name v ls where p: "p = (name, v)" "dirLister n = Some ls" "ls \<in> listers" "complete_value getters listers v"
      using Cons.prems(1) by (cases n) (auto simp: complete_node_simps)
    show ?thesis
      unfolding walk.simps Let_def Some p(1,2) option.case prod.case
      by (rule answered_bind [OF delivers_lister [OF p(3) Cons.prems(2)]])
        (use cont [OF p(4)] lister_ready [OF p(3) Cons.prems(2)] answered_not_found in \<open>auto split: prod.split\<close>)
  qed
qed simp

lemma answered_request:
  assumes "complete_node getters listers n" "ready r st"
  shows "answered (ServeHTTP n r st)"
proof -
  have "ready r (log LDebug ''empty path'' st)" using assms(2) by (simp add: ready_def)
  moreover have "answered (gobind (WriteHeader 403 st) (\<lambda>st. gobind (Write (BText t) st) (\<lambda>(st, _). Ret st)))" for t
    using assms(2) by (auto simp: answered_def ready_def WriteHeader_def Write_def bodyAllowedForStatus_def)
  ultimately show ?thesis
    using answered_node [OF assms(1)] answered_walk [OF assms]
    by (simp add: ServeHTTP_def Let_def)
qed

end


lemma metadata_registered:
  "wf_node n \<Longrightarrow> HandleMetadata pattern (Some h) n = Ret n' \<Longrightarrow> registered (RegHandler h) (splitPathPieces pattern) n n'"
  using handle_registered [of n] by (simp add: HandleMetadata_def Let_def split: if_splits)

lemma directory_registered:
  "wf_node n \<Longrightarrow> HandleDirectory pattern (Some l) n = Ret n' \<Longrightarrow> registered (RegLister l) (splitPathPieces pattern) n n'"
  using handle_registered [of n] by (simp add: HandleDirectory_def Let_def split: if_splits)

text \<open>Pieces that are kept as they are.\<close>

definition plain_piece :: "string \<Rightarrow> bool" where
  "plain_piece p \<longleftrightarrow> p \<noteq> [] \<and> list_all (\<lambda>c. c \<noteq> CHR ''/'' \<and> 0x21 \<le> (of_char c :: nat) \<and> (of_char c :: nat) < 0x80) p"

lemma plain_piece_props: "plain_piece p \<Longrightarrow> p \<noteq> [] \<and> CHR ''/'' \<notin> set p \<and> TrimSpace p = p"
proof -
  assume p: "plain_piece p"
  then have "plain_byte c \<and> c \<noteq> CHR ''/''" if "c \<in> set p" for c
    using that plain_byte_ascii [of c] unfolding plain_piece_def list_all_iff by blast
  then show ?thesis using p TrimSpace_plain [of p] unfolding plain_piece_def
    by (metis hd_in_set last_in_set)
qed

lemma split_pieces_cons:
  assumes "plain_piece p"
  shows "splitPathPieces (p @ CHR ''/'' # rest) = p # splitPathPieces rest" "splitPathPieces p = [p]"
  using plain_piece_props [OF assms]
  by (simp_all add: splitPathPieces_def Split_append_sep Split_none)

lemma splitPathPieces_slash [simp]: "splitPathPieces (CHR ''/'' # rest) = splitPathPieces rest"
  by (simp add: splitPathPieces_def)

lemma splitPathPieces_Nil [simp]: "splitPathPieces [] = []"
  by (simp add: splitPathPieces_def)

lemma split_pieces_join:
  "list_all plain_piece ps \<Longrightarrow> splitPathPieces (CHR ''/'' # Join ps ''/'') = ps"
proof (induction ps "''/''" rule: Join.induct)
  case (3 x y zs)
  then show ?case using split_pieces_cons(1) [of x "Join (y # zs) ''/''"] by simp
qed (simp_all add: split_pieces_cons)

lemma plain_v1: "plain_piece ''computeMetadata''" "plain_piece ''v1''"
  by (simp_all add: plain_piece_def)

section \<open>Properties\<close>

text \<open>C31. A registration that does not panic keeps the tree well formed, never replaces an earlier
  registration, and adds exactly one entry to the table of handlers or to the table of listers; every
  other pattern keeps its handler and its lister.\<close>

theorem registration_adds:
  assumes "wf_node n"
  shows "(HandleMetadata pattern (Some h) n = Ret n' \<longrightarrow>
      wf_node n' \<and> route n (splitPathPieces pattern) = None \<and>
      route n' = (route n)(splitPathPieces pattern \<mapsto> h) \<and> lister_at n' = lister_at n) \<and>
    (HandleDirectory pattern (Some l) n = Ret n' \<longrightarrow>
      wf_node n' \<and> lister_at n (splitPathPieces pattern) = None \<and>
      route n' = route n \<and> lister_at n' = (lister_at n)(splitPathPieces pattern \<mapsto> l))"
  using metadata_registered [OF assms] directory_registered [OF assms] by (auto simp: registered_def)

theorem registration_adds_witness:
  "route (Node [(''a'', VDir (Node [(''b'', VHandler (TokenHandler (1 :: nat)))] None None))] None None :: (nat, nat) directoryNode)
     = (route (empty_node :: (nat, nat) directoryNode))([''a'', ''b''] \<mapsto> TokenHandler 1)"
proof -
  have p: "splitPathPieces ''/a/b'' = [''a'', ''b'']"
    using split_pieces_join [of "[''a'', ''b'']"] by (simp add: plain_piece_def)
  have "HandleMetadata ''/a/b'' (Some (TokenHandler 1)) empty_node =
      Ret (Node [(''a'', VDir (Node [(''b'', VHandler (TokenHandler (1 :: nat)))] None None))] None None :: (nat, nat) directoryNode)"
    using p by (simp add: HandleMetadata_def find_edge_def register_def Let_def empty_node_def HasPrefix_def)
  from conjunct1 [OF registration_adds [OF wf_empty_node], THEN mp, OF this]
  show ?thesis using p by simp
qed





text \<open>C38. The header is not required when the prefix is written with a doubled slash: the test looks at the
  raw path, while the dispatch drops empty pieces, so \<open>/computeMetadata//v1/\<close> and \<open>//computeMetadata/v1/\<close>
  reach the same handlers as \<open>/computeMetadata/v1/\<close>, without any header.\<close>

theorem flavor_bypass:
  fixes r :: "'c request"
  shows "ServeHTTP n (r\<lparr>rq_path := ''/computeMetadata//v1/'' @ rest\<rparr>) st =
      walk ([''computeMetadata'', ''v1''] @ splitPathPieces rest) n (r\<lparr>rq_path := ''/computeMetadata//v1/'' @ rest\<rparr>) st \<and>
    ServeHTTP n (r\<lparr>rq_path := ''//computeMetadata/v1/'' @ rest\<rparr>) st =
      walk ([''computeMetadata'', ''v1''] @ splitPathPieces rest) n (r\<lparr>rq_path := ''//computeMetadata/v1/'' @ rest\<rparr>) st \<and>
    splitPathPieces (''/computeMetadata/v1/'' @ rest) = [''computeMetadata'', ''v1''] @ splitPathPieces rest"
proof -
  have v1: "splitPathPieces (''v1'' @ CHR ''/'' # rest) = ''v1'' # splitPathPieces rest"
    using split_pieces_cons(1) [OF plain_v1(2), of rest] .
  have p: "splitPathPieces (''computeMetadata'' @ CHR ''/'' # s) = ''computeMetadata'' # splitPathPieces s" for s
    by (rule split_pieces_cons(1) [OF plain_v1(1)])
  have a: "splitPathPieces (''/computeMetadata/v1/'' @ rest) = [''computeMetadata'', ''v1''] @ splitPathPieces rest"
    using p [of "''v1'' @ CHR ''/'' # rest"] v1 by simp
  have b: "splitPathPieces (''/computeMetadata//v1/'' @ rest) = [''computeMetadata'', ''v1''] @ splitPathPieces rest"
    using p [of "''/v1'' @ CHR ''/'' # rest"] v1 by simp
  have c: "splitPathPieces (''//computeMetadata/v1/'' @ rest) = [''computeMetadata'', ''v1''] @ splitPathPieces rest"
    using a by simp
  have "\<not> is_v1 (''/computeMetadata//v1/'' @ rest)" "\<not> is_v1 (''//computeMetadata/v1/'' @ rest)"
    by (simp_all add: is_v1_def HasPrefix_def)
  then show ?thesis using a b c by (simp add: ServeHTTP_def Let_def)
qed

end
