(* ===== verification/Google_Credentials.thy ===== *)
theory Google_Credentials
  imports Go_Time Kube_Objects
begin

text \<open>
  \<open>internal/googlecredentials/google_credentials.go\<close> and \<open>internal/serviceaccounttokens/create/provider.go\<close>:
  the workload identity provider's name, the configuration of the token exchange, and the provider that
  creates every token anew. The exchange itself (\<open>externalaccount\<close>, \<open>impersonate\<close>, the token API of
  Kubernetes) is third-party code and a parameter.
\<close>

section \<open>google\_credentials.go\<close>

text \<open>\<open>workloadIdentityProviderRegex\<close>, matched on the pieces between slashes: the groups are the numeric
  project and the pool.\<close>

definition workloadIdentityProviderRegex :: "string \<Rightarrow> (string \<times> string) option" where
  "workloadIdentityProviderRegex s =
     (case Split (CHR ''/'') s of
        [a, project, b, c, d, pool, e, provider] \<Rightarrow>
          if a = ''projects'' \<and> b = ''locations'' \<and> c = ''global'' \<and> d = ''workloadIdentityPools'' \<and> e = ''providers'' \<and>
             project \<noteq> [] \<and> list_all is_digit project \<and> pool \<noteq> [] \<and> provider \<noteq> []
          then Some (project, pool) else None
      | _ \<Rightarrow> None)"

definition provider_pattern_text :: string where
  "provider_pattern_text = ''^projects/('' @ [CHR 0x5C] @
     ''d+)/locations/global/workloadIdentityPools/([^/]+)/providers/[^/]+$''"

definition AccessScopes :: "string list" where
  "AccessScopes = [''https://www.googleapis.com/auth/cloud-platform'', ''https://www.googleapis.com/auth/userinfo.email'']"

record Config =
  WorkloadIdentityProvider :: string

definition NewConfig :: "string \<Rightarrow> (Config \<times> string \<times> string) res" where
  "NewConfig provider =
     (case workloadIdentityProviderRegex provider of
        None \<Rightarrow> Inl (ErrorString (''workload identity provider name does not match pattern: '' @ provider_pattern_text))
      | Some (numericProjectID, workloadIdentityPool) \<Rightarrow>
          Inr (\<lparr>WorkloadIdentityProvider = provider\<rparr>, numericProjectID, workloadIdentityPool))"

definition WorkloadIdentityProviderAudience :: "Config \<Rightarrow> string" where
  "WorkloadIdentityProviderAudience c = ''//iam.googleapis.com/'' @ WorkloadIdentityProvider c"

text \<open>The fields of \<open>externalaccount.Config\<close> the source sets, and the token of \<open>oauth2\<close>.\<close>

record ext_config =
  UniverseDomain :: string
  Audience :: string
  SubjectTokenType :: string
  TokenURL :: string
  Scopes :: "string list"
  SubjectToken :: string
  ServiceAccountImpersonationURL :: string
  TokenInfoURL :: string

record oauth2_token =
  AccessToken :: string
  Expiry :: gotime

definition ext_config_of :: "Config \<Rightarrow> string \<Rightarrow> string option \<Rightarrow> string list \<Rightarrow> ext_config" where
  "ext_config_of c subjectToken googleServiceAccountEmail scopes =
     \<lparr>UniverseDomain = ''googleapis.com'', Audience = WorkloadIdentityProviderAudience c,
      SubjectTokenType = ''urn:ietf:params:oauth:token-type:jwt'', TokenURL = ''https://sts.googleapis.com/v1/token'',
      Scopes = (if scopes = [] then AccessScopes else scopes), SubjectToken = subjectToken,
      ServiceAccountImpersonationURL = (case googleServiceAccountEmail of
          Some email \<Rightarrow> ''https://iamcredentials.googleapis.com/v1/projects/-/serviceAccounts/'' @ email @ '':generateAccessToken''
        | None \<Rightarrow> []),
      TokenInfoURL = (case googleServiceAccountEmail of Some _ \<Rightarrow> [] | None \<Rightarrow> ''https://sts.googleapis.com/v1/introspect'')\<rparr>"

text \<open>\<open>exchange\<close> is \<open>externalaccount.NewTokenSource\<close> followed by \<open>Token\<close> on the source.\<close>

definition NewToken :: "(ext_config \<Rightarrow> oauth2_token res) \<Rightarrow> Config \<Rightarrow> string \<Rightarrow> string option \<Rightarrow> string list \<Rightarrow>
    oauth2_token res" where
  "NewToken exchange c subjectToken googleServiceAccountEmail scopes =
     exchange (ext_config_of c subjectToken googleServiceAccountEmail scopes)"

section \<open>create/provider.go\<close>

record AccessTokens =
  DirectAccess :: string
  Impersonated :: string

text \<open>The third-party calls: the token request of Kubernetes (namespace, name, audiences), the exchange,
  and the identity token (access token, target principal, audience).\<close>

record token_backend =
  CreateToken :: "string \<Rightarrow> string \<Rightarrow> string list \<Rightarrow> (string \<times> gotime) res"
  Exchange :: "ext_config \<Rightarrow> oauth2_token res"
  IDToken :: "string \<Rightarrow> string \<Rightarrow> string \<Rightarrow> (string \<times> gotime) res"

definition create_GetServiceAccountToken :: "token_backend \<Rightarrow> Config \<Rightarrow> Reference \<Rightarrow> (string \<times> gotime) res" where
  "create_GetServiceAccountToken be c ref =
     CreateToken be (ref_Namespace ref) (ref_Name ref) [WorkloadIdentityProviderAudience c]"

definition create_GetGoogleAccessTokens :: "token_backend \<Rightarrow> Config \<Rightarrow> gotime \<Rightarrow> string \<Rightarrow> string option \<Rightarrow> string list \<Rightarrow>
    (AccessTokens \<times> gotime) res" where
  "create_GetGoogleAccessTokens be c now saToken googleEmail scopes =
     (let expiration = Add now (365 * 24 * Hour) in
      ebind (if \<not> (googleEmail \<noteq> None \<and> scopes \<noteq> [])
             then ebind (NewToken (Exchange be) c saToken None scopes) (\<lambda>token. Inr (AccessToken token, Expiry token))
             else Inr ([], expiration)) (\<lambda>(directAccess, expiration).
      ebind (if googleEmail \<noteq> None
             then ebind (NewToken (Exchange be) c saToken googleEmail scopes) (\<lambda>token.
                    Inr (AccessToken token, if Before (Expiry token) expiration then Expiry token else expiration))
             else Inr ([], expiration)) (\<lambda>(impersonated, expiration).
      Inr (\<lparr>DirectAccess = directAccess, Impersonated = impersonated\<rparr>, expiration))))"

definition create_GetGoogleIdentityToken :: "token_backend \<Rightarrow> string \<Rightarrow> string \<Rightarrow> string \<Rightarrow> (string \<times> gotime) res" where
  "create_GetGoogleIdentityToken be accessToken googleEmail audience = IDToken be accessToken googleEmail audience"

section \<open>Laws\<close>

lemma provider_regex_Some:
  "workloadIdentityProviderRegex s = Some (project, pool) \<longleftrightarrow>
     (\<exists>provider. s = ''projects/'' @ project @ ''/locations/global/workloadIdentityPools/'' @ pool @ ''/providers/'' @ provider \<and>
        project \<noteq> [] \<and> list_all is_digit project \<and> pool \<noteq> [] \<and> CHR ''/'' \<notin> set pool \<and>
        provider \<noteq> [] \<and> CHR ''/'' \<notin> set provider)"
proof
  assume "workloadIdentityProviderRegex s = Some (project, pool)"
  then obtain provider where p: "Split (CHR ''/'') s =
      [''projects'', project, ''locations'', ''global'', ''workloadIdentityPools'', pool, ''providers'', provider]"
      "project \<noteq> []" "list_all is_digit project" "pool \<noteq> []" "provider \<noteq> []"
    by (auto simp: workloadIdentityProviderRegex_def split: list.splits if_splits)
  have "s = Join (Split (CHR ''/'') s) [CHR ''/'']" by (simp add: Join_Split)
  then have "s = ''projects/'' @ project @ ''/locations/global/workloadIdentityPools/'' @ pool @ ''/providers/'' @ provider"
    unfolding p(1) by simp
  moreover have "CHR ''/'' \<notin> set pool" "CHR ''/'' \<notin> set provider"
    using Split_no_sep [of pool "CHR ''/''" s] Split_no_sep [of provider "CHR ''/''" s] p(1) by simp_all
  ultimately show "\<exists>provider. s = ''projects/'' @ project @ ''/locations/global/workloadIdentityPools/'' @ pool @ ''/providers/'' @ provider \<and>
      project \<noteq> [] \<and> list_all is_digit project \<and> pool \<noteq> [] \<and> CHR ''/'' \<notin> set pool \<and> provider \<noteq> [] \<and> CHR ''/'' \<notin> set provider"
    using p by blast
next
  assume "\<exists>provider. s = ''projects/'' @ project @ ''/locations/global/workloadIdentityPools/'' @ pool @ ''/providers/'' @ provider \<and>
      project \<noteq> [] \<and> list_all is_digit project \<and> pool \<noteq> [] \<and> CHR ''/'' \<notin> set pool \<and> provider \<noteq> [] \<and> CHR ''/'' \<notin> set provider"
  then obtain provider where s: "s = ''projects/'' @ project @ ''/locations/global/workloadIdentityPools/'' @ pool @ ''/providers/'' @ provider"
    and p: "project \<noteq> []" "list_all is_digit project" "pool \<noteq> []" "CHR ''/'' \<notin> set pool" "provider \<noteq> []" "CHR ''/'' \<notin> set provider"
    by blast
  let ?ps = "[''projects'', project, ''locations'', ''global'', ''workloadIdentityPools'', pool, ''providers'', provider]"
  have "\<not> is_digit (CHR ''/'')" by (simp add: is_digit_def)
  then have "CHR ''/'' \<notin> set project" using p(2) by (auto simp: list_all_iff)
  then have "Split (CHR ''/'') (Join ?ps [CHR ''/'']) = ?ps"
    using p by (intro Split_Join) simp_all
  moreover have "s = Join ?ps [CHR ''/'']" by (simp add: s)
  ultimately show "workloadIdentityProviderRegex s = Some (project, pool)"
    using p by (simp add: workloadIdentityProviderRegex_def)
qed


lemma Before_irrefl: "\<not> Before t t"
  by (simp add: Before_def split: option.splits)

lemma Before_asym: "Before t u \<Longrightarrow> \<not> Before u t"
  by (auto simp: Before_def split: option.splits)

section \<open>Properties\<close>

text \<open>A workload identity provider's name is accepted exactly when it has the documented form, and the
  numeric project and the pool that are returned are the ones written in it.\<close>

lemma new_config_parses:
  "NewConfig s = Inr (c, project, pool) \<longleftrightarrow>
     c = \<lparr>WorkloadIdentityProvider = s\<rparr> \<and>
     (\<exists>provider. s = ''projects/'' @ project @ ''/locations/global/workloadIdentityPools/'' @ pool @ ''/providers/'' @ provider \<and>
        project \<noteq> [] \<and> list_all is_digit project \<and> pool \<noteq> [] \<and> CHR ''/'' \<notin> set pool \<and>
        provider \<noteq> [] \<and> CHR ''/'' \<notin> set provider)"
  unfolding provider_regex_Some [symmetric] by (auto simp: NewConfig_def split: option.splits)

text \<open>Without custom scopes both tokens are exchanged for the same subject token.\<close>

lemma exchanged_tokens:
  assumes "create_GetGoogleAccessTokens be c now saToken googleEmail [] = Inr (tokens, expiration)"
  shows "\<exists>tok. Exchange be (ext_config_of c saToken None []) = Inr tok \<and> DirectAccess tokens = AccessToken tok"
    and "googleEmail = None \<Longrightarrow> Impersonated tokens = []"
    and "googleEmail = Some email \<Longrightarrow> \<exists>tok. Exchange be (ext_config_of c saToken (Some email) []) = Inr tok \<and> Impersonated tokens = AccessToken tok"
  using assms by (auto simp: create_GetGoogleAccessTokens_def NewToken_def Let_def ebind_Inr_iff split: if_splits)

text \<open>The tokens the creating provider returns come from exchanges of the pod's own service account
  token: the direct one without impersonation, made unless scopes are requested for an impersonated
  account, and the impersonated one for the annotated account, made exactly when there is one, both with
  the requested scopes or the default ones. The reported expiration is not after either token's expiry.\<close>

lemma create_tokens_issued:
  assumes "create_GetGoogleAccessTokens be c now saToken googleEmail scopes = Inr (tokens, expiration)"
  shows "(if googleEmail = None \<or> scopes = []
      then \<exists>tok. Exchange be (ext_config_of c saToken None scopes) = Inr tok \<and>
        DirectAccess tokens = AccessToken tok \<and> \<not> Before (Expiry tok) expiration
      else DirectAccess tokens = []) \<and>
    (case googleEmail of
       None \<Rightarrow> Impersonated tokens = []
     | Some email \<Rightarrow> \<exists>tok. Exchange be (ext_config_of c saToken (Some email) scopes) = Inr tok \<and>
         Impersonated tokens = AccessToken tok \<and> \<not> Before (Expiry tok) expiration)"
  using assms Before_irrefl Before_asym
  by (auto simp: create_GetGoogleAccessTokens_def NewToken_def Let_def ebind_Inr_iff split: if_splits option.splits)

definition example_backend :: token_backend where
  "example_backend = \<lparr>CreateToken = (\<lambda>ns name aud. Inr (ns @ ''/'' @ name, time_Unix 5000)),
     Exchange = (\<lambda>conf. Inr \<lparr>AccessToken = SubjectToken conf @ ServiceAccountImpersonationURL conf,
       Expiry = time_Unix (if ServiceAccountImpersonationURL conf = [] then 5000 else 4000)\<rparr>),
     IDToken = (\<lambda>tok email aud. Inr (tok, time_Unix 5000))\<rparr>"

lemma create_tokens_issued_example:
  "\<exists>tok. Exchange example_backend (ext_config_of \<lparr>WorkloadIdentityProvider = ''p''\<rparr> ''ns/sa'' (Some ''a@b'') []) = Inr tok \<and>
     \<not> Before (Expiry tok) (time_Unix 4000)"
proof -
  have "create_GetGoogleAccessTokens example_backend \<lparr>WorkloadIdentityProvider = ''p''\<rparr> (time_Unix 1000) ''ns/sa'' (Some ''a@b'') [] =
      Inr (\<lparr>DirectAccess = ''ns/sa'', Impersonated = ''ns/sa'' @
        ''https://iamcredentials.googleapis.com/v1/projects/-/serviceAccounts/'' @ ''a@b'' @ '':generateAccessToken''\<rparr>, time_Unix 4000)"
    by (simp add: create_GetGoogleAccessTokens_def NewToken_def example_backend_def ext_config_of_def Before_def
        time_Unix_def Second_def)
  from create_tokens_issued [OF this] show ?thesis by auto
qed

end
