(* ===== verification/Preflight.thy ===== *)
theory Preflight
  imports Kube_Objects "HOL-Library.Multiset"
begin

text \<open>
  \<open>internal/preflight/preflight.go\<close>: parsing of \<open>/etc/os-release\<close> and the check of the container's
  operating system. A Go map that is iterated is a list of its entries in the order of the iteration,
  which Go leaves open.
\<close>

section \<open>Parsing\<close>

definition dquote :: char where "dquote = CHR 0x22"
definition squote :: char where "squote = CHR 0x27"

definition map_put :: "string \<Rightarrow> string \<Rightarrow> go_map \<Rightarrow> go_map" where
  "map_put k v m = (k, v) # filter (\<lambda>kv. fst kv \<noteq> k) m"

definition quoted :: "string \<Rightarrow> bool" where
  "quoted value \<longleftrightarrow>
     HasPrefix value [dquote] \<and> HasSuffix value [dquote] \<or> HasPrefix value [squote] \<and> HasSuffix value [squote]"

text \<open>\<open>value[1 : len(value)-1]\<close>, which panics on a string of one byte.\<close>

definition unquote :: "string \<Rightarrow> string go" where
  "unquote value =
     (if \<not> quoted value then Ret value
      else if length value < 2 then Panic ''slice bounds out of range [1:0]''
      else Ret (butlast (tl value)))"

definition os_release_line :: "string \<Rightarrow> go_map \<Rightarrow> go_map go" where
  "os_release_line line0 result =
     (let line = TrimSpace line0 in
      if line = [] \<or> HasPrefix line ''#'' then Ret result
      else (let parts = SplitN 2 (CHR ''='') line in
        if length parts \<noteq> 2 then Ret result
        else gobind (unquote (TrimSpace (parts ! 1))) (\<lambda>value.
          Ret (map_put (TrimSpace (parts ! 0)) value result))))"

fun os_release_lines :: "string list \<Rightarrow> go_map \<Rightarrow> go_map go" where
  "os_release_lines [] result = Ret result"
| "os_release_lines (line # lines) result = gobind (os_release_line line result) (os_release_lines lines)"

definition ParseOSRelease :: "string \<Rightarrow> go_map res go" where
  "ParseOSRelease content =
     gobind (os_release_lines (Split (CHR 0x0A) content) []) (\<lambda>result.
       Ret (if map_of result ''VERSION_ID'' = None
            then Inl (ErrorString ''missing VERSION_ID in OS release information'') else Inr result))"

section \<open>The version check\<close>

text \<open>\<open>fmt.Sscanf(s, "%d", &n)\<close>: leading space, an optional sign and digits; what follows is ignored.\<close>

definition Sscanf_d :: "string \<Rightarrow> int option" where
  "Sscanf_d s =
     (let s = trim_front white_seqs s;
          neg = (HasPrefix s ''-'');
          s = (if neg \<or> HasPrefix s ''+'' then tl s else s);
          ds = takeWhile is_digit s;
          n = (if neg then - int (digits_val ds) else int (digits_val ds))
      in if ds = [] \<or> \<not> in64 n then None else Some n)"

definition os_matches :: "go_map \<Rightarrow> string \<Rightarrow> bool" where
  "os_matches osInfo osName \<longleftrightarrow>
     EqualFold (gomap_get osInfo ''PRETTY_NAME'') osName \<or> EqualFold (gomap_get osInfo ''ID'') osName"

definition CheckOSMinimumVersion :: "(string \<times> int) list \<Rightarrow> go_map \<Rightarrow> bool" where
  "CheckOSMinimumVersion osVersions osInfo =
     (case List.find (\<lambda>(osName, _). os_matches osInfo osName) osVersions of
        None \<Rightarrow> False
      | Some (_, matchedVersion) \<Rightarrow>
          (let versionID = gomap_get osInfo ''VERSION_ID'' in
           if versionID = [] then False
           else (case Sscanf_d versionID of
              None \<Rightarrow> False
            | Some actualVersion \<Rightarrow> matchedVersion \<le> actualVersion)))"

text \<open>The environment the check reads.\<close>

record preflight_env =
  KUBERNETES_SERVICE_HOST :: string
  fips140_Enabled :: bool
  os_release :: "string res"

text \<open>\<open>WithContainerOS\<close> on the options' map, and \<open>Check\<close> with the map in its iteration order.\<close>

definition WithContainerOS :: "string \<Rightarrow> int \<Rightarrow> (string \<times> int) list \<Rightarrow> (string \<times> int) list" where
  "WithContainerOS osName minVersion m = (osName, minVersion) # filter (\<lambda>kv. fst kv \<noteq> osName) m"

definition Check :: "preflight_env \<Rightarrow> (string \<times> int) list \<Rightarrow> goerr option go" where
  "Check env containerOSMap =
     (if KUBERNETES_SERVICE_HOST env = [] then Ret None
      else if \<not> fips140_Enabled env then Ret (Some (ErrorString ''FIPS 140-3 mode is not enabled''))
      else (case os_release env of
          Inl err \<Rightarrow> Ret (Some (errorf ''failed to read /etc/os-release: '' err))
        | Inr osRelease \<Rightarrow>
            gobind (ParseOSRelease osRelease) (\<lambda>r.
              Ret (case r of
                     Inl err \<Rightarrow> Some err
                   | Inr osInfo \<Rightarrow>
                       if CheckOSMinimumVersion containerOSMap osInfo then None
                       else Some (ErrorString (''unsupported container OS version: '' @ gomap_get osInfo ''VERSION''))))))"

section \<open>Laws\<close>

lemma quoted_single: "quoted v \<and> length v < 2 \<longleftrightarrow> v = [dquote] \<or> v = [squote]"
proof
  assume v: "quoted v \<and> length v < 2"
  then obtain c where "v = [c]" by (cases v) (auto simp: quoted_def HasPrefix_def)
  then show "v = [dquote] \<or> v = [squote]" using v by (auto simp: quoted_def HasPrefix_def)
qed (auto simp: quoted_def HasPrefix_def HasSuffix_def)

lemma unquote_panics: "panics (unquote v) \<longleftrightarrow> v = [dquote] \<or> v = [squote]"
  using quoted_single [of v] by (auto simp: unquote_def)

lemma unquote_dquoted: "unquote (dquote # v @ [dquote]) = Ret v"
  by (auto simp: unquote_def quoted_def HasPrefix_iff HasSuffix_iff)

text \<open>A line whose value is a lone quote character.\<close>

definition lone_quote :: "string \<Rightarrow> bool" where
  "lone_quote line0 \<longleftrightarrow>
     (let line = TrimSpace line0; parts = SplitN 2 (CHR ''='') line in
      line \<noteq> [] \<and> \<not> HasPrefix line ''#'' \<and> length parts = 2 \<and>
      (TrimSpace (parts ! 1) = [dquote] \<or> TrimSpace (parts ! 1) = [squote]))"

lemma gobind_panics: "panics (gobind m f) \<longleftrightarrow> panics m \<or> (\<exists>x. m = Ret x \<and> panics (f x))"
  by (cases m) auto

lemma os_release_line_panics: "panics (os_release_line line result) \<longleftrightarrow> lone_quote line"
  by (simp add: os_release_line_def lone_quote_def Let_def gobind_panics unquote_panics)

lemma os_release_lines_panics: "panics (os_release_lines lines result) \<longleftrightarrow> (\<exists>line\<in>set lines. lone_quote line)"
proof (induction lines arbitrary: result)
  case (Cons line lines)
  then show ?case using os_release_line_panics [of line result] not_panics_iff [of "os_release_line line result"]
    by (auto simp: gobind_panics)
qed simp

lemma map_of_put: "map_of (map_put k v m) = (map_of m)(k \<mapsto> v)"
proof -
  have "map_of (filter (\<lambda>kv. fst kv \<noteq> k) m) q = (if q = k then None else map_of m q)" for q
    by (induction m) auto
  then show ?thesis by (auto simp: map_put_def fun_eq_iff)
qed

text \<open>A key of an assignment line: printable ASCII without an equals sign, not starting a comment.\<close>

definition plain_key :: "string \<Rightarrow> bool" where
  "plain_key k \<longleftrightarrow> k \<noteq> [] \<and> hd k \<noteq> CHR ''#'' \<and>
     (\<forall>c\<in>set k. c \<noteq> CHR ''='' \<and> 0x21 \<le> (of_char c :: nat) \<and> (of_char c :: nat) < 0x80)"

definition assignment :: "string \<times> string \<Rightarrow> string" where
  "assignment kv = fst kv @ CHR ''='' # dquote # snd kv @ [dquote]"

lemma plain_key_trim:
  assumes "plain_key k"
  shows "TrimSpace k = k" "TrimSpace (k @ CHR ''='' # dquote # v @ [dquote]) = k @ CHR ''='' # dquote # v @ [dquote]"
proof -
  have k: "k \<noteq> []" "plain_byte (hd k)" "plain_byte (last k)" "plain_byte dquote"
    using assms unfolding plain_key_def
    by (simp, metis plain_byte_ascii hd_in_set, metis plain_byte_ascii last_in_set, simp add: plain_byte_ascii dquote_def)
  then show "TrimSpace k = k" by (rule_tac TrimSpace_plain)
  show "TrimSpace (k @ CHR ''='' # dquote # v @ [dquote]) = k @ CHR ''='' # dquote # v @ [dquote]"
    using k by (intro TrimSpace_plain) auto
qed

lemma assignment_line:
  assumes "plain_key (fst kv)"
  shows "os_release_line (assignment kv) m = Ret (map_put (fst kv) (snd kv) m)"
proof -
  obtain k v where kv: "kv = (k, v)" by (cases kv)
  have k: "plain_key k" using assms kv by simp
  have "CHR ''='' \<notin> set k" using k unfolding plain_key_def by blast
  then have parts: "SplitN 2 (CHR ''='') (k @ CHR ''='' # dquote # v @ [dquote]) = [k, dquote # v @ [dquote]]"
    by (rule SplitN_2_append)
  have "TrimSpace (dquote # v @ [dquote]) = dquote # v @ [dquote]"
    by (rule TrimSpace_plain) (simp_all add: plain_byte_ascii dquote_def)
  moreover have "\<not> HasPrefix (k @ CHR ''='' # dquote # v @ [dquote]) ''#''"
    using k unfolding plain_key_def by (cases k) (simp_all add: HasPrefix_def)
  ultimately show ?thesis
    using parts plain_key_trim [OF k] unquote_dquoted
    by (simp add: os_release_line_def assignment_def kv Let_def del: SplitN.simps)
qed

lemma assignment_lines:
  "\<forall>kv\<in>set kvs. plain_key (fst kv) \<Longrightarrow>
     os_release_lines (map assignment kvs) m = Ret (fold (\<lambda>(k, v). map_put k v) kvs m)"
  by (induction kvs arbitrary: m) (auto simp: assignment_line)

lemma map_of_fold_put: "map_of (fold (\<lambda>(k, v). map_put k v) kvs m) = map_of m ++ map_of (rev kvs)"
  by (induction kvs arbitrary: m) (auto simp: map_of_put map_add_def fun_eq_iff split: option.split)

text \<open>The entry that is found does not depend on the order when only one entry matches.\<close>

lemma find_mset:
  assumes "mset xs = mset ys" "\<forall>x\<in>set xs. \<forall>y\<in>set xs. P x \<longrightarrow> P y \<longrightarrow> x = y"
  shows "List.find P xs = List.find P ys"
proof -
  have s: "set xs = set ys" using assms(1) by (metis set_mset_mset)
  have one: "List.find P zs = Some x \<longleftrightarrow> {y \<in> set zs. P y} = {x}" if "set zs = set xs" for zs x
    by (rule find_unique_iff) (use assms(2) that in blast)
  have "List.find P xs = Some x \<longleftrightarrow> List.find P ys = Some x" for x
    unfolding one [OF refl] one [OF s [symmetric]] s ..
  then show ?thesis by (metis not_Some_eq)
qed

section \<open>Properties\<close>

text \<open>C37. Parsing an \<open>os-release\<close> file panics exactly when a line that is not a comment assigns a value
  that is a single quote character; on every other content it returns.\<close>

theorem os_release_panics:
  "panics (ParseOSRelease content) \<longleftrightarrow> (\<exists>line\<in>set (Split (CHR 0x0A) content). lone_quote line)"
  by (simp add: ParseOSRelease_def gobind_panics os_release_lines_panics)

text \<open>C33. Printing assignments with double quotes and parsing the text gives the last value of every key,
  whatever the values hold besides line breaks, and fails exactly when \<open>VERSION_ID\<close> is not assigned.\<close>

theorem os_release_roundtrip:
  assumes "kvs \<noteq> []" "\<forall>kv\<in>set kvs. plain_key (fst kv) \<and> CHR 0x0A \<notin> set (snd kv)"
  shows "\<exists>m. map_of m = map_of (rev kvs) \<and>
    ParseOSRelease (Join (map assignment kvs) [CHR 0x0A]) =
      Ret (if ''VERSION_ID'' \<in> fst ` set kvs then Inr m
           else Inl (ErrorString ''missing VERSION_ID in OS release information''))"
proof -
  let ?m = "fold (\<lambda>(k, v). map_put k v) kvs []"
  have "CHR 0x0A \<notin> set (assignment kv)" if "kv \<in> set kvs" for kv
  proof -
    have kv: "plain_key (fst kv)" "CHR 0x0A \<notin> set (snd kv)" using assms(2) that by auto
    have "CHR 0x0A \<notin> set (fst kv)"
    proof
      assume "CHR 0x0A \<in> set (fst kv)"
      then have "0x21 \<le> (of_char (CHR 0x0A) :: nat)" using kv(1) unfolding plain_key_def by blast
      then show False by simp
    qed
    then show ?thesis using kv(2) by (simp add: assignment_def dquote_def)
  qed
  then have "Split (CHR 0x0A) (Join (map assignment kvs) [CHR 0x0A]) = map assignment kvs"
    using assms(1) by (intro Split_Join) auto
  moreover have m: "map_of ?m = map_of (rev kvs)" by (simp add: map_of_fold_put)
  moreover have "map_of ?m ''VERSION_ID'' = None \<longleftrightarrow> ''VERSION_ID'' \<notin> fst ` set kvs"
    by (simp add: m map_of_eq_None_iff)
  ultimately show ?thesis
    using assms(2) assignment_lines [of kvs "[]"]
    by (intro exI [of _ ?m]) (simp add: ParseOSRelease_def)
qed

theorem os_release_roundtrip_witness:
  "\<exists>m. map_of m ''VERSION_ID'' = Some ''13'' \<and>
    ParseOSRelease (Join (map assignment [(''ID'', ''distroless''), (''VERSION_ID'', ''12''), (''VERSION_ID'', ''13'')]) [CHR 0x0A]) =
      Ret (Inr m)"
proof -
  have "\<forall>kv\<in>set [(''ID'', ''distroless''), (''VERSION_ID'', ''12''), (''VERSION_ID'', ''13'')].
      plain_key (fst kv) \<and> CHR 0x0A \<notin> set (snd kv)"
    by (simp add: plain_key_def)
  then obtain m where "map_of m = map_of (rev [(''ID'', ''distroless''), (''VERSION_ID'', ''12''), (''VERSION_ID'', ''13'')])"
    and "ParseOSRelease (Join (map assignment [(''ID'', ''distroless''), (''VERSION_ID'', ''12''), (''VERSION_ID'', ''13'')]) [CHR 0x0A]) =
      Ret (Inr m)"
    using os_release_roundtrip [of "[(''ID'', ''distroless''), (''VERSION_ID'', ''12''), (''VERSION_ID'', ''13'')]"] by auto
  then show ?thesis by (intro exI [of _ m]) simp
qed

text \<open>The outcome of the check does not depend on the order in which Go iterates over the map of
  supported systems, as long as the system's \<open>PRETTY_NAME\<close> and \<open>ID\<close> match at most one entry.\<close>

lemma check_order_irrelevant:
  assumes "mset osVersions = mset osVersions'"
    and "\<forall>x\<in>set osVersions. \<forall>y\<in>set osVersions. os_matches osInfo (fst x) \<longrightarrow> os_matches osInfo (fst y) \<longrightarrow> x = y"
  shows "CheckOSMinimumVersion osVersions osInfo = CheckOSMinimumVersion osVersions' osInfo"
  using find_mset [OF assms(1), of "\<lambda>(osName, _). os_matches osInfo osName"] assms(2)
  by (simp add: CheckOSMinimumVersion_def split_def)


lemma check_order_irrelevant_example:
  "CheckOSMinimumVersion [(''rhel'', 8), (''distroless'', 12)] [(''ID'', ''Distroless''), (''VERSION_ID'', ''12.1'')] =
   CheckOSMinimumVersion [(''distroless'', 12), (''rhel'', 8)] [(''ID'', ''Distroless''), (''VERSION_ID'', ''12.1'')]"
proof (rule check_order_irrelevant)
  have "\<not> os_matches [(''ID'', ''Distroless''), (''VERSION_ID'', ''12.1'')] ''rhel''"
    by code_simp
  then show "\<forall>x\<in>set [(''rhel'', 8), (''distroless'', 12)]. \<forall>y\<in>set [(''rhel'', 8), (''distroless'', 12)].
      os_matches [(''ID'', ''Distroless''), (''VERSION_ID'', ''12.1'')] (fst x) \<longrightarrow>
      os_matches [(''ID'', ''Distroless''), (''VERSION_ID'', ''12.1'')] (fst y) \<longrightarrow> x = y"
    by simp
qed simp

end
