(* ===== verification/Server_Pods.thy ===== *)
theory Server_Pods
  imports Pods Attestation Retry Http_Directory Google_Credentials Preflight
begin

text \<open>
  \<open>internal/server/pods.go\<close>: from a request to the pod that sent it, the pod's ServiceAccount and its
  Google identity. The providers of the server are fields of the record \<open>server\<close>; what they answer is
  fixed for one request, except that a lookup by IP may answer differently at each attempt. The calls
  to them that matter for the identity of a pod are recorded in the state, in order.
\<close>

section \<open>State\<close>

text \<open>\<open>net.TCPAddr\<close>, and \<open>IP.To4\<close> followed by \<open>netip.AddrFromSlice\<close>, which fails on the nil slice.\<close>

record tcp_addr =
  tcp_IP :: netip_addr
  tcp_Port :: int

definition To4 :: "netip_addr \<Rightarrow> netip_addr option" where
  "To4 ip = (if Is4 (Unmap ip) then Some (Unmap ip) else None)"

text \<open>The values a request carries in its context: the local address of its connection
  (\<open>localAddrContextKey\<close>), what the select of the \<open>i\<close>-th retry sleep sees, and the two values that
  \<open>pods.go\<close> stores for later calls. The email is a pointer, so it may be stored as nil.\<close>

record server_ctx =
  ctx_local :: "tcp_addr option"
  ctx_sel :: "nat \<Rightarrow> select_result"
  ctx_ref :: "Reference option"
  ctx_email :: "string option option"

type_synonym sreq = "server_ctx request"

datatype provider_call =
    CallGetByIP string
  | CallLookup netip_addr netip_addr "16 word" "16 word"
  | CallGetByUID string
  | CallGetServiceAccount Reference
  | CallServiceAccountToken Reference
  | CallAccessTokens string "string option" "string list"
  | CallIdentityToken Reference string string string

record server_state =
  lookupPodFailures :: "string \<Rightarrow> nat"
  sv_calls :: "provider_call list"

type_synonym shttp = "server_state http"

text \<open>The \<open>AttestationLookuper\<close> interface; \<open>None\<close> as an address is the zero \<open>netip.Addr\<close>.\<close>

record attestation =
  at_Lookup :: "netip_addr \<Rightarrow> netip_addr \<Rightarrow> 16 word \<Rightarrow> 16 word \<Rightarrow> string res go"
  at_Verify :: "netip_addr option \<Rightarrow> netip_addr option \<Rightarrow> 16 word \<Rightarrow> 16 word \<Rightarrow> goerr option go"

text \<open>
  \<open>ServerOptions\<close> with the providers as functions, and what the handlers read of the process: the
  clock, the files of the preflight check and \<open>json.Unmarshal\<close> of an error body (\<open>None\<close> when it fails).
  \<open>MaxAttempts\<close> is a natural number, because \<open>main\<close> replaces negative values by 0. \<open>GetByIP ip i\<close> is the
  answer to the \<open>i\<close>-th call of one lookup.
\<close>

record server =
  NodeName :: string
  PodIP :: string
  ServerAddr :: string
  ProjectID :: string
  NumericProjectID :: string
  WorkloadIdentityPool :: string
  RoutingMode :: string
  Attestation :: "attestation option"
  PodLookup_MaxAttempts :: nat
  PodLookup_RetryInitialDelay :: duration
  PodLookup_RetryMaxDelay :: duration
  Pods_GetByIP :: "string \<Rightarrow> nat \<Rightarrow> kube_pod res"
  Pods_GetByUID :: "string \<Rightarrow> kube_pod res"
  ServiceAccounts_Get :: "Reference \<Rightarrow> kube_sa res"
  Tokens_GetServiceAccountToken :: "Reference \<Rightarrow> (string \<times> gotime) res go"
  Tokens_GetGoogleAccessTokens :: "string \<Rightarrow> string option \<Rightarrow> string list \<Rightarrow> (AccessTokens \<times> gotime) res go"
  Tokens_GetGoogleIdentityToken :: "Reference \<Rightarrow> string \<Rightarrow> string \<Rightarrow> string \<Rightarrow> (string \<times> gotime) res go"
  env_now :: gotime
  env_preflight :: preflight_env
  env_Unmarshal :: "string \<Rightarrow> any option"

definition call :: "provider_call \<Rightarrow> shttp \<Rightarrow> shttp" where
  "call c st = st\<lparr>app := (app st)\<lparr>sv_calls := sv_calls (app st) @ [c]\<rparr>\<rparr>"

text \<open>Respond with an error and return it, the shape of every error path of the file.\<close>

definition fail :: "sreq \<Rightarrow> int \<Rightarrow> goerr \<Rightarrow> shttp \<Rightarrow> ('a res \<times> shttp) go" where
  "fail r code err st = gobind (RespondErrorf r code err st) (\<lambda>st. Ret (Inl err, st))"

section \<open>Looking up the pod\<close>

definition LocalAddrFromRequest :: "sreq \<Rightarrow> tcp_addr option" where
  "LocalAddrFromRequest r = ctx_local (rq_ctx r)"

definition isHostSourceIP :: "netip_addr \<Rightarrow> string \<Rightarrow> bool" where
  "isHostSourceIP clientIP podIP =
     (if IsLoopback clientIP \<or> IsLinkLocalUnicast clientIP then True
      else if ParseAddr podIP = Inr clientIP then True
      else False)"

definition attestByConnTuple :: "server \<Rightarrow> sreq \<Rightarrow> netip_addr \<Rightarrow> string \<Rightarrow> shttp \<Rightarrow> (kube_pod res \<times> shttp) go" where
  "attestByConnTuple s r clientIP clientPortStr st =
     (case Attestation s of
        None \<Rightarrow> Ret (Inl (ErrorString ''attestation lookuper not configured for this routing mode''), st)
      | Some at \<Rightarrow>
          (case ParseUint16 clientPortStr of
             Inl err \<Rightarrow> Ret (Inl (errorf (''parsing client port '' @ Quote clientPortStr @ '': '') err), st)
           | Inr clientPort \<Rightarrow>
               (case LocalAddrFromRequest r of
                  None \<Rightarrow> Ret (Inl (ErrorString ''local addr not captured for this connection''), st)
                | Some local \<Rightarrow>
                    (case To4 (tcp_IP local) of
                       None \<Rightarrow> Ret (Inl (ErrorString (''local addr '' @ Addr_String (tcp_IP local) @ '' is not an IPv4 address'')), st)
                     | Some dstIP \<Rightarrow>
                         (let dstPort = word_of_int (tcp_Port local);
                              st = call (CallLookup clientIP (Unmap dstIP) clientPort dstPort) st
                          in gobind (at_Lookup at clientIP (Unmap dstIP) clientPort dstPort) (\<lambda>res.
                               case res of
                                 Inl err \<Rightarrow> Ret (Inl (errorf ''attestation lookup: '' err), st)
                               | Inr uid \<Rightarrow>
                                   Ret (map_err (errorf (''getting pod with uid '' @ uid @ '': '')) (Pods_GetByUID s uid),
                                        call (CallGetByUID uid) st)))))))"

definition lookup_retryable :: "goerr \<Rightarrow> bool" where
  "lookup_retryable err \<longleftrightarrow>
     \<not> Contains (Error err) ''no pods found'' \<and> \<not> Contains (Error err) ''multiple pods found''"

definition lookup_operation :: "server \<Rightarrow> string \<Rightarrow> operation" where
  "lookup_operation s clientIP =
     \<lparr>MaxAttempts = int (PodLookup_MaxAttempts s), InitialDelay = PodLookup_RetryInitialDelay s,
      MaxDelay = PodLookup_RetryMaxDelay s, Description = ''lookup pod by ip address'', FailureCounter = True,
      Func = Some (\<lambda>i. case Pods_GetByIP s clientIP i of Inl err \<Rightarrow> Some err | Inr _ \<Rightarrow> None),
      IsRetryable = Some lookup_retryable\<rparr>"

text \<open>The fuel is the number of attempts, which is enough. When the run succeeds, \<open>pod\<close> holds the answer
  of the last call, the one after the counted failures.\<close>

definition lookup_attempts :: "server \<Rightarrow> nat" where
  "lookup_attempts s = (if PodLookup_MaxAttempts s = 0 then 3 else PodLookup_MaxAttempts s)"

definition count_failures :: "string \<Rightarrow> nat \<Rightarrow> shttp \<Rightarrow> shttp" where
  "count_failures clientIP n st =
     st\<lparr>app := (app st)\<lparr>lookupPodFailures := (lookupPodFailures (app st))(clientIP := lookupPodFailures (app st) clientIP + n)\<rparr>\<rparr>"

definition lookupPodByIP :: "server \<Rightarrow> sreq \<Rightarrow> string \<Rightarrow> shttp \<Rightarrow> kube_pod res \<times> shttp" where
  "lookupPodByIP s r clientIP st =
     (let run = the (Retry_Do (lookup_attempts s) (lookup_operation s clientIP) (ctx_sel (rq_ctx r)));
          st = count_failures clientIP (rr_failures run) (call (CallGetByIP clientIP) st)
      in (case rr_err run of
            Some err \<Rightarrow> Inl err
          | None \<Rightarrow> Pods_GetByIP s clientIP (Suc (rr_failures run)), st))"

definition assignPodServiceAccount :: "sreq \<Rightarrow> kube_pod \<Rightarrow> Reference \<times> sreq" where
  "assignPodServiceAccount r pod =
     (let saRef = ReferenceFromPod pod in (saRef, r\<lparr>rq_ctx := (rq_ctx r)\<lparr>ctx_ref := Some saRef\<rparr>\<rparr>))"

definition getPodServiceAccountReference :: "server \<Rightarrow> sreq \<Rightarrow> shttp \<Rightarrow> ((Reference \<times> sreq) res \<times> shttp) go" where
  "getPodServiceAccountReference s r st =
     (case ctx_ref (rq_ctx r) of
        Some v \<Rightarrow> Ret (Inr (v, r), st)
      | None \<Rightarrow>
          (case SplitHostPort (rq_remote r) of
             Inl err \<Rightarrow> fail r 500 (errorf (''error spliting host-port for '' @ Quote (rq_remote r) @ '': '') err) st
           | Inr (clientHost, clientPortStr) \<Rightarrow>
               (case ParseAddr clientHost of
                  Inl err \<Rightarrow> fail r 500 (errorf (''error parsing ip address client host '' @ Quote (rq_remote r) @ '': '') err) st
                | Inr clientIPAddr \<Rightarrow>
                    (let clientIP = Addr_String clientIPAddr;
                         useAttestation = (RoutingMode s = RoutingModeBPF \<or> isHostSourceIP clientIPAddr (PodIP s))
                     in if useAttestation then
                          gobind (attestByConnTuple s r clientIPAddr clientPortStr st) (\<lambda>(res, st).
                            case res of
                              Inl err \<Rightarrow> fail r 403 (errorf ''kernel attestation failed: '' err) st
                            | Inr pod \<Rightarrow> Ret (Inr (assignPodServiceAccount r pod), st))
                        else (case lookupPodByIP s r clientIP st of (res, st) \<Rightarrow>
                          (case res of
                             Inl err \<Rightarrow> fail r (HTTPStatusCode err) (errorf ''error looking up pod by ip address: '' err) st
                           | Inr pod \<Rightarrow> Ret (Inr (assignPodServiceAccount r pod), st)))))))"

section \<open>The Google identity of the pod\<close>

definition getPodGoogleServiceAccountEmail :: "server \<Rightarrow> sreq \<Rightarrow> shttp \<Rightarrow> ((string option \<times> sreq) res \<times> shttp) go" where
  "getPodGoogleServiceAccountEmail s r st =
     (case ctx_email (rq_ctx r) of
        Some v \<Rightarrow> Ret (Inr (v, r), st)
      | None \<Rightarrow>
          gobind (getPodServiceAccountReference s r st) (\<lambda>(res, st).
            case res of
              Inl err \<Rightarrow> Ret (Inl err, st)
            | Inr (saRef, r) \<Rightarrow>
                (let st = call (CallGetServiceAccount saRef) st in
                 case ServiceAccounts_Get s saRef of
                   Inl err \<Rightarrow> fail r 500 (errorf ''error getting pod service account: '' err) st
                 | Inr sa \<Rightarrow>
                     (case GoogleServiceAccountEmail sa of
                        Inl err \<Rightarrow> fail r 400 err st
                      | Inr email \<Rightarrow> Ret (Inr (email, r\<lparr>rq_ctx := (rq_ctx r)\<lparr>ctx_email := Some email\<rparr>\<rparr>), st)))))"

definition getPodGoogleServiceAccountEmailOrWorkloadIdentityPool ::
    "server \<Rightarrow> sreq \<Rightarrow> shttp \<Rightarrow> ((string \<times> sreq) res \<times> shttp) go" where
  "getPodGoogleServiceAccountEmailOrWorkloadIdentityPool s r st =
     gobind (getPodGoogleServiceAccountEmail s r st) (\<lambda>(res, st).
       case res of
         Inl err \<Rightarrow> Ret (Inl err, st)
       | Inr (googleEmail, r) \<Rightarrow>
           Ret (Inr (case googleEmail of Some e \<Rightarrow> e | None \<Rightarrow> WorkloadIdentityPool s, r), st))"

definition listPodGoogleServiceAccounts :: "server \<Rightarrow> (server_ctx, server_state) lister" where
  "listPodGoogleServiceAccounts s r st =
     gobind (getPodGoogleServiceAccountEmailOrWorkloadIdentityPool s r st) (\<lambda>(res, st).
       case res of
         Inl err \<Rightarrow> Ret (Inl err, st)
       | Inr (email, r) \<Rightarrow> Ret (Inr ([''default'', email], r), st))"

end
