(* ===== verification/Server_API.thy ===== *)
theory Server_API
  imports Server_Pods
begin

text \<open>
  \<open>internal/server/gke_apis.go\<close>: the handlers of the metadata endpoints and the translation of errors
  of the Google APIs into responses, with \<open>getPodGoogleAccessTokens\<close> of \<open>pods.go\<close>, which uses it.
\<close>

section \<open>fmt.Sscan of an int\<close>

text \<open>
  The text of an integer as \<open>fmt.Sscan\<close> reads it: white space, a sign, and decimal digits, or a \<open>0\<close>
  with the prefix of a base; underscores may separate digits. \<open>None\<close> when the scan fails, in which case
  the variable keeps its value.
\<close>

fun underscores_ok :: "bool \<Rightarrow> string \<Rightarrow> bool" where
  "underscores_ok prev [] = prev"
| "underscores_ok prev (c # cs) =
     (if c = CHR ''_'' then prev \<and> cs \<noteq> [] \<and> hd cs \<noteq> CHR ''_'' \<and> underscores_ok False cs else underscores_ok True cs)"

definition base_val :: "nat \<Rightarrow> string \<Rightarrow> nat" where
  "base_val b s = foldl (\<lambda>n c. b * n + the (hex_val c)) 0 (filter (\<lambda>c. c \<noteq> CHR ''_'') s)"

definition base_digit :: "nat \<Rightarrow> char \<Rightarrow> bool" where
  "base_digit b c = (c = CHR ''_'' \<or> (case hex_val c of Some d \<Rightarrow> d < b | None \<Rightarrow> False))"

definition scan_base :: "string \<Rightarrow> nat \<times> string" where
  "scan_base s =
     (if s = [] \<or> hd s \<noteq> CHR ''0'' then (10, s)
      else (case tl s of
          [] \<Rightarrow> (8, s)
        | c # rest \<Rightarrow>
            if c \<in> {CHR ''b'', CHR ''B''} then (2, rest)
            else if c \<in> {CHR ''o'', CHR ''O''} then (8, rest)
            else if c \<in> {CHR ''x'', CHR ''X''} then (16, rest)
            else (8, s)))"

definition Sscan_int :: "string \<Rightarrow> int option" where
  "Sscan_int inp =
     (let s = trim_front white_seqs inp;
          neg = (s \<noteq> [] \<and> hd s = CHR ''-'');
          s = (if s \<noteq> [] \<and> (hd s = CHR ''-'' \<or> hd s = CHR ''+'') then tl s else s);
          (b, rest) = scan_base s;
          tok = takeWhile (base_digit b) rest;
          n = (if neg then - int (base_val b tok) else int (base_val b tok))
      in if tok = [] \<or> \<not> underscores_ok (b \<noteq> 10) tok \<or> \<not> in64 n then None else Some n)"

section \<open>Errors of the Google APIs\<close>

definition oauthSubstring :: string where "oauthSubstring = ''oauth2/google: status code ''"

text \<open>The status and the body text an error carries; slicing past the end of the text panics.\<close>

definition google_error :: "goerr \<Rightarrow> (goerr \<times> int \<times> string) go" where
  "google_error err =
     (case as_google (err_chain err) of
        Some (code, body, txt) \<Rightarrow> Ret (GoogleAPIError code body txt, code, body)
      | None \<Rightarrow>
          (case Index (Error err) oauthSubstring of
             None \<Rightarrow> Ret (err, 500, [])
           | Some i \<Rightarrow>
               (let strErr = drop (i + length oauthSubstring) (Error err) in
                case IndexByte strErr (CHR '':'') of
                  None \<Rightarrow> Ret (err, 500, [])
                | Some idx \<Rightarrow>
                    if idx + 2 > length strErr then Panic ''slice bounds out of range''
                    else Ret (err, case Sscan_int (take idx strErr) of Some n \<Rightarrow> n | None \<Rightarrow> 500,
                              drop (idx + 2) strErr))))"

definition respondGoogleAPIErrorf :: "server \<Rightarrow> sreq \<Rightarrow> string \<Rightarrow> goerr \<Rightarrow> shttp \<Rightarrow> shttp go" where
  "respondGoogleAPIErrorf s r format err st =
     gobind (google_error err) (\<lambda>(err, statusCode, bodyString).
       let err = errorf format err in
       case env_Unmarshal s bodyString of
         Some body \<Rightarrow>
           if body \<noteq> ANil then RespondError r statusCode err [body] st
           else if bodyString \<noteq> [] then RespondError r statusCode err [AString bodyString] st
           else RespondError r statusCode err [] st
       | None \<Rightarrow>
           if bodyString \<noteq> [] then RespondError r statusCode err [AString bodyString] st
           else RespondError r statusCode err [] st)"

section \<open>Access tokens\<close>

definition getPodGoogleAccessTokens :: "server \<Rightarrow> string list \<Rightarrow> sreq \<Rightarrow> shttp \<Rightarrow>
    ((AccessTokens \<times> gotime \<times> sreq) res \<times> shttp) go" where
  "getPodGoogleAccessTokens s scopes r st =
     gobind (getPodServiceAccountReference s r st) (\<lambda>(res, st).
       case res of
         Inl err \<Rightarrow> Ret (Inl err, st)
       | Inr (saRef, r) \<Rightarrow>
           gobind (Tokens_GetServiceAccountToken s saRef) (\<lambda>res.
             let st = call (CallServiceAccountToken saRef) st in
             case res of
               Inl err \<Rightarrow> fail r 500 (errorf ''error getting token for pod service account: '' err) st
             | Inr (saToken, _) \<Rightarrow>
                 gobind (getPodGoogleServiceAccountEmail s r st) (\<lambda>(res, st).
                   case res of
                     Inl err \<Rightarrow> Ret (Inl err, st)
                   | Inr (googleEmail, r) \<Rightarrow>
                       gobind (Tokens_GetGoogleAccessTokens s saToken googleEmail scopes) (\<lambda>res.
                         let st = call (CallAccessTokens saToken googleEmail scopes) st in
                         case res of
                           Inl err \<Rightarrow> gobind (respondGoogleAPIErrorf s r ''error getting google access token: '' err st)
                             (\<lambda>st. Ret (Inl err, st))
                         | Inr (tokens, expiresAt) \<Rightarrow> Ret (Inr (tokens, expiresAt, r), st)))))"

section \<open>Handlers\<close>

definition gkeNodeNameAPI :: "server \<Rightarrow> (server_ctx, server_state) getter" where
  "gkeNodeNameAPI s r st = Ret (Inr (AString (NodeName s)), st)"

definition gkeProjectIDAPI :: "server \<Rightarrow> (server_ctx, server_state) getter" where
  "gkeProjectIDAPI s r st = Ret (Inr (AString (ProjectID s)), st)"

definition gkeNumericProjectIDAPI :: "server \<Rightarrow> (server_ctx, server_state) getter" where
  "gkeNumericProjectIDAPI s r st = Ret (Inr (AString (NumericProjectID s)), st)"

definition gkeServiceAccountAliasesAPI :: "server \<Rightarrow> (server_ctx, server_state) getter" where
  "gkeServiceAccountAliasesAPI s r st = Ret (Inr (AStrings [''default'']), st)"

definition gkeServiceAccountEmailAPI :: "server \<Rightarrow> (server_ctx, server_state) getter" where
  "gkeServiceAccountEmailAPI s r st =
     gobind (getPodGoogleServiceAccountEmailOrWorkloadIdentityPool s r st) (\<lambda>(res, st).
       case res of
         Inl err \<Rightarrow> Ret (Inl err, st)
       | Inr (email, _) \<Rightarrow> Ret (Inr (AString email), st))"

definition gkeServiceAccountScopesAPI :: "server \<Rightarrow> (server_ctx, server_state) getter" where
  "gkeServiceAccountScopesAPI s r st = Ret (Inr (AStrings AccessScopes), st)"

text \<open>The preflight check both token handlers begin with.\<close>

definition preflight_versions :: "(string \<times> int) list" where
  "preflight_versions = WithContainerOS ''rhel'' 8 (WithContainerOS ''distroless'' 12 [])"

definition with_preflight :: "server \<Rightarrow> (server_ctx, server_state) getter \<Rightarrow> (server_ctx, server_state) getter" where
  "with_preflight s k r st =
     gobind (Check (env_preflight s) preflight_versions) (\<lambda>res.
       case res of
         Some err \<Rightarrow> gobind (RespondErrorf r 500 (ErrorString (''preflight check failed: '' @ Error err)) st)
           (\<lambda>st. Ret (Inl err, st))
       | None \<Rightarrow> k r st)"

text \<open>The request's query is a Go map, \<open>Get\<close> gives the empty string for a missing key.\<close>

definition query_get :: "sreq \<Rightarrow> string \<Rightarrow> string" where
  "query_get r key = header_get (rq_query r) key"

definition not_annotated_text :: "Reference \<Rightarrow> string" where
  "not_annotated_text saRef =
     ''Your Kubernetes service account ('' @ ref_Namespace saRef @ ''/'' @ ref_Name saRef @
     '') is not annotated with a target Google service account, which is a requirement for retrieving Identity Tokens using Workload Identity.'' @ [CHR 0x0A] @
     ''Please add the iam.gke.io/gcp-service-account=[GSA_NAME]@[PROJECT_ID] annotation to your Kubernetes service account.'' @ [CHR 0x0A] @
     ''Refer to https://cloud.google.com/kubernetes-engine/docs/how-to/workload-identity'' @ [CHR 0x0A]"

definition audience_required :: string where
  "audience_required = ''non-empty audience parameter required''"

definition identity_token :: "server \<Rightarrow> (server_ctx, server_state) getter" where
  "identity_token s r st =
     (let audience = TrimSpace (query_get r ''audience'') in
      if audience = [] then
        gobind (WriteHeader 400 st) (\<lambda>st.
          gobind (Write (BText (audience_required @ [CHR 0x0A])) st) (\<lambda>(st, werr).
            Ret (Inl (ErrorString audience_required),
                 case werr of None \<Rightarrow> st | Some _ \<Rightarrow> log LError ''error writing audience error response'' st)))
      else
        gobind (getPodGoogleServiceAccountEmail s r st) (\<lambda>(res, st).
          case res of
            Inl err \<Rightarrow> Ret (Inl err, st)
          | Inr (None, r) \<Rightarrow>
              (case ctx_ref (rq_ctx r) of
                 None \<Rightarrow> Panic ''interface conversion: interface is nil, not *serviceaccounts.Reference''
               | Some saRef \<Rightarrow>
                   gobind (RespondText r 404 (not_annotated_text saRef) st) (\<lambda>st.
                     Ret (Inl (ErrorString ''pod service account not annotated with target Google service account''), st)))
          | Inr (Some googleEmail, r) \<Rightarrow>
              gobind (getPodServiceAccountReference s r st) (\<lambda>(res, st).
                case res of
                  Inl err \<Rightarrow> Ret (Inl err, st)
                | Inr (saRef, r) \<Rightarrow>
                    gobind (getPodGoogleAccessTokens s [] r st) (\<lambda>(res, st).
                      case res of
                        Inl err \<Rightarrow> Ret (Inl err, st)
                      | Inr (accessTokens, _, r) \<Rightarrow>
                          gobind (Tokens_GetGoogleIdentityToken s saRef (DirectAccess accessTokens) googleEmail audience) (\<lambda>res.
                            let st = call (CallIdentityToken saRef (DirectAccess accessTokens) googleEmail audience) st in
                            case res of
                              Inl err \<Rightarrow> gobind (respondGoogleAPIErrorf s r ''error getting google id token: '' err st)
                                (\<lambda>st. Ret (Inl err, st))
                            | Inr (identityToken, _) \<Rightarrow> Ret (Inr (AString identityToken), st))))))"

definition gkeServiceAccountIdentityAPI :: "server \<Rightarrow> (server_ctx, server_state) getter" where
  "gkeServiceAccountIdentityAPI s = with_preflight s (identity_token s)"

definition scopes_of :: "string \<Rightarrow> string list" where
  "scopes_of q = filter (\<lambda>s. s \<noteq> []) (map TrimSpace (Split (CHR '','') q))"

text \<open>\<open>int(d.Seconds())\<close>: the conversion truncates. The floating-point quotient of a duration below 97
  days rounds to an integer only when it is one.\<close>

definition int_Seconds :: "duration \<Rightarrow> int" where
  "int_Seconds d = (if 0 \<le> d then d div Second else - ((- d) div Second))"

definition access_token :: "server \<Rightarrow> (server_ctx, server_state) getter" where
  "access_token s r st =
     gobind (getPodGoogleAccessTokens s (scopes_of (query_get r ''scopes'')) r st) (\<lambda>(res, st).
       case res of
         Inl err \<Rightarrow> Ret (Inl err, st)
       | Inr (tokens, expiresAt, _) \<Rightarrow>
           (let token = (if Impersonated tokens \<noteq> [] then Impersonated tokens else DirectAccess tokens) in
            Ret (Inr (AMap [(''access_token'', AString token),
                            (''expires_in'', AInt (int_Seconds (Sub expiresAt (env_now s)))),
                            (''token_type'', AString ''Bearer'')]), st)))"

definition gkeServiceAccountTokenAPI :: "server \<Rightarrow> (server_ctx, server_state) getter" where
  "gkeServiceAccountTokenAPI s = with_preflight s (access_token s)"

end
