(* ===== verification/Server_Contract.thy ===== *)
theory Server_Contract
  imports Server_API
begin

text \<open>
  What the handlers of the server promise for one connection. \<open>conn_pod\<close> specifies, independently of
  the code that computes it, which pod a connection belongs to; \<open>call_ok\<close> says which provider calls may
  be made on its behalf. Every function of \<open>pods.go\<close> and every handler keeps to it, does not panic, and
  sends a response exactly when it returns an error.
\<close>

section \<open>The pod of a connection\<close>

record connection =
  cn_remote :: string
  cn_local :: "tcp_addr option"
  cn_sel :: "nat \<Rightarrow> select_result"

definition client :: "connection \<Rightarrow> netip_addr \<Rightarrow> string \<Rightarrow> bool" where
  "client cn ip port \<longleftrightarrow> (\<exists>host. SplitHostPort (cn_remote cn) = Inr (host, port) \<and> ParseAddr host = Inr ip)"

definition attested :: "server \<Rightarrow> netip_addr \<Rightarrow> bool" where
  "attested s ip \<longleftrightarrow> RoutingMode s = RoutingModeBPF \<or> isHostSourceIP ip (PodIP s)"

text \<open>The 4-tuple of an attested connection, and the pod UID the kernel attests for it.\<close>

definition conn_tuple :: "connection \<Rightarrow> netip_addr \<Rightarrow> netip_addr \<Rightarrow> 16 word \<Rightarrow> 16 word \<Rightarrow> bool" where
  "conn_tuple cn ip dst p q \<longleftrightarrow>
     (\<exists>port l. client cn ip port \<and> ParseUint16 port = Inr p \<and> cn_local cn = Some l \<and>
        To4 (tcp_IP l) = Some dst \<and> q = word_of_int (tcp_Port l))"

definition conn_uid :: "server \<Rightarrow> connection \<Rightarrow> string \<Rightarrow> bool" where
  "conn_uid s cn uid \<longleftrightarrow>
     (\<exists>at ip dst p q. Attestation s = Some at \<and> conn_tuple cn ip dst p q \<and> attested s ip \<and>
        at_Lookup at ip dst p q = Ret (Inr uid))"

text \<open>The first answer of a lookup by IP that is a pod, when every answer before it may be retried and
  the request was not done while waiting.\<close>

definition first_pod :: "server \<Rightarrow> connection \<Rightarrow> string \<Rightarrow> kube_pod \<Rightarrow> bool" where
  "first_pod s cn ip pod \<longleftrightarrow>
     (\<exists>i. 1 \<le> i \<and> i \<le> lookup_attempts s \<and> Pods_GetByIP s ip i = Inr pod \<and>
        (\<forall>j. 1 \<le> j \<and> j < i \<longrightarrow> cn_sel cn j = TimerFired \<and>
          (\<exists>err. Pods_GetByIP s ip j = Inl err \<and> lookup_retryable err)))"

definition conn_pod :: "server \<Rightarrow> connection \<Rightarrow> kube_pod \<Rightarrow> bool" where
  "conn_pod s cn pod \<longleftrightarrow>
     (\<exists>uid. conn_uid s cn uid \<and> Pods_GetByUID s uid = Inr pod) \<or>
     (\<exists>ip port. client cn ip port \<and> \<not> attested s ip \<and> first_pod s cn (Addr_String ip) pod)"

text \<open>A connection belongs to at most one pod.\<close>

lemma client_unique: "client cn ip port \<Longrightarrow> client cn ip' port' \<Longrightarrow> ip' = ip \<and> port' = port"
  by (auto simp: client_def)

lemma conn_tuple_client: "conn_tuple cn ip dst p q \<Longrightarrow> \<exists>port. client cn ip port"
  by (auto simp: conn_tuple_def)

lemma conn_tuple_unique:
  assumes "conn_tuple cn ip dst p q" "conn_tuple cn ip' dst' p' q'"
  shows "ip' = ip \<and> dst' = dst \<and> p' = p \<and> q' = q"
proof -
  obtain port l where a: "client cn ip port" "ParseUint16 port = Inr p" "cn_local cn = Some l"
      "To4 (tcp_IP l) = Some dst" "q = word_of_int (tcp_Port l)"
    using assms(1) by (auto simp: conn_tuple_def)
  obtain port' l' where b: "client cn ip' port'" "ParseUint16 port' = Inr p'" "cn_local cn = Some l'"
      "To4 (tcp_IP l') = Some dst'" "q' = word_of_int (tcp_Port l')"
    using assms(2) by (auto simp: conn_tuple_def)
  have "ip' = ip \<and> port' = port" using client_unique [OF a(1) b(1)] .
  then show ?thesis using a b by simp
qed

lemma first_pod_unique: "first_pod s cn ip pod \<Longrightarrow> first_pod s cn ip pod' \<Longrightarrow> pod' = pod"
  unfolding first_pod_def
proof (elim exE conjE)
  fix i j
  assume i: "1 \<le> i" "Pods_GetByIP s ip i = Inr pod"
      "\<forall>k. 1 \<le> k \<and> k < i \<longrightarrow> cn_sel cn k = TimerFired \<and> (\<exists>err. Pods_GetByIP s ip k = Inl err \<and> lookup_retryable err)"
    and j: "1 \<le> j" "Pods_GetByIP s ip j = Inr pod'"
      "\<forall>k. 1 \<le> k \<and> k < j \<longrightarrow> cn_sel cn k = TimerFired \<and> (\<exists>err. Pods_GetByIP s ip k = Inl err \<and> lookup_retryable err)"
  have "\<not> i < j" using i j(3) by force
  moreover have "\<not> j < i" using j i(3) by force
  ultimately show "pod' = pod" using i(2) j(2) by simp
qed

lemma conn_pod_unique:
  assumes "conn_pod s cn pod" "conn_pod s cn pod'"
  shows "pod' = pod"
proof -
  have uid: "uid' = uid" if "conn_uid s cn uid" "conn_uid s cn uid'" for uid uid'
    using that unfolding conn_uid_def by (metis conn_tuple_unique go.inject(1) option.inject sum.inject(2))
  have excl: "attested s ip" if "conn_uid s cn uid" "client cn ip port" for uid ip port
    using that client_unique conn_tuple_client unfolding conn_uid_def by metis
  from assms show ?thesis
    unfolding conn_pod_def
    by (elim disjE exE conjE) (use uid excl client_unique first_pod_unique in \<open>metis sum.inject(2)\<close>)+
qed

definition conn_ref :: "server \<Rightarrow> connection \<Rightarrow> Reference \<Rightarrow> bool" where
  "conn_ref s cn ref \<longleftrightarrow> (\<exists>pod. conn_pod s cn pod \<and> ref = ReferenceFromPod pod)"

lemma conn_ref_unique: "conn_ref s cn ref \<Longrightarrow> conn_ref s cn ref' \<Longrightarrow> ref' = ref"
  using conn_pod_unique by (auto simp: conn_ref_def)

text \<open>The Google email of a ServiceAccount, \<open>None\<close> when it has no annotation.\<close>

definition ref_email :: "server \<Rightarrow> Reference \<Rightarrow> string option \<Rightarrow> bool" where
  "ref_email s ref email \<longleftrightarrow> (\<exists>sa. ServiceAccounts_Get s ref = Inr sa \<and> GoogleServiceAccountEmail sa = Inr email)"

section \<open>Permitted calls\<close>

fun call_ok :: "server \<Rightarrow> connection \<Rightarrow> provider_call \<Rightarrow> bool" where
  "call_ok s cn (CallGetByIP t) \<longleftrightarrow> (\<exists>ip port. client cn ip port \<and> \<not> attested s ip \<and> t = Addr_String ip)"
| "call_ok s cn (CallLookup ip dst p q) \<longleftrightarrow> conn_tuple cn ip dst p q \<and> attested s ip"
| "call_ok s cn (CallGetByUID uid) \<longleftrightarrow> conn_uid s cn uid"
| "call_ok s cn (CallGetServiceAccount ref) \<longleftrightarrow> conn_ref s cn ref"
| "call_ok s cn (CallServiceAccountToken ref) \<longleftrightarrow> conn_ref s cn ref"
| "call_ok s cn (CallAccessTokens tok email scopes) \<longleftrightarrow>
     (\<exists>ref t. conn_ref s cn ref \<and> ref_email s ref email \<and> Tokens_GetServiceAccountToken s ref = Ret (Inr (tok, t)))"
| "call_ok s cn (CallIdentityToken ref access email aud) \<longleftrightarrow>
     conn_ref s cn ref \<and> ref_email s ref (Some email) \<and>
     (\<exists>tok t toks t'. Tokens_GetServiceAccountToken s ref = Ret (Inr (tok, t)) \<and>
        Tokens_GetGoogleAccessTokens s tok (Some email) [] = Ret (Inr (toks, t')) \<and> access = DirectAccess toks)"

definition calls_ok :: "server \<Rightarrow> connection \<Rightarrow> server_state \<Rightarrow> bool" where
  "calls_ok s cn a \<longleftrightarrow> (\<forall>c\<in>set (sv_calls a). call_ok s cn c)"

text \<open>The request belongs to the connection, and what its context has stored is right.\<close>

definition req_ok :: "server \<Rightarrow> connection \<Rightarrow> sreq \<Rightarrow> bool" where
  "req_ok s cn r \<longleftrightarrow>
     rq_start r \<noteq> None \<and> rq_remote r = cn_remote cn \<and> ctx_local (rq_ctx r) = cn_local cn \<and>
     ctx_sel (rq_ctx r) = cn_sel cn \<and>
     (\<forall>ref. ctx_ref (rq_ctx r) = Some ref \<longrightarrow> conn_ref s cn ref) \<and>
     (\<forall>email. ctx_email (rq_ctx r) = Some email \<longrightarrow> (\<exists>ref. ctx_ref (rq_ctx r) = Some ref \<and> ref_email s ref email))"

text \<open>
  What the providers and the environment are documented to do: the lookuper answers for two IPv4
  addresses, the ends of a connection have the same family, the token providers return, their errors
  carry the status of an HTTP response, and \<open>/etc/os-release\<close> has no value that is a lone quote.
\<close>

definition google_status_ok :: "goerr \<Rightarrow> bool" where
  "google_status_ok e \<longleftrightarrow> (\<exists>e' code body. google_error e = Ret (e', code, body) \<and> final_status code)"

definition server_ok :: "server \<Rightarrow> connection \<Rightarrow> bool" where
  "server_ok s cn \<longleftrightarrow>
     (\<forall>at ip dst p q. Attestation s = Some at \<longrightarrow> Is4 (Unmap ip) \<longrightarrow> Is4 dst \<longrightarrow> (\<exists>x. at_Lookup at ip dst p q = Ret x)) \<and>
     (\<forall>ip port l. client cn ip port \<longrightarrow> cn_local cn = Some l \<longrightarrow> Is4 (Unmap (tcp_IP l)) \<longrightarrow> Is4 (Unmap ip)) \<and>
     (\<forall>ref. \<exists>x. Tokens_GetServiceAccountToken s ref = Ret x) \<and>
     (\<forall>tok email scopes. \<exists>x. Tokens_GetGoogleAccessTokens s tok email scopes = Ret x \<and> (\<forall>e. x = Inl e \<longrightarrow> google_status_ok e)) \<and>
     (\<forall>ref acc email aud. \<exists>x. Tokens_GetGoogleIdentityToken s ref acc email aud = Ret x \<and> (\<forall>e. x = Inl e \<longrightarrow> google_status_ok e)) \<and>
     \<not> panics (Check (env_preflight s) preflight_versions)"

section \<open>Outcomes\<close>

text \<open>A call that does not panic, made only permitted calls, and either returned an error after a
  response was sent, or a result that satisfies \<open>Q\<close> and nothing was sent.\<close>

definition delivers :: "server \<Rightarrow> connection \<Rightarrow> ('a \<Rightarrow> bool) \<Rightarrow> ('a res \<times> shttp) go \<Rightarrow> bool" where
  "delivers s cn Q m \<longleftrightarrow>
     (\<exists>res st. m = Ret (res, st) \<and> calls_ok s cn (app st) \<and>
        (case res of Inl _ \<Rightarrow> w_sent st \<noteq> None | Inr x \<Rightarrow> w_sent st = None \<and> Q x))"

definition quiet :: "server \<Rightarrow> connection \<Rightarrow> shttp \<Rightarrow> bool" where
  "quiet s cn st \<longleftrightarrow> w_sent st = None \<and> calls_ok s cn (app st)"

lemma delivers_Ret [simp]:
  "delivers s cn Q (Ret (Inr x, st)) \<longleftrightarrow> quiet s cn st \<and> Q x"
  by (auto simp: delivers_def quiet_def)

lemma delivers_mono: "delivers s cn P m \<Longrightarrow> (\<And>x. P x \<Longrightarrow> Q x) \<Longrightarrow> delivers s cn Q m"
  unfolding delivers_def by (elim exE conjE, intro exI conjI, assumption+) (simp split: sum.splits)

lemma delivers_gobind:
  assumes "delivers s cn P m" and "\<And>x st. P x \<Longrightarrow> quiet s cn st \<Longrightarrow> delivers s cn Q (k x st)"
  shows "delivers s cn Q (gobind m (\<lambda>(res, st). case res of Inl e \<Rightarrow> Ret (Inl e, st) | Inr x \<Rightarrow> k x st))"
proof -
  obtain res st where m: "m = Ret (res, st)" "calls_ok s cn (app st)"
      "case res of Inl _ \<Rightarrow> w_sent st \<noteq> None | Inr x \<Rightarrow> w_sent st = None \<and> P x"
    using assms(1) by (auto simp: delivers_def)
  show ?thesis
  proof (cases res)
    case (Inl e)
    then show ?thesis using m by (simp add: delivers_def)
  next
    case (Inr x)
    then show ?thesis using m assms(2) [of x st] by (simp add: quiet_def)
  qed
qed

lemma quiet_call [simp]: "quiet s cn (call c st) \<longleftrightarrow> quiet s cn st \<and> call_ok s cn c"
  by (auto simp: quiet_def call_def calls_ok_def)

lemma quiet_count [simp]: "quiet s cn (count_failures ip n st) \<longleftrightarrow> quiet s cn st"
  by (auto simp: quiet_def count_failures_def calls_ok_def)

lemma final_statuses [simp]: "final_status 400" "final_status 403" "final_status 404" "final_status 500"
  "final_status (HTTPStatusCode err)"
  by (simp_all add: final_status_def HTTPStatusCode_def)

lemma delivers_send:
  assumes "quiet s cn st" "req_ok s cn r" "final_status code"
  shows "delivers s cn Q (gobind (send r ct code b st) (\<lambda>st. Ret (Inl e, st)))"
proof -
  obtain t0 where "rq_start r = Some t0" using assms(2) by (auto simp: req_ok_def)
  then show ?thesis
    using assms send_sent [of code st r t0 ct b] by (auto simp: quiet_def delivers_def)
qed

lemma delivers_error:
  assumes "quiet s cn st" "req_ok s cn r" "final_status code"
  shows "delivers s cn Q (gobind (RespondError r code err data st) (\<lambda>st. Ret (Inl e, st)))"
  using assms(3) by (simp add: RespondError_def RespondJSON_def delivers_send [OF assms(1,2)] split: option.split)

lemma delivers_fail:
  "quiet s cn st \<Longrightarrow> req_ok s cn r \<Longrightarrow> final_status code \<Longrightarrow> delivers s cn Q (fail r code err st)"
  unfolding fail_def by (rule delivers_error)



section \<open>pods.go\<close>

lemma lookup_run:
  "\<exists>k run. Retry_Do (lookup_attempts s) (lookup_operation s ip) sel = Some run \<and> 1 \<le> k \<and> k \<le> lookup_attempts s \<and>
    outcome (retry_defaults (lookup_operation s ip)) (\<lambda>i. case Pods_GetByIP s ip i of Inl err \<Rightarrow> Some err | Inr _ \<Rightarrow> None)
      lookup_retryable sel k = Some (rr_err run) \<and>
    (\<forall>j. 1 \<le> j \<and> j < k \<longrightarrow> outcome (retry_defaults (lookup_operation s ip))
      (\<lambda>i. case Pods_GetByIP s ip i of Inl err \<Rightarrow> Some err | Inr _ \<Rightarrow> None) lookup_retryable sel j = None) \<and>
    (rr_err run = None \<longrightarrow> Suc (rr_failures run) = k)"
proof -
  have op: "well_formed_op (lookup_operation s ip)"
      "Func (lookup_operation s ip) = Some (\<lambda>i. case Pods_GetByIP s ip i of Inl err \<Rightarrow> Some err | Inr _ \<Rightarrow> None)"
      "IsRetryable (lookup_operation s ip) = Some lookup_retryable" "0 \<le> MaxAttempts (lookup_operation s ip)"
      "lookup_attempts s = (if MaxAttempts (lookup_operation s ip) = 0 then 3 else nat (MaxAttempts (lookup_operation s ip)))"
    by (simp_all add: lookup_operation_def well_formed_op_def lookup_attempts_def)
  show ?thesis
    using retry_bounded [OF op order_refl, of sel]
    by (elim exE conjE) (intro exI conjI; assumption)
qed

lemma outcome_pending:
  "outcome op f rt sel j = None \<Longrightarrow> sel j = TimerFired \<and> (\<exists>err. f j = Some err \<and> rt err)"
  by (auto simp: outcome_def split: option.splits if_splits select_result.splits)

lemma outcome_success: "outcome op f rt sel k = Some None \<Longrightarrow> f k = None"
  by (auto simp: outcome_def split: option.splits if_splits select_result.splits)

lemma lookup_first_pod:
  assumes "fst (lookupPodByIP s r ip st) = Inr pod" "ctx_sel (rq_ctx r) = cn_sel cn"
  shows "first_pod s cn ip pod"
proof -
  let ?f = "\<lambda>i. case Pods_GetByIP s ip i of Inl err \<Rightarrow> Some err | Inr _ \<Rightarrow> None"
  obtain k run where run: "Retry_Do (lookup_attempts s) (lookup_operation s ip) (cn_sel cn) = Some run" "1 \<le> k" "k \<le> lookup_attempts s"
      "outcome (retry_defaults (lookup_operation s ip)) ?f lookup_retryable (cn_sel cn) k = Some (rr_err run)"
      "\<forall>j. 1 \<le> j \<and> j < k \<longrightarrow> outcome (retry_defaults (lookup_operation s ip)) ?f lookup_retryable (cn_sel cn) j = None"
      "rr_err run = None \<longrightarrow> Suc (rr_failures run) = k"
    using lookup_run [of s ip "cn_sel cn"] by (elim exE conjE) (rule that)
  have "rr_err run = None" "Pods_GetByIP s ip k = Inr pod"
    using assms run(1,6) by (auto simp: lookupPodByIP_def Let_def split: option.splits)
  moreover have "cn_sel cn j = TimerFired \<and> (\<exists>err. Pods_GetByIP s ip j = Inl err \<and> lookup_retryable err)"
    if "1 \<le> j" "j < k" for j
    using outcome_pending [OF run(5) [rule_format, of j]] that by (auto split: sum.splits)
  ultimately show ?thesis using run(2,3) unfolding first_pod_def by blast
qed

lemma To4_Is4: "To4 ip = Some d \<Longrightarrow> Is4 d \<and> Unmap d = d \<and> Is4 (Unmap ip)"
  by (cases "Unmap ip") (auto simp: To4_def Is4_def split: if_splits)

lemma assign_ok:
  assumes "req_ok s cn r" "ctx_ref (rq_ctx r) = None" "conn_pod s cn pod"
  shows "conn_ref s cn (fst (assignPodServiceAccount r pod)) \<and>
    req_ok s cn (snd (assignPodServiceAccount r pod)) \<and>
    ctx_ref (rq_ctx (snd (assignPodServiceAccount r pod))) = Some (fst (assignPodServiceAccount r pod))"
  using assms by (auto simp: assignPodServiceAccount_def req_ok_def conn_ref_def Let_def)

text \<open>Attestation: its errors have not been answered yet when it returns.\<close>

lemma attest_ok:
  assumes "server_ok s cn" "req_ok s cn r" "quiet s cn st" "client cn ip port" "attested s ip"
  shows "\<exists>res st'. attestByConnTuple s r ip port st = Ret (res, st') \<and> quiet s cn st' \<and>
    (\<forall>pod. res = Inr pod \<longrightarrow> conn_pod s cn pod)"
proof -
  consider (none) e where "attestByConnTuple s r ip port st = Ret (Inl e, st)"
    | (lookup) at p l d where "Attestation s = Some at" "ParseUint16 port = Inr p" "ctx_local (rq_ctx r) = Some l"
        "To4 (tcp_IP l) = Some d"
    by (cases "Attestation s"; cases "ParseUint16 port"; cases "ctx_local (rq_ctx r)";
        cases "To4 (tcp_IP (the (ctx_local (rq_ctx r))))")
      (auto simp: attestByConnTuple_def LocalAddrFromRequest_def)
  then show ?thesis
  proof cases
    case none
    then show ?thesis using assms(3) by simp
  next
    case lookup
    let ?q = "word_of_int (tcp_Port l)"
    have d: "Is4 d" "Unmap d = d" using To4_Is4 lookup by blast+
    have local: "cn_local cn = Some l" using assms(2) lookup by (simp add: req_ok_def)
    have tuple: "conn_tuple cn ip d p ?q"
      using assms(4) lookup local by (auto simp: conn_tuple_def)
    have "Is4 (Unmap ip)" using assms(1,4) local To4_Is4 [OF lookup(4)] unfolding server_ok_def by blast
    then obtain x where x: "at_Lookup at ip d p ?q = Ret x"
      using assms(1) lookup(1) d(1) unfolding server_ok_def by blast
    have uid: "conn_uid s cn uid" if "x = Inr uid" for uid
      using that x tuple lookup(1) assms(5) unfolding conn_uid_def by blast
    have run: "attestByConnTuple s r ip port st =
        (case x of
           Inl err \<Rightarrow> Ret (Inl (errorf ''attestation lookup: '' err), call (CallLookup ip d p ?q) st)
         | Inr uid \<Rightarrow> Ret (map_err (errorf (''getting pod with uid '' @ uid @ '': '')) (Pods_GetByUID s uid),
             call (CallGetByUID uid) (call (CallLookup ip d p ?q) st)))"
      using lookup d(2) x by (simp add: attestByConnTuple_def LocalAddrFromRequest_def Let_def split: sum.split)
    have pod: "conn_pod s cn pod" if "x = Inr uid" "Pods_GetByUID s uid = Inr pod" for uid pod
      using uid that unfolding conn_pod_def by blast
    show ?thesis
    proof (cases x)
      case (Inl err)
      then show ?thesis using run assms(3,5) tuple by simp
    next
      case (Inr u)
      then show ?thesis using run assms(3,5) tuple uid pod
        by (cases "Pods_GetByUID s u") auto
    qed
  qed
qed

abbreviation ref_result :: "server \<Rightarrow> connection \<Rightarrow> Reference \<times> sreq \<Rightarrow> bool" where
  "ref_result s cn x \<equiv> conn_ref s cn (fst x) \<and> req_ok s cn (snd x) \<and> ctx_ref (rq_ctx (snd x)) = Some (fst x)"

text \<open>A request that has not been resolved yet, of a connection with a client address: the attested case and the
  lookup by address.\<close>

lemma reference_attested:
  assumes "server_ok s cn" "req_ok s cn r" "quiet s cn st" "ctx_ref (rq_ctx r) = None"
    and "SplitHostPort (cn_remote cn) = Inr (host, port)" "ParseAddr host = Inr ip" "attested s ip"
  shows "delivers s cn (ref_result s cn) (getPodServiceAccountReference s r st)"
proof -
  have "client cn ip port" using assms(5,6) by (auto simp: client_def)
  then obtain res st' where a: "attestByConnTuple s r ip port st = Ret (res, st')" "quiet s cn st'"
      "\<forall>pod. res = Inr pod \<longrightarrow> conn_pod s cn pod"
    using attest_ok [OF assms(1-3) _ assms(7)] by blast
  have "rq_remote r = cn_remote cn" using assms(2) by (simp add: req_ok_def)
  then have "getPodServiceAccountReference s r st =
      (case res of Inl err \<Rightarrow> fail r 403 (errorf ''kernel attestation failed: '' err) st'
       | Inr pod \<Rightarrow> Ret (Inr (assignPodServiceAccount r pod), st'))"
    using assms(4-7) a by (simp add: getPodServiceAccountReference_def attested_def)
  then show ?thesis
    using a assign_ok [OF assms(2,4)] by (cases res) (auto simp: delivers_fail [OF _ assms(2)])
qed

lemma reference_by_ip:
  assumes "req_ok s cn r" "quiet s cn st" "ctx_ref (rq_ctx r) = None"
    and "SplitHostPort (cn_remote cn) = Inr (host, port)" "ParseAddr host = Inr ip" "\<not> attested s ip"
  shows "delivers s cn (ref_result s cn) (getPodServiceAccountReference s r st)"
proof -
  have c: "client cn ip port" using assms(4,5) by (auto simp: client_def)
  have remote: "rq_remote r = cn_remote cn" "ctx_sel (rq_ctx r) = cn_sel cn" using assms(1) by (auto simp: req_ok_def)
  obtain res st' where l: "lookupPodByIP s r (Addr_String ip) st = (res, st')"
    by (cases "lookupPodByIP s r (Addr_String ip) st")
  have "call_ok s cn (CallGetByIP (Addr_String ip))" using c assms(6) by auto
  then have q: "quiet s cn st'"
    using l assms(2) by (auto simp del: call_ok.simps simp: lookupPodByIP_def Let_def)
  have pod: "conn_pod s cn pod" if "res = Inr pod" for pod
    using lookup_first_pod [of s r "Addr_String ip" st pod cn] l that remote c assms(6)
    by (auto simp: conn_pod_def)
  have "getPodServiceAccountReference s r st =
      (case res of Inl err \<Rightarrow> fail r (HTTPStatusCode err) (errorf ''error looking up pod by ip address: '' err) st'
       | Inr pod \<Rightarrow> Ret (Inr (assignPodServiceAccount r pod), st'))"
    using assms(3-6) l by (simp add: getPodServiceAccountReference_def remote attested_def)
  then show ?thesis
    using q pod assign_ok [OF assms(1,3)] by (cases res) (auto simp: delivers_fail [OF _ assms(1)])
qed

lemma reference_ok:
  assumes "server_ok s cn" "req_ok s cn r" "quiet s cn st"
  shows "delivers s cn (ref_result s cn) (getPodServiceAccountReference s r st)"
proof (cases "ctx_ref (rq_ctx r)")
  case (Some ref)
  then have "conn_ref s cn ref" using assms(2) by (simp add: req_ok_def)
  then show ?thesis using Some assms by (simp add: getPodServiceAccountReference_def)
next
  case None
  have remote: "rq_remote r = cn_remote cn" using assms(2) by (auto simp: req_ok_def)
  show ?thesis
  proof (cases "\<exists>ip port. client cn ip port")
    case False
    then show ?thesis
      unfolding getPodServiceAccountReference_def remote None option.case
      by (auto simp: client_def delivers_fail [OF assms(3,2)] split: sum.split)
  next
    case True
    then obtain host ip port where "SplitHostPort (cn_remote cn) = Inr (host, port)" "ParseAddr host = Inr ip"
      by (auto simp: client_def)
    then show ?thesis
      using reference_attested [OF assms None] reference_by_ip [OF assms(2,3) None] by (cases "attested s ip") simp_all
  qed
qed

abbreviation email_result :: "server \<Rightarrow> connection \<Rightarrow> string option \<times> sreq \<Rightarrow> bool" where
  "email_result s cn x \<equiv> req_ok s cn (snd x) \<and>
     (\<exists>ref. ctx_ref (rq_ctx (snd x)) = Some ref \<and> conn_ref s cn ref \<and> ref_email s ref (fst x))"

lemma email_ok:
  assumes "server_ok s cn" "req_ok s cn r" "quiet s cn st"
  shows "delivers s cn (\<lambda>x. email_result s cn x \<and> (\<forall>ref. ctx_ref (rq_ctx r) = Some ref \<longrightarrow> ctx_ref (rq_ctx (snd x)) = Some ref))
    (getPodGoogleServiceAccountEmail s r st)"
proof (cases "ctx_email (rq_ctx r)")
  case (Some email)
  then obtain ref where "ctx_ref (rq_ctx r) = Some ref" "ref_email s ref email" "conn_ref s cn ref"
    using assms(2) unfolding req_ok_def by blast
  then show ?thesis using Some assms by (simp add: getPodGoogleServiceAccountEmail_def)
next
  case None
  have keep: "delivers s cn (\<lambda>x. ref_result s cn x \<and> (\<forall>ref. ctx_ref (rq_ctx r) = Some ref \<longrightarrow> fst x = ref))
      (getPodServiceAccountReference s r st)"
  proof (rule delivers_mono [OF reference_ok [OF assms]])
    fix x assume "ref_result s cn x"
    then show "ref_result s cn x \<and> (\<forall>ref. ctx_ref (rq_ctx r) = Some ref \<longrightarrow> fst x = ref)"
      using assms(2) conn_ref_unique [of s cn _ "fst x"] unfolding req_ok_def by blast
  qed
  have body: "delivers s cn (\<lambda>x. email_result s cn x \<and> (\<forall>ref. ctx_ref (rq_ctx r) = Some ref \<longrightarrow> ctx_ref (rq_ctx (snd x)) = Some ref))
      (let st = call (CallGetServiceAccount ref) st in
       case ServiceAccounts_Get s ref of
         Inl err \<Rightarrow> fail r' 500 (errorf ''error getting pod service account: '' err) st
       | Inr sa \<Rightarrow>
           (case GoogleServiceAccountEmail sa of
              Inl err \<Rightarrow> fail r' 400 err st
            | Inr email \<Rightarrow> Ret (Inr (email, r'\<lparr>rq_ctx := (rq_ctx r')\<lparr>ctx_email := Some email\<rparr>\<rparr>), st)))"
    if "conn_ref s cn ref" "req_ok s cn r'" "ctx_ref (rq_ctx r') = Some ref"
      "\<forall>ref'. ctx_ref (rq_ctx r) = Some ref' \<longrightarrow> ref = ref'" "quiet s cn st" for ref r' st
  proof -
    have "req_ok s cn (r'\<lparr>rq_ctx := (rq_ctx r')\<lparr>ctx_email := Some email\<rparr>\<rparr>)" if "ref_email s ref email" for email
      using that \<open>req_ok s cn r'\<close> \<open>ctx_ref (rq_ctx r') = Some ref\<close> by (simp add: req_ok_def)
    then show ?thesis
      using that by (auto simp: Let_def ref_email_def intro!: delivers_fail split: sum.split)
  qed
  show ?thesis
    unfolding getPodGoogleServiceAccountEmail_def None option.case
    by (rule delivers_gobind [OF keep]) (use body in \<open>auto split: prod.split\<close>)
qed

lemma email_or_pool_ok:
  assumes "server_ok s cn" "req_ok s cn r" "quiet s cn st"
  shows "delivers s cn (\<lambda>x. req_ok s cn (snd x)) (getPodGoogleServiceAccountEmailOrWorkloadIdentityPool s r st)"
  unfolding getPodGoogleServiceAccountEmailOrWorkloadIdentityPool_def
  by (rule delivers_gobind [OF email_ok [OF assms]]) (auto split: prod.split)

lemma list_ok:
  assumes "server_ok s cn" "req_ok s cn r" "quiet s cn st"
  shows "delivers s cn (\<lambda>x. req_ok s cn (snd x)) (listPodGoogleServiceAccounts s r st)"
  unfolding listPodGoogleServiceAccounts_def
  by (rule delivers_gobind [OF email_or_pool_ok [OF assms]]) (auto split: prod.split)

section \<open>gke_apis.go\<close>

lemma google_respond_ok:
  assumes "quiet s cn st" "req_ok s cn r" "google_status_ok err"
  shows "delivers s cn Q (gobind (respondGoogleAPIErrorf s r format err st) (\<lambda>st. Ret (Inl e, st)))"
proof -
  obtain e' code body where "google_error err = Ret (e', code, body)" "final_status code"
    using assms(3) by (auto simp: google_status_ok_def)
  then show ?thesis
    by (simp add: respondGoogleAPIErrorf_def Let_def delivers_error [OF assms(1,2)] split: option.split)
qed

definition tokens_result :: "server \<Rightarrow> connection \<Rightarrow> string list \<Rightarrow> AccessTokens \<times> gotime \<times> sreq \<Rightarrow> bool" where
  "tokens_result s cn scopes x \<longleftrightarrow> (case x of (toks, t, r') \<Rightarrow> req_ok s cn r' \<and>
     (\<exists>ref tok t0 email. conn_ref s cn ref \<and> ref_email s ref email \<and>
        Tokens_GetServiceAccountToken s ref = Ret (Inr (tok, t0)) \<and>
        Tokens_GetGoogleAccessTokens s tok email scopes = Ret (Inr (toks, t))))"

lemma access_call_ok:
  assumes "server_ok s cn" "req_ok s cn r" "quiet s cn st" "conn_ref s cn ref" "ref_email s ref email"
    and "Tokens_GetServiceAccountToken s ref = Ret (Inr (tok, t0))"
  shows "delivers s cn (tokens_result s cn scopes)
    (gobind (Tokens_GetGoogleAccessTokens s tok email scopes) (\<lambda>res.
       let st = call (CallAccessTokens tok email scopes) st in
       case res of
         Inl err \<Rightarrow> gobind (respondGoogleAPIErrorf s r ''error getting google access token: '' err st) (\<lambda>st. Ret (Inl err, st))
       | Inr (tokens, expiresAt) \<Rightarrow> Ret (Inr (tokens, expiresAt, r), st)))"
proof -
  obtain res where res: "Tokens_GetGoogleAccessTokens s tok email scopes = Ret res" "\<forall>e. res = Inl e \<longrightarrow> google_status_ok e"
    using assms(1) unfolding server_ok_def by blast
  have "call_ok s cn (CallAccessTokens tok email scopes)" using assms(4-6) by auto
  then have q: "quiet s cn (call (CallAccessTokens tok email scopes) st)" using assms(3) by simp
  show ?thesis
  proof (cases res)
    case (Inl e)
    then show ?thesis using res by (simp add: Let_def google_respond_ok [OF q assms(2)])
  next
    case (Inr z)
    obtain toks t where z: "z = (toks, t)" by (cases z)
    have "tokens_result s cn scopes (toks, t, r)" using assms(2,4-6) res(1) Inr z unfolding tokens_result_def by blast
    then show ?thesis using res q Inr z by (simp del: quiet_call add: Let_def)
  qed
qed

lemma access_tokens_ok:
  assumes "server_ok s cn" "req_ok s cn r" "quiet s cn st"
  shows "delivers s cn (tokens_result s cn scopes) (getPodGoogleAccessTokens s scopes r st)"
  unfolding getPodGoogleAccessTokens_def
proof (rule delivers_gobind [OF reference_ok [OF assms]], goal_cases)
  case (1 x st)
  obtain ref r where x: "x = (ref, r)" by (cases x)
  obtain res where res: "Tokens_GetServiceAccountToken s ref = Ret res"
    using assms(1) unfolding server_ok_def by blast
  have ref: "conn_ref s cn ref" "req_ok s cn r" "ctx_ref (rq_ctx r) = Some ref" using 1 x by auto
  have q: "quiet s cn (call (CallServiceAccountToken ref) st)" using 1 ref by simp
  show ?case
  proof (cases res)
    case (Inl err)
    then show ?thesis using res q ref x by (auto intro!: delivers_fail)
  next
    case (Inr tok0)
    obtain tok t0 where tok: "tok0 = (tok, t0)" by (cases tok0)
    then have sa: "Tokens_GetServiceAccountToken s ref = Ret (Inr (tok, t0))" using res Inr by simp
    have "delivers s cn (tokens_result s cn scopes) (gobind (getPodGoogleServiceAccountEmail s r (call (CallServiceAccountToken ref) st)) (\<lambda>(res, st).
        case res of
          Inl err \<Rightarrow> Ret (Inl err, st)
        | Inr (googleEmail, r) \<Rightarrow>
            gobind (Tokens_GetGoogleAccessTokens s tok googleEmail scopes) (\<lambda>res.
              let st = call (CallAccessTokens tok googleEmail scopes) st in
              case res of
                Inl err \<Rightarrow> gobind (respondGoogleAPIErrorf s r ''error getting google access token: '' err st) (\<lambda>st. Ret (Inl err, st))
              | Inr (tokens, expiresAt) \<Rightarrow> Ret (Inr (tokens, expiresAt, r), st))))"
      by (rule delivers_gobind [OF email_ok [OF assms(1) ref(2) q]])
        (use access_call_ok [OF assms(1) _ _ _ _ sa] ref(3) in \<open>auto split: prod.split\<close>)
    then show ?thesis using res Inr x tok by simp
  qed
qed

abbreviation handler_ok :: "server \<Rightarrow> connection \<Rightarrow> (server_ctx, server_state) getter \<Rightarrow> bool" where
  "handler_ok s cn f \<equiv> (\<forall>r st. req_ok s cn r \<longrightarrow> quiet s cn st \<longrightarrow> delivers s cn (\<lambda>_. True) (f r st))"

lemma constant_handlers_ok:
  "handler_ok s cn (gkeNodeNameAPI s)" "handler_ok s cn (gkeProjectIDAPI s)" "handler_ok s cn (gkeNumericProjectIDAPI s)"
  "handler_ok s cn (gkeServiceAccountAliasesAPI s)" "handler_ok s cn (gkeServiceAccountScopesAPI s)"
  by (simp_all add: gkeNodeNameAPI_def gkeProjectIDAPI_def gkeNumericProjectIDAPI_def
      gkeServiceAccountAliasesAPI_def gkeServiceAccountScopesAPI_def)

lemma email_handler_ok: "server_ok s cn \<Longrightarrow> handler_ok s cn (gkeServiceAccountEmailAPI s)"
  unfolding gkeServiceAccountEmailAPI_def
  by (intro allI impI, rule delivers_gobind [OF email_or_pool_ok]) (auto split: prod.split)

lemma preflight_ok:
  assumes "server_ok s cn" "handler_ok s cn k"
  shows "handler_ok s cn (with_preflight s k)"
proof (intro allI impI)
  fix r st assume r: "req_ok s cn r" "quiet s cn st"
  obtain res where "Check (env_preflight s) preflight_versions = Ret res"
    using assms(1) unfolding server_ok_def by (cases "Check (env_preflight s) preflight_versions") auto
  then show "delivers s cn (\<lambda>_. True) (with_preflight s k r st)"
    using r assms(2) by (cases res) (auto simp: with_preflight_def delivers_error)
qed

lemma token_handler_ok:
  assumes "server_ok s cn"
  shows "handler_ok s cn (gkeServiceAccountTokenAPI s)"
  unfolding gkeServiceAccountTokenAPI_def
proof (rule preflight_ok [OF assms], intro allI impI)
  fix r st assume r: "req_ok s cn r" "quiet s cn st"
  show "delivers s cn (\<lambda>_. True) (access_token s r st)"
    unfolding access_token_def
    by (rule delivers_gobind [OF access_tokens_ok [OF assms r]]) (auto simp: Let_def split: prod.split)
qed

text \<open>The last two steps of the identity handler, for a pod with a Google email.\<close>

lemma identity_call_ok:
  assumes "server_ok s cn" "req_ok s cn r" "conn_ref s cn ref" "ref_email s ref (Some email)" "quiet s cn st"
    and "\<exists>ref tok t0 e. conn_ref s cn ref \<and> ref_email s ref e \<and> Tokens_GetServiceAccountToken s ref = Ret (Inr (tok, t0)) \<and>
         Tokens_GetGoogleAccessTokens s tok e [] = Ret (Inr (toks, t))"
  shows "delivers s cn (\<lambda>_. True)
    (gobind (Tokens_GetGoogleIdentityToken s ref (DirectAccess toks) email audience) (\<lambda>res.
       let st = call (CallIdentityToken ref (DirectAccess toks) email audience) st in
       case res of
         Inl err \<Rightarrow> gobind (respondGoogleAPIErrorf s r ''error getting google id token: '' err st) (\<lambda>st. Ret (Inl err, st))
       | Inr (identityToken, _) \<Rightarrow> Ret (Inr (AString identityToken), st)))"
proof -
  obtain ref2 tok t0 e where o: "conn_ref s cn ref2" "ref_email s ref2 e" "Tokens_GetServiceAccountToken s ref2 = Ret (Inr (tok, t0))"
      "Tokens_GetGoogleAccessTokens s tok e [] = Ret (Inr (toks, t))"
    using assms(6) by blast
  have same: "ref2 = ref" using conn_ref_unique assms(3) o(1) by blast
  then have "e = Some email" using assms(4) o(2) by (auto simp: ref_email_def)
  with o same have "call_ok s cn (CallIdentityToken ref (DirectAccess toks) email audience)"
    using assms(3,4) by auto
  then have q: "quiet s cn (call (CallIdentityToken ref (DirectAccess toks) email audience) st)"
    using assms(5) by simp
  obtain res where res: "Tokens_GetGoogleIdentityToken s ref (DirectAccess toks) email audience = Ret res"
      "\<forall>e. res = Inl e \<longrightarrow> google_status_ok e"
    using assms(1) unfolding server_ok_def by blast
  then show ?thesis using q google_respond_ok [OF q assms(2)]
    by (cases res) (auto simp del: quiet_call simp: Let_def)
qed

lemma identity_steps_ok:
  assumes "server_ok s cn" "req_ok s cn r" "quiet s cn st" "conn_ref s cn ref" "ref_email s ref (Some email)"
  shows "delivers s cn (\<lambda>_. True) (gobind (getPodServiceAccountReference s r st) (\<lambda>(res, st).
     case res of
       Inl err \<Rightarrow> Ret (Inl err, st)
     | Inr (saRef, r) \<Rightarrow>
         gobind (getPodGoogleAccessTokens s [] r st) (\<lambda>(res, st).
           case res of
             Inl err \<Rightarrow> Ret (Inl err, st)
           | Inr (accessTokens, _, r) \<Rightarrow>
               gobind (Tokens_GetGoogleIdentityToken s saRef (DirectAccess accessTokens) email audience) (\<lambda>res.
                 let st = call (CallIdentityToken saRef (DirectAccess accessTokens) email audience) st in
                 case res of
                   Inl err \<Rightarrow> gobind (respondGoogleAPIErrorf s r ''error getting google id token: '' err st)
                     (\<lambda>st. Ret (Inl err, st))
                 | Inr (identityToken, _) \<Rightarrow> Ret (Inr (AString identityToken), st)))))"
proof (rule delivers_gobind [OF reference_ok [OF assms(1-3)]], goal_cases)
  case (1 y st2)
  obtain ref2 r2 where y: "y = (ref2, r2)" by (cases y)
  then have y2: "conn_ref s cn ref2" "req_ok s cn r2" "ref_email s ref2 (Some email)"
    using 1 assms(4,5) conn_ref_unique by auto
  show ?case
    unfolding y sum.case prod.case
    by (rule delivers_gobind [OF access_tokens_ok [OF assms(1) y2(2) 1(2)]])
      (auto simp: tokens_result_def split: prod.split intro!: identity_call_ok [OF assms(1) _ y2(1,3)])
qed

lemma identity_token_ok:
  assumes "server_ok s cn"
  shows "handler_ok s cn (identity_token s)"
proof (intro allI impI)
  fix r st assume r: "req_ok s cn r" "quiet s cn st"
  show "delivers s cn (\<lambda>_. True) (identity_token s r st)"
  proof (cases "TrimSpace (query_get r ''audience'') = []")
    case True
    have "WriteHeader 400 st = Ret (st\<lparr>w_sent := Some (400, w_header st)\<rparr>)"
      using r(2) by (simp add: quiet_def WriteHeader_final)
    then show ?thesis using r(2) True
      by (simp add: identity_token_def Write_def bodyAllowedForStatus_def audience_required_def delivers_def quiet_def)
  next
    case False
    show ?thesis
      unfolding identity_token_def Let_def if_not_P [OF False]
    proof (rule delivers_gobind [OF email_ok [OF assms r]], goal_cases)
      case (1 x st1)
      obtain e r1 where x: "x = (e, r1)" by (cases x)
      then obtain ref where ref: "ctx_ref (rq_ctx r1) = Some ref" "conn_ref s cn ref" "ref_email s ref e" "req_ok s cn r1"
        using 1 by auto
      show ?case
      proof (cases e)
        case None
        then show ?thesis using x ref by (auto simp: RespondText_def intro!: delivers_send [OF 1(2) ref(4)])
      next
        case (Some email)
        then show ?thesis
          using identity_steps_ok [OF assms ref(4) 1(2) ref(2), of email "TrimSpace (query_get r ''audience'')", unfolded Let_def] ref(3) x
          by simp
      qed
    qed
  qed
qed

lemma identity_handler_ok: "server_ok s cn \<Longrightarrow> handler_ok s cn (gkeServiceAccountIdentityAPI s)"
  unfolding gkeServiceAccountIdentityAPI_def by (rule preflight_ok [OF _ identity_token_ok])

end
