(* ===== verification/Node.thy ===== *)
theory Node
  imports Kube_Objects Retry
begin

text \<open>
  \<open>internal/node\<close>: the two providers of the emulator's own node (\<open>get\<close>, from the API server, and
  \<open>watch\<close>, an informer cache with a fallback), whose contract is the locale \<open>node_provider\<close>, and
  \<open>taints\<close>, which removes the node's taints of the emulator's group once it serves.
\<close>

section \<open>get/provider.go\<close>

text \<open>\<open>kube name\<close> is the client's \<open>CoreV1().Nodes().Get(ctx, name)\<close>.\<close>

record get_node =
  gn_NodeName :: string
  gn_kube :: "string \<Rightarrow> kube_node res"

definition gn_Get :: "get_node \<Rightarrow> kube_node res" where
  "gn_Get p = gn_kube p (gn_NodeName p)"

section \<open>watch/provider.go\<close>

record watch_node =
  wn_NodeName :: string
  wn_FallbackSource :: "kube_node res option"   \<comment> \<open>the result of the fallback's \<open>Get\<close>\<close>
  wn_GetByKey :: "string \<Rightarrow> kube_node option res"

text \<open>\<open>NewProvider\<close>: the informer lists and watches with a selector of the node's name; \<open>informer\<close> makes the store for
  a selector.\<close>

definition wn_selector :: "string \<Rightarrow> string" where
  "wn_selector nodeName = ''metadata.name='' @ nodeName"

definition wn_NewProvider :: "string \<Rightarrow> kube_node res option \<Rightarrow> (string \<Rightarrow> string \<Rightarrow> kube_node option res) \<Rightarrow> watch_node" where
  "wn_NewProvider nodeName fallbackSource informer =
     \<lparr>wn_NodeName = nodeName, wn_FallbackSource = fallbackSource, wn_GetByKey = informer (wn_selector nodeName)\<rparr>"

definition wn_get :: "watch_node \<Rightarrow> kube_node res" where
  "wn_get p =
     (case wn_GetByKey p (wn_NodeName p) of
        Inl err \<Rightarrow> Inl err
      | Inr None \<Rightarrow> Inl (ErrorString ''node not present in cache'')
      | Inr (Some v) \<Rightarrow> Inr v)"

definition wn_Get :: "watch_node \<Rightarrow> kube_node res" where
  "wn_Get p =
     (case wn_get p of
        Inr node \<Rightarrow> Inr node
      | Inl err \<Rightarrow>
          (case wn_FallbackSource p of
             None \<Rightarrow> Inl (errorf ''error getting node from cache: '' err)
           | Some fallback \<Rightarrow> fallback))"

section \<open>taints/taints.go\<close>

text \<open>
  One attempt talks to the API server twice: \<open>api_get\<close> is what \<open>Nodes().Get\<close> answers and
  \<open>api_update\<close> what \<open>Nodes().Update\<close> answers for the object it is sent. The result is the returned
  error and the object the API server accepted, if any.
\<close>

record node_api =
  api_get :: "kube_node res"
  api_update :: "kube_node \<Rightarrow> goerr option"

definition removeTaints :: "node_api \<Rightarrow> goerr option \<times> kube_node option" where
  "removeTaints api =
     (case api_get api of
        Inl err \<Rightarrow> (Some (errorf ''error getting node: '' err), None)
      | Inr node \<Rightarrow>
          (let taints = filter (\<lambda>t. \<not> HasPrefix (taint_Key t) GroupNode) (node_Taints node) in
           if length taints = length (node_Taints node) then (None, None)
           else (let node = node\<lparr>node_Taints := taints\<rparr> in
             case api_update api node of
               Some err \<Rightarrow> (Some (errorf ''error updating node: '' err), None)
             | None \<Rightarrow> (None, Some node))))"

text \<open>\<open>Remove\<close> makes attempt \<open>i\<close> against the API server \<open>api i\<close>. The caller ignores the outcome; the
  run is kept to state what happened. \<open>FailureCounter\<close> is the counter \<open>main\<close> passes.\<close>

definition taints_operation :: "(nat \<Rightarrow> node_api) \<Rightarrow> operation" where
  "taints_operation api =
     \<lparr>MaxAttempts = 0, InitialDelay = 0, MaxDelay = 0, Description = ''remove taints from node'',
      FailureCounter = True, Func = Some (\<lambda>i. fst (removeTaints (api i))),
      IsRetryable = Some (\<lambda>_. True)\<rparr>"

definition taints_Remove :: "nat \<Rightarrow> (nat \<Rightarrow> node_api) \<Rightarrow> (nat \<Rightarrow> select_result) \<Rightarrow> retry_run option" where
  "taints_Remove fuel api sel = Retry_Do fuel (taints_operation api) sel"

section \<open>The provider contract\<close>

text \<open>A sound provider answers with the node it was configured for.\<close>

locale node_provider =
  fixes ok :: "'c \<Rightarrow> bool"
    and name :: "'c \<Rightarrow> string"
    and Get :: "'c \<Rightarrow> kube_node res"
  assumes Get_name: "ok c \<Longrightarrow> Get c = Inr node \<Longrightarrow> node_Name node = name c"
begin

lemma agree:
  "ok c \<Longrightarrow> ok d \<Longrightarrow> name c = name d \<Longrightarrow> Get c = Inr m \<Longrightarrow> Get d = Inr n \<Longrightarrow> node_Name m = node_Name n"
  by (simp add: Get_name)

end

definition kube_get_node_ok :: "(string \<Rightarrow> kube_node res) \<Rightarrow> bool" where
  "kube_get_node_ok kube \<longleftrightarrow> (\<forall>n node. kube n = Inr node \<longrightarrow> node_Name node = n)"

definition watch_node_ok :: "watch_node \<Rightarrow> bool" where
  "watch_node_ok p \<longleftrightarrow> (\<forall>k node. wn_GetByKey p k = Inr (Some node) \<longrightarrow> node_Name node = k) \<and>
     (\<forall>node. wn_FallbackSource p = Some (Inr node) \<longrightarrow> node_Name node = wn_NodeName p)"

lemma gn_Get_name: "kube_get_node_ok (gn_kube p) \<Longrightarrow> gn_Get p = Inr node \<Longrightarrow> node_Name node = gn_NodeName p"
  by (simp add: gn_Get_def kube_get_node_ok_def)

lemma wn_Get_name: "watch_node_ok p \<Longrightarrow> wn_Get p = Inr node \<Longrightarrow> node_Name node = wn_NodeName p"
  by (auto simp: wn_Get_def wn_get_def watch_node_ok_def split: sum.splits option.splits)

interpretation get_node: node_provider "\<lambda>p. kube_get_node_ok (gn_kube p)" gn_NodeName gn_Get
  by unfold_locales (rule gn_Get_name)

text \<open>Whatever the store and the fallback answer, the provider that \<open>main\<close> creates returns its own node.\<close>

lemma wn_NewProvider_ok:
  assumes "\<forall>k node. informer (wn_selector n) k = Inr (Some node) \<longrightarrow> node_Name node = k"
    and "kube_get_node_ok kube" "fb = None \<or> fb = Some (gn_Get \<lparr>gn_NodeName = n, gn_kube = kube\<rparr>)"
  shows "watch_node_ok (wn_NewProvider n fb informer)"
proof -
  let ?get = "\<lparr>gn_NodeName = n, gn_kube = kube\<rparr>"
  have "node_Name node = n" if "gn_Get ?get = Inr node" for node using gn_Get_name [of ?get, OF _ that] assms(2) by simp
  then show ?thesis using assms(1,3) by (auto simp: watch_node_ok_def wn_NewProvider_def dest: sym)
qed

interpretation watch_node: node_provider watch_node_ok wn_NodeName wn_Get
  by unfold_locales (rule wn_Get_name)

section \<open>Taints\<close>

abbreviation group_taint :: "kube_taint \<Rightarrow> bool" where
  "group_taint t \<equiv> HasPrefix (taint_Key t) GroupNode"

text \<open>The node the API server holds after a successful attempt that read \<open>node\<close>, when nobody else
  wrote it in between.\<close>

definition node_after :: "node_api \<Rightarrow> kube_node \<Rightarrow> kube_node" where
  "node_after api node = (case snd (removeTaints api) of Some n \<Rightarrow> n | None \<Rightarrow> node)"

lemma filter_length_all: "length (filter P xs) = length xs \<Longrightarrow> filter P xs = xs"
  by (metis filter_True length_filter_less order_less_irrefl)

lemma removeTaints_success:
  assumes "fst (removeTaints api) = None"
  shows "\<exists>node. api_get api = Inr node \<and>
    node_after api node = node\<lparr>node_Taints := filter (\<lambda>t. \<not> group_taint t) (node_Taints node)\<rparr> \<and>
    (snd (removeTaints api) = None \<longleftrightarrow> (\<forall>t\<in>set (node_Taints node). \<not> group_taint t))"
proof -
  from assms obtain node where node: "api_get api = Inr node"
    by (auto simp: removeTaints_def split: sum.splits)
  show ?thesis
  proof (cases "\<forall>t\<in>set (node_Taints node). \<not> group_taint t")
    case True
    then have "filter (\<lambda>t. \<not> group_taint t) (node_Taints node) = node_Taints node" by simp
    then show ?thesis using node True by (simp add: removeTaints_def node_after_def)
  next
    case False
    then have "length (filter (\<lambda>t. \<not> group_taint t) (node_Taints node)) \<noteq> length (node_Taints node)"
      using filter_length_all [of "\<lambda>t. \<not> group_taint t" "node_Taints node"]
      by (metis (mono_tags, lifting) filter_id_conv)
    then show ?thesis using node False assms
      by (auto simp: removeTaints_def node_after_def Let_def split: option.splits)
  qed
qed

lemma removeTaints_idem:
  assumes "fst (removeTaints api) = None" "api_get api = Inr node"
    and "api_get api' = Inr (node_after api node)"
  shows "removeTaints api' = (None, None)"
  using removeTaints_success [OF assms(1)] assms(2,3) by (auto simp: removeTaints_def)

lemma taints_operation_simps:
  "well_formed_op (taints_operation api)"
  "Func (taints_operation api) = Some (\<lambda>i. fst (removeTaints (api i)))"
  "IsRetryable (taints_operation api) = Some (\<lambda>_. True)"
  "MaxAttempts (taints_operation api) = 0" "Description (taints_operation api) = ''remove taints from node''"
  by (simp_all add: taints_operation_def well_formed_op_def)




lemma taints_outcome:
  "outcome (retry_defaults (taints_operation api)) (\<lambda>i. fst (removeTaints (api i))) (\<lambda>_. True) sel i =
     (case fst (removeTaints (api i)) of
        None \<Rightarrow> Some None
      | Some err \<Rightarrow>
          if i = 3 then Some (Some (MaxAttemptsError ''remove taints from node'' 3 err))
          else (case sel i of
              CtxDone err' \<Rightarrow> Some (Some (ContextCanceledError ''remove taints from node'' err'))
            | TimerFired \<Rightarrow> None))"
  by (auto simp: outcome_def retry_defaults_MaxAttempts taints_operation_simps
      split: option.splits select_result.splits)

text \<open>An attempt cleans the node: it succeeds, and the object the API server then holds is the one it
  read without the taints of the group.\<close>

definition cleans :: "node_api \<Rightarrow> bool" where
  "cleans api \<longleftrightarrow> fst (removeTaints api) = None \<and>
     (\<exists>node. api_get api = Inr node \<and>
        node_after api node = node\<lparr>node_Taints := filter (\<lambda>t. \<not> group_taint t) (node_Taints node)\<rparr>)"

lemma cleans_iff: "cleans api \<longleftrightarrow> fst (removeTaints api) = None"
  using removeTaints_success [of api] by (auto simp: cleans_def)

text \<open>The attempt that settles a run: nothing before it cleaned the node, and it succeeded or was the last.\<close>

lemma taints_settled:
  assumes "3 \<le> fuel"
  obtains k r where "1 \<le> k" "k \<le> 3" "taints_Remove fuel api sel = Some r"
    "\<forall>j. 1 \<le> j \<and> j < k \<longrightarrow> sel j = TimerFired \<and> \<not> cleans (api j)"
    "rr_err r = None \<longleftrightarrow> cleans (api k)" "cleans (api k) \<or> k = 3 \<or> sel k \<noteq> TimerFired"
proof -
  let ?out = "outcome (retry_defaults (taints_operation api)) (\<lambda>i. fst (removeTaints (api i))) (\<lambda>_. True) sel"
  obtain k r where k: "1 \<le> k" "k \<le> 3" and r: "taints_Remove fuel api sel = Some r"
    and out: "?out k = Some (rr_err r)" and before: "\<forall>j. 1 \<le> j \<and> j < k \<longrightarrow> ?out j = None"
    using retry_bounded [OF taints_operation_simps(1-3) _ refl, of api fuel sel] assms
    by (auto simp: taints_Remove_def taints_operation_simps(4))
  have waits: "sel j = TimerFired \<and> \<not> cleans (api j)" if "1 \<le> j" "j < k" for j
    using before [rule_format, of j] that
    by (auto simp: cleans_iff taints_outcome split: option.splits if_splits select_result.splits)
  have err: "rr_err r = None \<longleftrightarrow> cleans (api k)"
    using out by (cases "rr_err r")
      (auto simp: cleans_iff taints_outcome split: option.splits if_splits select_result.splits)
  have last: "k = 3 \<or> sel k \<noteq> TimerFired" if "\<not> cleans (api k)"
    using out that by (auto simp: cleans_iff taints_outcome split: option.splits)
  show thesis using that [OF k r _ err] waits last by blast
qed

text \<open>C29. \<open>taints.Remove\<close> always returns, after at most three attempts. It succeeds exactly when one
  of the first three attempts cleans the node and the context was not done while waiting for it: the
  node is then left without any taint of the emulator's group, the other taints are kept in their
  order, and nothing else of the object changes. Otherwise it returns an error, which the caller
  ignores: it does not block until it succeeds, as its comment says.\<close>

theorem taints_removed:
  assumes "3 \<le> fuel"
  shows "\<exists>r. taints_Remove fuel api sel = Some r \<and>
    (rr_err r = None \<longleftrightarrow>
       (\<exists>k. 1 \<le> k \<and> k \<le> 3 \<and> (\<forall>j. 1 \<le> j \<and> j < k \<longrightarrow> sel j = TimerFired) \<and> cleans (api k)))"
proof -
  obtain k r where k: "1 \<le> k" "k \<le> 3" and r: "taints_Remove fuel api sel = Some r"
    and waits: "\<forall>j. 1 \<le> j \<and> j < k \<longrightarrow> sel j = TimerFired \<and> \<not> cleans (api j)"
    and err: "rr_err r = None \<longleftrightarrow> cleans (api k)" and last: "cleans (api k) \<or> k = 3 \<or> sel k \<noteq> TimerFired"
    using taints_settled [OF assms, of api sel] .
  have "cleans (api k)" if "1 \<le> k'" "k' \<le> 3" "\<forall>j. 1 \<le> j \<and> j < k' \<longrightarrow> sel j = TimerFired" "cleans (api k')" for k'
  proof (rule ccontr)
    assume no: "\<not> cleans (api k)"
    have "\<not> k' < k" using waits that(1,4) by blast
    moreover have "\<not> k < k'" using last no that(2,3) k(1) by auto
    ultimately show False using that(4) no by simp
  qed
  then have "rr_err r = None \<longleftrightarrow>
      (\<exists>k. 1 \<le> k \<and> k \<le> 3 \<and> (\<forall>j. 1 \<le> j \<and> j < k \<longrightarrow> sel j = TimerFired) \<and> cleans (api k))"
    using err k waits by blast
  then show ?thesis using r by (intro exI [of _ r]) simp
qed

definition example_node :: kube_node where
  "example_node = \<lparr>node_Name = ''kind-worker'', node_Annotations = [], node_Labels = [],
     node_Taints = [\<lparr>taint_Key = ''node.gke-metadata-server.matheuscscp.io/unready'', taint_Value = ''true'', taint_Effect = ''NoExecute''\<rparr>,
                    \<lparr>taint_Key = ''dedicated'', taint_Value = ''ci'', taint_Effect = ''NoSchedule''\<rparr>]\<rparr>"

definition example_api :: "nat \<Rightarrow> node_api" where
  "example_api i = \<lparr>api_get = Inr example_node,
     api_update = (\<lambda>_. if i < 2 then Some (ErrorString ''conflict'') else None)\<rparr>"

lemma example_api_run:
  "fst (removeTaints (example_api 2)) = None"
  "node_Taints (node_after (example_api 2) example_node) =
     [\<lparr>taint_Key = ''dedicated'', taint_Value = ''ci'', taint_Effect = ''NoSchedule''\<rparr>]"
  by code_simp+

theorem taints_removed_witness:
  "\<exists>r. taints_Remove 3 example_api (\<lambda>_. TimerFired) = Some r \<and> rr_err r = None"
proof -
  have "cleans (example_api 2)" using example_api_run(1) by (simp add: cleans_iff)
  then have "\<exists>k. 1 \<le> k \<and> k \<le> 3 \<and> (\<forall>j. 1 \<le> j \<and> j < k \<longrightarrow> (\<lambda>_. TimerFired) j = TimerFired) \<and> cleans (example_api k)"
    by (intro exI [of _ 2]) simp
  then show ?thesis using taints_removed [OF order_refl, of example_api "\<lambda>_. TimerFired"] by fastforce
qed

end
