(* ===== verification/Routing.thy ===== *)
theory Routing
  imports Attestation Node
begin

text \<open>
  How connections to the metadata server's address reach the emulator: the routing mode of a node
  (\<open>internal/routing\<close>), the loopback address (\<open>internal/loopback\<close>), the redirecting eBPF program
  (\<open>internal/redirect\<close> and \<open>ebpf/redirect.c\<close>) and loading the attestation program
  (\<open>internal/attestation/bpf\<close>). What the kernel, netlink and the eBPF library answer are
  parameters.
\<close>

section \<open>loopback.go\<close>

definition gkeMetadataServerIP :: string where "gkeMetadataServerIP = ''169.254.169.254''"
definition GKEMetadataServerAddr :: string where "GKEMetadataServerAddr = gkeMetadataServerIP @ '':80''"
definition gkeMetadataServerAddrLabel :: string where "gkeMetadataServerAddrLabel = ''lo:gke-md-sv''"

text \<open>
  The netlink library. \<open>'a\<close> is \<open>netlink.Addr\<close>, \<open>'k\<close> the kernel's state; \<open>nl_LinkByName\<close> is the error of
  looking up \<open>lo\<close>, \<open>nl_Addr\<close> the parsed address with its label and scope.
\<close>

record ('a, 'k) netlink =
  nl_LinkByName :: "goerr option"
  nl_Addr :: 'a
  nl_AddrList :: "'k \<Rightarrow> 'a list res"
  nl_Equal :: "'a \<Rightarrow> 'a \<Rightarrow> bool"
  nl_String :: "'a \<Rightarrow> string"
  nl_AddrAdd :: "'k \<Rightarrow> 'a \<Rightarrow> 'k res"

text \<open>The \<open>close\<close> function is the same on every successful path: \<open>AddrDel(lo, gkeMetadataServerAddr)\<close>.\<close>

datatype closer = CloseLoopback | CloseRedirect | CloseNothing

definition loopback_LoadAndAttach :: "('a, 'k) netlink \<Rightarrow> 'k \<Rightarrow> closer res \<times> 'k" where
  "loopback_LoadAndAttach nl k =
     (case nl_LinkByName nl of
        Some err \<Rightarrow> (Inl (errorf ''error loading loopback interface: '' err), k)
      | None \<Rightarrow>
          (case nl_AddrList nl k of
             Inl err \<Rightarrow> (Inl (errorf ''error listing addresses of the loopback interface: '' err), k)
           | Inr loAddrs \<Rightarrow>
               (case List.find (\<lambda>addr. nl_Equal nl addr (nl_Addr nl)) loAddrs of
                  Some addr \<Rightarrow>
                    (let a = nl_String nl addr in
                     if a \<noteq> nl_String nl (nl_Addr nl)
                     then (Inl (ErrorString (''the gke-metadata-server address is already present in the loopback interface: '' @ a)), k)
                     else (Inr CloseLoopback, k))
                | None \<Rightarrow>
                    (case nl_AddrAdd nl k (nl_Addr nl) of
                       Inl err \<Rightarrow> (Inl (errorf ''error adding the gke-metadata-server address to the loopback interface: '' err), k)
                     | Inr k' \<Rightarrow> (Inr CloseLoopback, k')))))"

section \<open>redirect.go\<close>

record redirect_config =
  EmulatorCgroupId :: "64 word"
  EmulatorIp :: "32 word"
  EmulatorPort :: "16 word"
  Debug :: "16 word"

text \<open>The kernel's side: whether the objects (program and map) are loaded, the map's only entry, and
  whether the program is attached.\<close>

record redirect_state =
  rs_loaded :: bool
  rs_config :: "redirect_config option"
  rs_attached :: bool

definition redirect_init :: redirect_state where
  "redirect_init = \<lparr>rs_loaded = False, rs_config = None, rs_attached = False\<rparr>"

record redirect_env =
  re_load :: "goerr option"
  re_cgroup_file :: "(string list \<times> goerr option) res"   \<comment> \<open>lines of /proc/self/cgroup and the scanner's error\<close>
  re_stat :: "string \<Rightarrow> (64 word) res"                     \<comment> \<open>\<open>syscall.Stat\<close>: the inode\<close>
  re_join :: "string \<Rightarrow> string \<Rightarrow> string"                 \<comment> \<open>\<open>filepath.Join\<close>\<close>
  re_debug :: bool
  re_update :: "goerr option"
  re_attach :: "goerr option"

definition cgroupv2Mount :: string where "cgroupv2Mount = ''/sys/fs/cgroup''"

text \<open>The scanning loop, which breaks at the first unified entry; the path stays empty without one.\<close>

fun scan_self :: "string list \<Rightarrow> string" where
  "scan_self [] = []"
| "scan_self (line # rest) =
     (let fields = SplitN 3 (CHR '':'') line in
      if length fields = 3 \<and> fields ! 0 = ''0'' \<and> fields ! 1 = [] then fields ! 2
      else scan_self rest)"

definition selfCgroupID :: "redirect_env \<Rightarrow> (64 word) res" where
  "selfCgroupID env =
     (case re_cgroup_file env of
        Inl err \<Rightarrow> Inl (errorf ''error opening /proc/self/cgroup: '' err)
      | Inr (lines, scan_err) \<Rightarrow>
          (case scan_err of
             Some err \<Rightarrow> Inl (errorf ''error reading /proc/self/cgroup: '' err)
           | None \<Rightarrow>
               (let cgroupPath = scan_self lines in
                if cgroupPath = [] then Inl (ErrorString
                  ''could not find cgroup v2 entry in /proc/self/cgroup; only the unified hierarchy is supported'')
                else (let dir = re_join env cgroupv2Mount cgroupPath in
                  case re_stat env dir of
                    Inl err \<Rightarrow> Inl (errorf (''error stating cgroup directory '' @ Quote dir @ '': '') err)
                  | Inr ino \<Rightarrow> Inr ino))))"

text \<open>\<open>binary.BigEndian.Uint32\<close>.\<close>

definition BigEndian_Uint32 :: "8 word list \<Rightarrow> 32 word" where
  "BigEndian_Uint32 bs = (case bs of
      [a, b, c, d] \<Rightarrow> ucast d OR push_bit 8 (ucast c) OR push_bit 16 (ucast b) OR push_bit 24 (ucast a)
    | _ \<Rightarrow> 0)"

definition redirect_LoadAndAttach ::
    "redirect_env \<Rightarrow> netip_addr \<Rightarrow> int \<Rightarrow> redirect_state \<Rightarrow> (closer res \<times> redirect_state) go" where
  "redirect_LoadAndAttach env emulatorIP emulatorPort st =
     (case re_load env of
        Some err \<Rightarrow> Ret (Inl (errorf ''error loading redirect eBPF redirect objects: '' err), st)
      | None \<Rightarrow>
          (let st = st\<lparr>rs_loaded := True\<rparr> in
           case selfCgroupID env of
             Inl err \<Rightarrow> Ret (Inl (errorf ''error resolving emulator cgroup id: '' err), st)
           | Inr cgroupID \<Rightarrow>
               gobind (As4 emulatorIP) (\<lambda>emulatorIPv4.
                 let config = \<lparr>EmulatorCgroupId = cgroupID, EmulatorIp = BigEndian_Uint32 emulatorIPv4,
                               EmulatorPort = word_of_int emulatorPort, Debug = 0\<rparr>;
                     config = (if re_debug env then config\<lparr>Debug := 1\<rparr> else config)
                 in case re_update env of
                      Some err \<Rightarrow> Ret (Inl (errorf ''error updating redirect eBPF config map: '' err), st)
                    | None \<Rightarrow>
                        (let st = st\<lparr>rs_config := Some config\<rparr> in
                         case re_attach env of
                           Some err \<Rightarrow> Ret (Inl (errorf ''error attaching redirect eBPF program to cgroup: '' err), st)
                         | None \<Rightarrow> Ret (Inr CloseRedirect, st\<lparr>rs_attached := True\<rparr>)))))"

text \<open>The function it returns: closes the link and the objects, and reports both errors.\<close>

definition redirect_close :: "goerr option \<Rightarrow> goerr option \<Rightarrow> redirect_state \<Rightarrow> goerr option \<times> redirect_state" where
  "redirect_close e1 e2 st =
     ((case (e1, e2) of
         (None, e2) \<Rightarrow> e2
       | (Some e1, None) \<Rightarrow> Some e1
       | (Some e1, Some e2) \<Rightarrow> Some (JoinErrors [e1, e2])),
      st\<lparr>rs_attached := (if e1 = None then False else rs_attached st),
         rs_loaded := (if e2 = None then False else rs_loaded st)\<rparr>)"

section \<open>redirect.c\<close>

text \<open>\<open>bpf_ntohl\<close> and \<open>bpf_htonl\<close>: the bytes in reverse order.\<close>

definition bpf_swap32 :: "32 word \<Rightarrow> 32 word" where
  "bpf_swap32 w = native_u32 [ucast (drop_bit 24 w), ucast (drop_bit 16 w), ucast (drop_bit 8 w), ucast w]"

text \<open>The context of a \<open>connect4\<close> hook: \<open>user_ip4\<close> and \<open>user_port\<close> are in network byte order.\<close>

record bpf_sock_addr =
  user_family :: nat
  sk_protocol :: nat
  user_ip4 :: "32 word"
  user_port :: "32 word"

definition IPPROTO_TCP :: nat where "IPPROTO_TCP = 6"

definition redirect_connect4 :: "redirect_config option \<Rightarrow> 64 word \<Rightarrow> bpf_sock_addr \<Rightarrow> bpf_sock_addr" where
  "redirect_connect4 map_config current_cgroup_id ctx =
     (if user_family ctx \<noteq> AF_INET \<or> sk_protocol ctx \<noteq> IPPROTO_TCP then ctx
      else (let dst = bpf_swap32 (user_ip4 ctx);
                dst_port = (ucast (htons (ucast (user_port ctx))) :: 32 word)
            in if dst \<noteq> 0xA9FEA9FE \<or> dst_port \<noteq> 80 then ctx
               else case map_config of
                   None \<Rightarrow> ctx
                 | Some conf \<Rightarrow>
                     if current_cgroup_id = EmulatorCgroupId conf then ctx
                     else ctx\<lparr>user_ip4 := bpf_swap32 (EmulatorIp conf),
                              user_port := ucast (htons (EmulatorPort conf))\<rparr>))"

section \<open>bpf.go: loading the attestation program\<close>

record attest_objs =
  ao_loaded :: bool
  ao_attached :: bool

definition attest_LoadAndAttach :: "goerr option \<Rightarrow> goerr option \<Rightarrow> attest_objs \<Rightarrow> unit res \<times> attest_objs" where
  "attest_LoadAndAttach load_err attach_err st =
     (case load_err of
        Some err \<Rightarrow> (Inl (errorf ''loading attest eBPF objects: '' err), st)
      | None \<Rightarrow>
          (let st = st\<lparr>ao_loaded := True\<rparr> in
           case attach_err of
             Some err \<Rightarrow> (Inl (errorf ''attaching attest sockops program to cgroup: '' err), st\<lparr>ao_loaded := False\<rparr>)
           | None \<Rightarrow> (Inr (), st\<lparr>ao_attached := True\<rparr>)))"

text \<open>\<open>errors.Join\<close> drops nil errors and is nil when all are.\<close>

definition errors_Join :: "goerr option list \<Rightarrow> goerr option" where
  "errors_Join es = (let es = concat (map (\<lambda>e. case e of None \<Rightarrow> [] | Some e \<Rightarrow> [e]) es) in
     if es = [] then None else Some (JoinErrors es))"

definition attest_Close :: "goerr option \<Rightarrow> goerr option \<Rightarrow> attest_objs \<Rightarrow> goerr option \<times> attest_objs" where
  "attest_Close e1 e2 st =
     (errors_Join [e1, e2],
      st\<lparr>ao_attached := (if e1 = None then False else ao_attached st),
         ao_loaded := (if e2 = None then False else ao_loaded st)\<rparr>)"

section \<open>routing.go\<close>

definition getMode :: "kube_node \<Rightarrow> string" where
  "getMode node =
     (let m = gomap_get (node_Annotations node) AnnotationRoutingMode in
      if m \<noteq> [] then m
      else (let m = gomap_get (node_Labels node) AnnotationRoutingMode in
        if m \<noteq> [] then m else RoutingModeDefault))"

text \<open>The result of \<open>routing.LoadAndAttach\<close> is the mode and the closer; the state is the kernel's
  loopback addresses and the redirect program.\<close>

definition routing_LoadAndAttach ::
    "('a, 'k) netlink \<Rightarrow> redirect_env \<Rightarrow> kube_node \<Rightarrow> netip_addr \<Rightarrow> int \<Rightarrow> 'k \<Rightarrow> redirect_state \<Rightarrow>
     ((string \<times> closer) res \<times> 'k \<times> redirect_state) go" where
  "routing_LoadAndAttach nl env node emulatorIP emulatorPort k st =
     (let mode = getMode node in
      if mode = RoutingModeBPF then
        gobind (redirect_LoadAndAttach env emulatorIP emulatorPort st) (\<lambda>(r, st').
          Ret (map_sum id (\<lambda>c. (mode, c)) r, k, st'))
      else if mode = RoutingModeLoopback then
        (case loopback_LoadAndAttach nl k of (r, k') \<Rightarrow> Ret (map_sum id (\<lambda>c. (mode, c)) r, k', st))
      else if mode = RoutingModeNone then Ret (Inr (mode, CloseNothing), k, st)
      else Ret (Inl (ErrorString (''invalid routing mode: '' @ mode)), k, st))"


section \<open>Byte order\<close>

lemma BigEndian_native: "BigEndian_Uint32 [a, b, c, d] = native_u32 [d, c, b, a]"
  by (simp add: BigEndian_Uint32_def native_u32_def)

lemma swap_native: "bpf_swap32 (native_u32 [a, b, c, d]) = BigEndian_Uint32 [a, b, c, d]"
  by (simp add: bpf_swap32_def native_u32_bytes BigEndian_native)

lemma swap_BigEndian: "bpf_swap32 (BigEndian_Uint32 [a, b, c, d]) = native_u32 [a, b, c, d]"
  by (simp add: BigEndian_native swap_native)

lemma metadata_ip: "BigEndian_Uint32 [a, b, c, d] = 0xA9FEA9FE \<longleftrightarrow> [a, b, c, d] = [169, 254, 169, 254]"
proof -
  have "(0xA9FEA9FE :: 32 word) = native_u32 [254, 169, 254, 169]" by code_simp
  then have "native_u32 [d, c, b, a] = 0xA9FEA9FE \<longleftrightarrow> [d, c, b, a] = [254, 169, 254, 169]"
    using native_u32_inj [of d c b a 254 169 254 169] by metis
  then show ?thesis by (auto simp: BigEndian_native)
qed

lemma port_80: "(ucast (p :: 16 word) :: 32 word) = 80 \<longleftrightarrow> p = 80"
proof
  assume "(ucast p :: 32 word) = 80"
  then have "ucast (ucast p :: 32 word) = (ucast (80 :: 32 word) :: 16 word)" by simp
  then show "p = 80" by (simp add: ucast_ucast_port)
qed simp

text \<open>The context of a \<open>connect\<close> to \<open>dst:port\<close>.\<close>

definition sock_addr_of :: "nat \<Rightarrow> nat \<Rightarrow> 8 word \<times> 8 word \<times> 8 word \<times> 8 word \<Rightarrow> 16 word \<Rightarrow> bpf_sock_addr" where
  "sock_addr_of family proto dst port = \<lparr>user_family = family, sk_protocol = proto,
     user_ip4 = native_u32 (quad_bytes dst), user_port = ucast (htons port)\<rparr>"

lemma sock_addr_of_eq: "sock_addr_of f p dst port = sock_addr_of f p dst' port' \<longleftrightarrow> dst = dst' \<and> port = port'"
proof -
  have "(ucast (htons port) :: 32 word) = ucast (htons port') \<Longrightarrow> port = port'"
    by (metis ucast_ucast_port htons_inj)
  moreover have "native_u32 (quad_bytes dst) = native_u32 (quad_bytes dst') \<Longrightarrow> dst = dst'"
    by (cases dst; cases dst') (auto simp: quad_bytes_def dest: native_u32_inj)
  ultimately show ?thesis by (auto simp: sock_addr_of_def)
qed

lemma connect4_unconfigured: "redirect_connect4 None g ctx = ctx"
  by (simp add: redirect_connect4_def Let_def)

lemma connect4_configured:
  "redirect_connect4 (Some conf) g (sock_addr_of family proto dst port) =
     (if family = AF_INET \<and> proto = IPPROTO_TCP \<and> dst = (169, 254, 169, 254) \<and> port = 80 \<and>
         g \<noteq> EmulatorCgroupId conf
      then \<lparr>user_family = family, sk_protocol = proto, user_ip4 = bpf_swap32 (EmulatorIp conf),
            user_port = ucast (htons (EmulatorPort conf))\<rparr>
      else sock_addr_of family proto dst port)"
  by (cases dst) (auto simp: redirect_connect4_def sock_addr_of_def Let_def quad_bytes_def swap_native
      metadata_ip ucast_ucast_port port_80)

section \<open>Loading the redirect\<close>

lemma redirect_success:
  assumes "redirect_LoadAndAttach env ip port st = Ret (Inr c, st')"
  shows "\<exists>cg bs conf. selfCgroupID env = Inr cg \<and> As4 ip = Ret bs \<and> rs_config st' = Some conf \<and>
    EmulatorCgroupId conf = cg \<and> EmulatorIp conf = BigEndian_Uint32 bs \<and>
    EmulatorPort conf = word_of_int port \<and> rs_loaded st' \<and> rs_attached st' \<and> c = CloseRedirect"
  using assms
  by (auto simp: redirect_LoadAndAttach_def gobind_Ret_iff Let_def split: option.splits sum.splits)

lemma redirect_failure:
  assumes "redirect_LoadAndAttach env ip port st = Ret (Inl e, st')"
  shows "rs_attached st' = rs_attached st \<and> rs_loaded st' = (rs_loaded st \<or> re_load env = None)"
  using assms
  by (auto simp: redirect_LoadAndAttach_def gobind_Ret_iff Let_def split: option.splits sum.splits)

lemma redirect_total: "\<exists>r st'. redirect_LoadAndAttach env (quad_addr ip) port st = Ret (r, st')"
  unfolding redirect_LoadAndAttach_def As4_quad Let_def gobind.simps
  by (auto split: option.split sum.split)

lemma redirect_loaded:
  assumes "redirect_LoadAndAttach env (quad_addr ip) port st = Ret (Inr c, st')"
  shows "redirect_connect4 (rs_config st') g (sock_addr_of family proto dst dport) =
      (if family = AF_INET \<and> proto = IPPROTO_TCP \<and> dst = (169, 254, 169, 254) \<and> dport = 80 \<and>
          selfCgroupID env \<noteq> Inr g
       then sock_addr_of family proto ip (word_of_int port)
       else sock_addr_of family proto dst dport)" "rs_attached st'"
proof -
  obtain a b c' d where ip: "ip = (a, b, c', d)" by (cases ip)
  obtain conf where conf: "selfCgroupID env = Inr (EmulatorCgroupId conf)" "rs_config st' = Some conf"
      "EmulatorIp conf = BigEndian_Uint32 [a, b, c', d]" "EmulatorPort conf = word_of_int port" "rs_attached st'"
    using redirect_success [OF assms] by (auto simp: As4_quad quad_bytes_def ip)
  show "rs_attached st'" by (rule conf)
  have "sock_addr_of family proto ip (word_of_int port) =
      \<lparr>user_family = family, sk_protocol = proto, user_ip4 = bpf_swap32 (BigEndian_Uint32 [a, b, c', d]),
       user_port = ucast (htons (word_of_int port))\<rparr>"
    by (simp add: sock_addr_of_def swap_BigEndian quad_bytes_def ip)
  with conf show "redirect_connect4 (rs_config st') g (sock_addr_of family proto dst dport) =
      (if family = AF_INET \<and> proto = IPPROTO_TCP \<and> dst = (169, 254, 169, 254) \<and> dport = 80 \<and>
          selfCgroupID env \<noteq> Inr g
       then sock_addr_of family proto ip (word_of_int port)
       else sock_addr_of family proto dst dport)"
    by (auto simp: connect4_configured)
qed

text \<open>C19. Once the redirect is loaded for an IPv4 address and a port, a \<open>connect\<close> is redirected
  exactly when it is an IPv4 TCP connection to 169.254.169.254:80 from a cgroup other than the
  emulator's own; its destination is then the emulator's address and port, in network byte order, and
  every other \<open>connect\<close> keeps its destination. The emulator's own connections to the real server
  thus never come back to it.\<close>

theorem redirect_exact:
  assumes "redirect_LoadAndAttach env (quad_addr ip) port st = Ret (Inr c, st')"
  shows "rs_attached st' \<and>
    redirect_connect4 (rs_config st') g (sock_addr_of family proto dst dport) =
      (if family = AF_INET \<and> proto = IPPROTO_TCP \<and> dst = (169, 254, 169, 254) \<and> dport = 80 \<and>
          selfCgroupID env \<noteq> Inr g
       then sock_addr_of family proto ip (word_of_int port)
       else sock_addr_of family proto dst dport)"
  using redirect_loaded [OF assms] by blast

definition example_redirect_env :: redirect_env where
  "example_redirect_env = \<lparr>re_load = None,
     re_cgroup_file = Inr ([''1:name=systemd:/'', ''0::/kubepods/emulator''], None),
     re_stat = (\<lambda>dir. if dir = ''/sys/fs/cgroup/kubepods/emulator'' then Inr 7 else Inl (ErrorString ''no such file'')),
     re_join = (@), re_debug = False, re_update = None, re_attach = None\<rparr>"

lemma example_redirect_cgroup: "selfCgroupID example_redirect_env = Inr 7"
  by code_simp

lemma example_redirect_load:
  "\<exists>st'. redirect_LoadAndAttach example_redirect_env (quad_addr (10, 0, 0, 2)) 16321 redirect_init =
     Ret (Inr CloseRedirect, st')"
  unfolding redirect_LoadAndAttach_def example_redirect_cgroup
  by (simp add: example_redirect_env_def As4_quad Let_def)

theorem redirect_exact_witness:
  "\<exists>st'. redirect_LoadAndAttach example_redirect_env (quad_addr (10, 0, 0, 2)) 16321 redirect_init =
       Ret (Inr CloseRedirect, st') \<and>
     redirect_connect4 (rs_config st') 9 (sock_addr_of 2 6 (169, 254, 169, 254) 80) =
       sock_addr_of 2 6 (10, 0, 0, 2) 16321 \<and>
     redirect_connect4 (rs_config st') 7 (sock_addr_of 2 6 (169, 254, 169, 254) 80) =
       sock_addr_of 2 6 (169, 254, 169, 254) 80"
proof -
  obtain st' where st': "redirect_LoadAndAttach example_redirect_env (quad_addr (10, 0, 0, 2)) 16321 redirect_init =
      Ret (Inr CloseRedirect, st')"
    using example_redirect_load by blast
  show ?thesis
    using st' redirect_exact [OF st', of 9 2 6 "(169, 254, 169, 254)" 80]
      redirect_exact [OF st', of 7 2 6 "(169, 254, 169, 254)" 80]
    by (simp add: AF_INET_def IPPROTO_TCP_def example_redirect_cgroup)
qed


section \<open>The routing mode\<close>

text \<open>The laws of netlink the loopback route relies on: an address equals itself, and adding it makes
  the list of addresses gain it and nothing else.\<close>

definition netlink_ok :: "('a, 'k) netlink \<Rightarrow> bool" where
  "netlink_ok nl \<longleftrightarrow> nl_Equal nl (nl_Addr nl) (nl_Addr nl) \<and>
     (\<forall>k k' as. nl_AddrAdd nl k (nl_Addr nl) = Inr k' \<longrightarrow> nl_AddrList nl k = Inr as \<longrightarrow>
        (\<exists>bs. nl_AddrList nl k' = Inr bs \<and> set bs = insert (nl_Addr nl) (set as)))"

text \<open>The address is on the loopback interface, labelled as the emulator labels it.\<close>

definition lo_attached :: "('a, 'k) netlink \<Rightarrow> 'k \<Rightarrow> bool" where
  "lo_attached nl k \<longleftrightarrow> nl_LinkByName nl = None \<and>
     (\<exists>as a. nl_AddrList nl k = Inr as \<and> List.find (\<lambda>x. nl_Equal nl x (nl_Addr nl)) as = Some a \<and>
        nl_String nl a = nl_String nl (nl_Addr nl))"

lemma loopback_attached: "lo_attached nl k \<Longrightarrow> loopback_LoadAndAttach nl k = (Inr CloseLoopback, k)"
  by (auto simp: lo_attached_def loopback_LoadAndAttach_def)

lemma loopback_success:
  assumes ok: "netlink_ok nl" and run: "loopback_LoadAndAttach nl k = (Inr c, k')"
  shows "c = CloseLoopback \<and> lo_attached nl k'"
proof -
  from run obtain as where link: "nl_LinkByName nl = None" "nl_AddrList nl k = Inr as"
    by (auto simp: loopback_LoadAndAttach_def split: option.splits sum.splits)
  show ?thesis
  proof (cases "List.find (\<lambda>x. nl_Equal nl x (nl_Addr nl)) as")
    case (Some a)
    then show ?thesis using run link
      by (auto simp: loopback_LoadAndAttach_def lo_attached_def Let_def split: if_splits)
  next
    case None
    then have add: "nl_AddrAdd nl k (nl_Addr nl) = Inr k'" and c: "c = CloseLoopback"
      using run link by (auto simp: loopback_LoadAndAttach_def split: sum.splits)
    then obtain bs where bs: "nl_AddrList nl k' = Inr bs" "set bs = insert (nl_Addr nl) (set as)"
      using ok link unfolding netlink_ok_def by blast
    then obtain b where b: "List.find (\<lambda>x. nl_Equal nl x (nl_Addr nl)) bs = Some b"
      using ok by (cases "List.find (\<lambda>x. nl_Equal nl x (nl_Addr nl)) bs")
        (auto simp: find_None_iff netlink_ok_def)
    have "b = nl_Addr nl" using find_Some_in [OF b] None bs(2) by (auto simp: find_None_iff)
    then show ?thesis using link bs b c by (auto simp: lo_attached_def)
  qed
qed

text \<open>The routing mode of a node is its annotation, else its label, else eBPF, where an empty
  value counts as absent. Loading it for an IPv4 address never panics. A mode that is none of the
  three is an error that touches nothing; a mode that loads is reported as it is, and only its own
  mechanism is touched: eBPF leaves the redirect attached, Loopback leaves the address on the
  loopback interface, None changes nothing.\<close>

lemma routing_loads:
  assumes "netlink_ok nl"
  shows "\<exists>r k' st'. routing_LoadAndAttach nl env node (quad_addr ip) port k st = Ret (r, k', st') \<and>
    (case r of
       Inl err \<Rightarrow> rs_attached st' = rs_attached st \<and>
         (getMode node \<notin> {RoutingModeBPF, RoutingModeLoopback, RoutingModeNone} \<longrightarrow> k' = k \<and> st' = st)
     | Inr (mode, c) \<Rightarrow> mode = getMode node \<and>
         (mode = RoutingModeBPF \<and> k' = k \<and> rs_attached st' \<and> c = CloseRedirect \<or>
          mode = RoutingModeLoopback \<and> st' = st \<and> lo_attached nl k' \<and> c = CloseLoopback \<or>
          mode = RoutingModeNone \<and> k' = k \<and> st' = st \<and> c = CloseNothing))"
proof -
  have distinct: "RoutingModeBPF \<noteq> RoutingModeLoopback" "RoutingModeBPF \<noteq> RoutingModeNone"
      "RoutingModeLoopback \<noteq> RoutingModeNone"
    by (simp_all add: api_defs)
  obtain r st' where red: "redirect_LoadAndAttach env (quad_addr ip) port st = Ret (r, st')"
    using redirect_total by blast
  obtain r2 k' where lo: "loopback_LoadAndAttach nl k = (r2, k')" by (cases "loopback_LoadAndAttach nl k")
  consider (bpf) "getMode node = RoutingModeBPF" | (loop) "getMode node = RoutingModeLoopback"
    | (none) "getMode node = RoutingModeNone"
    | (other) "getMode node \<notin> {RoutingModeBPF, RoutingModeLoopback, RoutingModeNone}"
    by blast
  then show ?thesis
  proof cases
    case bpf
    then show ?thesis
      using red redirect_failure [of env "quad_addr ip" port st _ st'] redirect_success [of env "quad_addr ip" port st _ st']
      by (cases r) (auto simp: routing_LoadAndAttach_def)
  next
    case loop
    then show ?thesis
      using lo loopback_success [OF assms, of k _ k'] distinct
      by (cases r2) (auto simp: routing_LoadAndAttach_def)
  next
    case none
    then show ?thesis using distinct by (simp add: routing_LoadAndAttach_def)
  next
    case other
    then show ?thesis by (simp add: routing_LoadAndAttach_def)
  qed
qed

lemma getMode_cases:
  "getMode node = (if gomap_get (node_Annotations node) AnnotationRoutingMode \<noteq> []
     then gomap_get (node_Annotations node) AnnotationRoutingMode
     else if gomap_get (node_Labels node) AnnotationRoutingMode \<noteq> []
     then gomap_get (node_Labels node) AnnotationRoutingMode else RoutingModeBPF)"
  by (simp add: getMode_def Let_def RoutingModeDefault_def)

text \<open>A netlink whose kernel state is the list of addresses of the interface.\<close>

definition list_netlink :: "(string, string list) netlink" where
  "list_netlink = \<lparr>nl_LinkByName = None, nl_Addr = ''169.254.169.254/32 lo:gke-md-sv'', nl_AddrList = Inr,
     nl_Equal = (\<lambda>a b. take 18 a = take 18 b), nl_String = (\<lambda>a. a), nl_AddrAdd = (\<lambda>k a. Inr (k @ [a]))\<rparr>"

lemma list_netlink_ok: "netlink_ok list_netlink"
  by (auto simp: netlink_ok_def list_netlink_def)

definition loopback_node :: kube_node where
  "loopback_node = \<lparr>node_Name = ''n'', node_Annotations = [],
     node_Labels = [(AnnotationRoutingMode, RoutingModeLoopback)], node_Taints = []\<rparr>"

lemma routing_loads_example:
  "\<exists>k'. routing_LoadAndAttach list_netlink example_redirect_env loopback_node (quad_addr (10, 0, 0, 2)) 16321
      [''127.0.0.1/8''] redirect_init =
    Ret (Inr (RoutingModeLoopback, CloseLoopback), k', redirect_init) \<and> lo_attached list_netlink k'"
proof -
  have mode: "getMode loopback_node = RoutingModeLoopback" by code_simp
  have run: "loopback_LoadAndAttach list_netlink [''127.0.0.1/8''] =
      (Inr CloseLoopback, [''127.0.0.1/8'', ''169.254.169.254/32 lo:gke-md-sv''])"
    by code_simp
  have "RoutingModeLoopback \<noteq> RoutingModeBPF" by code_simp
  then have eq: "routing_LoadAndAttach list_netlink example_redirect_env loopback_node (quad_addr (10, 0, 0, 2)) 16321
      [''127.0.0.1/8''] redirect_init =
    Ret (Inr (RoutingModeLoopback, CloseLoopback), [''127.0.0.1/8'', ''169.254.169.254/32 lo:gke-md-sv''], redirect_init)"
    unfolding routing_LoadAndAttach_def mode run Let_def by simp
  moreover have "RoutingModeLoopback \<noteq> RoutingModeNone" by code_simp
  ultimately show ?thesis
    using routing_loads [OF list_netlink_ok, of example_redirect_env loopback_node "(10, 0, 0, 2)" 16321
        "[''127.0.0.1/8'']" redirect_init] \<open>RoutingModeLoopback \<noteq> RoutingModeBPF\<close> by auto
qed

text \<open>A restart in Loopback mode is idempotent: after a successful load, loading again succeeds
  without touching the interface.\<close>

lemma loopback_restart:
  assumes "netlink_ok nl" "loopback_LoadAndAttach nl k = (Inr c, k')"
  shows "loopback_LoadAndAttach nl k' = (Inr c, k')"
  using loopback_success [OF assms] by (auto simp: loopback_attached)

lemma loopback_restart_example:
  "loopback_LoadAndAttach list_netlink [''127.0.0.1/8'', ''169.254.169.254/32 lo:gke-md-sv''] =
     (Inr CloseLoopback, [''127.0.0.1/8'', ''169.254.169.254/32 lo:gke-md-sv''])"
proof -
  have "loopback_LoadAndAttach list_netlink [''127.0.0.1/8''] =
      (Inr CloseLoopback, [''127.0.0.1/8'', ''169.254.169.254/32 lo:gke-md-sv''])"
    by code_simp
  from loopback_restart [OF list_netlink_ok this] show ?thesis .
qed

text \<open>An error of the redirect after its objects were loaded leaves them loaded, unlike an error
  of the attestation program, which unloads its objects; neither leaves its program attached.\<close>

lemma load_errors:
  "(redirect_LoadAndAttach env ip port st = Ret (Inl e, st') \<longrightarrow>
      rs_attached st' = rs_attached st \<and> rs_loaded st' = (rs_loaded st \<or> re_load env = None)) \<and>
   (attest_LoadAndAttach load_err attach_err \<lparr>ao_loaded = False, ao_attached = False\<rparr> = (Inl e, ao) \<longrightarrow>
      ao = \<lparr>ao_loaded = False, ao_attached = False\<rparr>)"
  using redirect_failure [of env ip port st e st']
  by (auto simp: attest_LoadAndAttach_def Let_def split: option.splits)

lemma load_errors_example:
  "\<exists>e st'. redirect_LoadAndAttach (example_redirect_env\<lparr>re_attach := Some (ErrorString ''EPERM'')\<rparr>)
      (quad_addr (10, 0, 0, 2)) 16321 redirect_init = Ret (Inl e, st') \<and> rs_loaded st' \<and> \<not> rs_attached st'"
proof -
  let ?env = "example_redirect_env\<lparr>re_attach := Some (ErrorString ''EPERM'')\<rparr>"
  have "selfCgroupID ?env = Inr 7" by code_simp
  then obtain e st' where run: "redirect_LoadAndAttach ?env (quad_addr (10, 0, 0, 2)) 16321 redirect_init = Ret (Inl e, st')"
    by (auto simp: redirect_LoadAndAttach_def example_redirect_env_def As4_quad Let_def)
  moreover have "re_load ?env = None" "\<not> rs_attached redirect_init"
    by (simp_all add: example_redirect_env_def redirect_init_def)
  ultimately show ?thesis
    using load_errors [of ?env "quad_addr (10, 0, 0, 2)" 16321 redirect_init e st'] by auto
qed

end
