(* ===== verification/Server.thy ===== *)
theory Server
  imports Server_Contract Routing
begin

text \<open>
  \<open>internal/server/server.go\<close>: the route table of the metadata server, the middleware every request
  goes through, the health endpoints and the shutdown. The properties are about whole requests: every
  request gets a response, and the providers are only called on behalf of the pod that opened the
  connection.
\<close>

section \<open>Routes\<close>

definition gkeNodeNamePath :: string where "gkeNodeNamePath = ''/computeMetadata/v1/instance/name''"
definition gkeProjectIDPath :: string where "gkeProjectIDPath = ''/computeMetadata/v1/project/project-id''"
definition gkeNumericProjectIDPath :: string where "gkeNumericProjectIDPath = ''/computeMetadata/v1/project/numeric-project-id''"
definition gkeServiceAccountsDirectory :: string where
  "gkeServiceAccountsDirectory = ''/computeMetadata/v1/instance/service-accounts/$service_account''"
definition gkeServiceAccountAliasesPath :: string where "gkeServiceAccountAliasesPath = gkeServiceAccountsDirectory @ ''/aliases''"
definition gkeServiceAccountEmailPath :: string where "gkeServiceAccountEmailPath = gkeServiceAccountsDirectory @ ''/email''"
definition gkeServiceAccountIdentityPath :: string where "gkeServiceAccountIdentityPath = gkeServiceAccountsDirectory @ ''/identity''"
definition gkeServiceAccountScopesPath :: string where "gkeServiceAccountScopesPath = gkeServiceAccountsDirectory @ ''/scopes''"
definition gkeServiceAccountTokenPath :: string where "gkeServiceAccountTokenPath = gkeServiceAccountsDirectory @ ''/token''"

lemmas path_defs = gkeNodeNamePath_def gkeProjectIDPath_def gkeNumericProjectIDPath_def gkeServiceAccountsDirectory_def
  gkeServiceAccountAliasesPath_def gkeServiceAccountEmailPath_def gkeServiceAccountIdentityPath_def
  gkeServiceAccountScopesPath_def gkeServiceAccountTokenPath_def

type_synonym server_tree = "((server_ctx, server_state) getter, (server_ctx, server_state) lister) directoryNode"

text \<open>The nine registrations of \<open>New\<close>, in order.\<close>

definition metadataHandler :: "server \<Rightarrow> server_tree go" where
  "metadataHandler s =
     gobind (HandleMetadata gkeNodeNamePath (Some (MetadataHandlerFunc (gkeNodeNameAPI s))) empty_node) (\<lambda>h.
     gobind (HandleMetadata gkeProjectIDPath (Some (MetadataHandlerFunc (gkeProjectIDAPI s))) h) (\<lambda>h.
     gobind (HandleMetadata gkeNumericProjectIDPath (Some (MetadataHandlerFunc (gkeNumericProjectIDAPI s))) h) (\<lambda>h.
     gobind (HandleDirectory gkeServiceAccountsDirectory (Some (listPodGoogleServiceAccounts s)) h) (\<lambda>h.
     gobind (HandleMetadata gkeServiceAccountAliasesPath (Some (MetadataHandlerFunc (gkeServiceAccountAliasesAPI s))) h) (\<lambda>h.
     gobind (HandleMetadata gkeServiceAccountEmailPath (Some (MetadataHandlerFunc (gkeServiceAccountEmailAPI s))) h) (\<lambda>h.
     gobind (HandleMetadata gkeServiceAccountIdentityPath (Some (TokenHandler (gkeServiceAccountIdentityAPI s))) h) (\<lambda>h.
     gobind (HandleMetadata gkeServiceAccountScopesPath (Some (MetadataHandlerFunc (gkeServiceAccountScopesAPI s))) h) (\<lambda>h.
     HandleMetadata gkeServiceAccountTokenPath (Some (TokenHandler (gkeServiceAccountTokenAPI s))) h))))))))"

text \<open>\<open>ConnContext\<close> and the observability middleware: the context of a fresh request holds the local
  address of the accepted socket, and the start time is set. The logger the middleware adds to the
  context is not modelled.\<close>

definition ConnContext :: "tcp_addr option \<Rightarrow> (nat \<Rightarrow> select_result) \<Rightarrow> server_ctx" where
  "ConnContext local sel = \<lparr>ctx_local = local, ctx_sel = sel, ctx_ref = None, ctx_email = None\<rparr>"

definition observabilityMiddleware :: "gotime \<Rightarrow> (sreq \<Rightarrow> shttp \<Rightarrow> shttp go) \<Rightarrow> sreq \<Rightarrow> shttp \<Rightarrow> shttp go" where
  "observabilityMiddleware now h r st = h (InitRequest now r) st"

definition serve :: "server \<Rightarrow> gotime \<Rightarrow> sreq \<Rightarrow> shttp \<Rightarrow> shttp go" where
  "serve s now r st = gobind (metadataHandler s) (\<lambda>h. observabilityMiddleware now (ServeHTTP h) r st)"

section \<open>Health\<close>

text \<open>
  The self request of \<open>/readyz\<close>: the error of building it, and what \<open>client.Do\<close> returns: the status and
  the body, or the error of reading it. \<open>rz_local\<close> and \<open>rz_remote\<close> are the addresses the dialer captured.
\<close>

record readyz_env =
  rz_request :: "goerr option"
  rz_do :: "(int \<times> string res) res"
  rz_local :: "tcp_addr option"
  rz_remote :: "tcp_addr option"

definition healthz :: "'s http \<Rightarrow> 's http go" where
  "healthz st = WriteHeader 200 st"

definition readyz_error :: "string \<Rightarrow> 's http \<Rightarrow> 's http go" where
  "readyz_error msg st = WriteHeader 500 (log LError msg st)"

definition readyz :: "server \<Rightarrow> readyz_env \<Rightarrow> 's http \<Rightarrow> 's http go" where
  "readyz s e st =
     (case rz_request e of
        Some _ \<Rightarrow> readyz_error ''readiness: building self request'' st
      | None \<Rightarrow>
          (case rz_do e of
             Inl _ \<Rightarrow> readyz_error ''readiness: self request failed'' st
           | Inr (status, body) \<Rightarrow>
               if status \<noteq> 200 then readyz_error ''readiness: self request returned non-200'' st
               else (case body of
                   Inl _ \<Rightarrow> readyz_error ''readiness: reading self response'' st
                 | Inr text \<Rightarrow>
                     if text \<noteq> NodeName s
                     then readyz_error ''readiness: self response does not match expected node name'' st
                     else (case (Attestation s, rz_local e, rz_remote e) of
                         (Some at, Some local, Some remote) \<Rightarrow>
                           gobind (at_Verify at (To4 (tcp_IP local)) (To4 (tcp_IP remote))
                               (word_of_int (tcp_Port local)) (word_of_int (tcp_Port remote))) (\<lambda>verr.
                             case verr of
                               Some _ \<Rightarrow> readyz_error ''readiness: attestation pipeline did not capture self-connection'' st
                             | None \<Rightarrow> WriteHeader 200 st)
                       | _ \<Rightarrow> WriteHeader 200 st))))"

section \<open>Shutdown\<close>

definition Shutdown :: "goerr option \<Rightarrow> goerr option \<Rightarrow> goerr option" where
  "Shutdown e1 e2 =
     (case (e1, e2) of
        (None, e2) \<Rightarrow> e2
      | (Some e1, None) \<Rightarrow> Some e1
      | (Some e1, Some e2) \<Rightarrow> Some (JoinErrors [e1, e2]))"

text \<open>How the metadata server listens: through the sniffing proxy in eBPF mode, directly otherwise.\<close>

datatype listener = PlainListener | ProxyListener

definition listen_mode :: "server \<Rightarrow> listener" where
  "listen_mode s = (if RoutingMode s \<noteq> RoutingModeBPF then PlainListener else ProxyListener)"

section \<open>The route table\<close>

lemma plain_pieces:
  "plain_piece ''instance''" "plain_piece ''name''" "plain_piece ''project''" "plain_piece ''project-id''"
  "plain_piece ''numeric-project-id''" "plain_piece ''service-accounts''" "plain_piece ''$service_account''"
  "plain_piece ''aliases''" "plain_piece ''email''" "plain_piece ''identity''" "plain_piece ''scopes''" "plain_piece ''token''"
  by (simp_all add: plain_piece_def)

lemma path_split:
  assumes "list_all plain_piece ps" "path = CHR ''/'' # Join ps ''/''"
  shows "splitPathPieces path = ps"
  using split_pieces_join [OF assms(1)] assms(2) by simp

abbreviation sa_pieces :: "string list" where
  "sa_pieces \<equiv> [''computeMetadata'', ''v1'', ''instance'', ''service-accounts'', ''$service_account'']"

lemma paths_split:
  "splitPathPieces gkeNodeNamePath = [''computeMetadata'', ''v1'', ''instance'', ''name'']"
  "splitPathPieces gkeProjectIDPath = [''computeMetadata'', ''v1'', ''project'', ''project-id'']"
  "splitPathPieces gkeNumericProjectIDPath = [''computeMetadata'', ''v1'', ''project'', ''numeric-project-id'']"
  "splitPathPieces gkeServiceAccountsDirectory = sa_pieces"
  "splitPathPieces gkeServiceAccountAliasesPath = sa_pieces @ [''aliases'']"
  "splitPathPieces gkeServiceAccountEmailPath = sa_pieces @ [''email'']"
  "splitPathPieces gkeServiceAccountIdentityPath = sa_pieces @ [''identity'']"
  "splitPathPieces gkeServiceAccountScopesPath = sa_pieces @ [''scopes'']"
  "splitPathPieces gkeServiceAccountTokenPath = sa_pieces @ [''token'']"
  by (rule path_split; simp add: path_defs plain_v1 plain_pieces)+

definition sa_tree :: "server \<Rightarrow> server_tree" where
  "sa_tree s = Node
     [(''aliases'', VHandler (MetadataHandlerFunc (gkeServiceAccountAliasesAPI s))),
      (''email'', VHandler (MetadataHandlerFunc (gkeServiceAccountEmailAPI s))),
      (''identity'', VHandler (TokenHandler (gkeServiceAccountIdentityAPI s))),
      (''scopes'', VHandler (MetadataHandlerFunc (gkeServiceAccountScopesAPI s))),
      (''token'', VHandler (TokenHandler (gkeServiceAccountTokenAPI s)))] None None"

definition full_tree :: "server \<Rightarrow> server_tree" where
  "full_tree s = Node [(''computeMetadata'', VDir (Node [(''v1'', VDir (Node
     [(''instance'', VDir (Node
        [(''name'', VHandler (MetadataHandlerFunc (gkeNodeNameAPI s))),
         (''service-accounts'', VDir (Node [] (Some (''$service_account'', VDir (sa_tree s)))
            (Some (listPodGoogleServiceAccounts s))))] None None)),
      (''project'', VDir (Node
        [(''project-id'', VHandler (MetadataHandlerFunc (gkeProjectIDAPI s))),
         (''numeric-project-id'', VHandler (MetadataHandlerFunc (gkeNumericProjectIDAPI s)))] None None))] None None))] None None))] None None"

lemmas register_simps = HandleMetadata_def HandleDirectory_def find_edge_def register_def empty_node_def HasPrefix_def Let_def

lemma metadataHandler_tree: "metadataHandler s = Ret (full_tree s)"
  unfolding metadataHandler_def HandleMetadata_def HandleDirectory_def paths_split
  by (simp add: find_edge_def register_def empty_node_def HasPrefix_def Let_def full_tree_def sa_tree_def)


section \<open>The handlers meet the contract of the directory\<close>

text \<open>The handlers and listers of a server whose environment is as documented; there is nothing to show
  for any other.\<close>

definition server_getters :: "server \<Rightarrow> connection \<Rightarrow> (server_ctx, server_state) getter set" where
  "server_getters s cn = {f. server_ok s cn \<and> f \<in> {gkeNodeNameAPI s, gkeProjectIDAPI s, gkeNumericProjectIDAPI s,
     gkeServiceAccountAliasesAPI s, gkeServiceAccountEmailAPI s, gkeServiceAccountIdentityAPI s,
     gkeServiceAccountScopesAPI s, gkeServiceAccountTokenAPI s}}"

definition server_listers :: "server \<Rightarrow> connection \<Rightarrow> (server_ctx, server_state) lister set" where
  "server_listers s cn = {l. server_ok s cn \<and> l = listPodGoogleServiceAccounts s}"

lemma getters_ok: "f \<in> server_getters s cn \<Longrightarrow> handler_ok s cn f"
  unfolding server_getters_def
  using constant_handlers_ok [of s cn] email_handler_ok [of s cn] identity_handler_ok [of s cn] token_handler_ok [of s cn]
  by blast

lemma delivers_contract:
  assumes "delivers s cn Q m"
  shows "\<exists>res st. m = Ret (res, st) \<and> calls_ok s cn (app st) \<and> (w_sent st = None \<longleftrightarrow> \<not> isl res) \<and> (\<forall>x. res = Inr x \<longrightarrow> Q x)"
proof -
  obtain res st where "m = Ret (res, st)" "calls_ok s cn (app st)"
      "case res of Inl _ \<Rightarrow> w_sent st \<noteq> None | Inr x \<Rightarrow> w_sent st = None \<and> Q x"
    using assms unfolding delivers_def by blast
  then show ?thesis by (cases res) auto
qed

interpretation endpoints: metadata_endpoints "req_ok s cn" "calls_ok s cn" "server_getters s cn" "server_listers s cn" for s cn
proof (unfold_locales, goal_cases)
  case (1 r)
  then show ?case by (simp add: req_ok_def)
next
  case (2 f r st)
  then have "delivers s cn (\<lambda>_. True) (f r st)" using getters_ok by (simp add: quiet_def)
  from delivers_contract [OF this] show ?case by auto
next
  case (3 ls r st)
  then have "delivers s cn (\<lambda>x. req_ok s cn (snd x)) (ls r st)"
    using list_ok by (auto simp: server_listers_def quiet_def)
  from delivers_contract [OF this] show ?case by auto
qed

lemma full_tree_complete:
  "server_ok s cn \<Longrightarrow> complete_node (server_getters s cn) (server_listers s cn) (full_tree s)"
  by (simp add: full_tree_def sa_tree_def complete_node_simps complete_value_simps server_getters_def server_listers_def)

text \<open>A request as the server receives it on a connection: any method, path, query and headers.\<close>

definition incoming :: "connection \<Rightarrow> string \<Rightarrow> string \<Rightarrow> go_headers \<Rightarrow> go_headers \<Rightarrow> sreq" where
  "incoming cn verb path query headers =
     \<lparr>rq_method = verb, rq_path = path, rq_query = query, rq_header = headers, rq_remote = cn_remote cn,
      rq_start = None, rq_ctx = ConnContext (cn_local cn) (cn_sel cn)\<rparr>"

lemma serve_answered:
  assumes "server_ok s cn" "sv_calls a = []"
  shows "endpoints.answered s cn (serve s now (incoming cn verb path query headers) (fresh a))"
proof -
  have "req_ok s cn (InitRequest now (incoming cn verb path query headers))"
    by (simp add: req_ok_def InitRequest_def incoming_def ConnContext_def)
  moreover have "calls_ok s cn a" using assms(2) by (simp add: calls_ok_def)
  ultimately have "endpoints.ready s cn (InitRequest now (incoming cn verb path query headers)) (fresh a)"
    by (simp add: endpoints.ready_def)
  from endpoints.answered_request [OF full_tree_complete [OF assms(1)] this]
  show ?thesis by (simp add: serve_def metadataHandler_tree observabilityMiddleware_def)
qed


lemma handler_added:
  assumes "wf_node n" "HandleMetadata pattern (Some h) n = Ret n'"
  shows "wf_node n'" "route n' = (route n)(splitPathPieces pattern \<mapsto> h)" "lister_at n' = lister_at n"
  using metadata_registered [OF assms] by (simp_all add: registered_def)

lemma lister_added:
  assumes "wf_node n" "HandleDirectory pattern (Some l) n = Ret n'"
  shows "wf_node n'" "route n' = route n" "lister_at n' = (lister_at n)(splitPathPieces pattern \<mapsto> l)"
  using directory_registered [OF assms] by (simp_all add: registered_def)

lemma empty_tables: "route empty_node = Map.empty" "lister_at empty_node = Map.empty"
proof -
  have "route (empty_node :: ('h, 'l) directoryNode) ps = None" for ps
    by (cases ps; cases "tl ps") (auto simp: empty_node_def edge_at_def)
  then show "route (empty_node :: ('h, 'l) directoryNode) = Map.empty" by blast
  have "lister_at (empty_node :: ('h, 'l) directoryNode) ps = None" for ps
    by (cases ps; cases "tl ps") (auto simp: empty_node_def edge_at_def)
  then show "lister_at (empty_node :: ('h, 'l) directoryNode) = Map.empty" by blast
qed

section \<open>The specification is met\<close>

lemma outcome_lookup:
  assumes "Pods_GetByIP s ip j = Inl err" "lookup_retryable err" "sel j = TimerFired" "1 \<le> j" "j < lookup_attempts s"
  shows "outcome (retry_defaults (lookup_operation s ip)) (\<lambda>i. case Pods_GetByIP s ip i of Inl err \<Rightarrow> Some err | Inr _ \<Rightarrow> None)
    lookup_retryable sel j = None"
  using assms
  by (auto simp: outcome_def retry_defaults_MaxAttempts lookup_operation_def lookup_attempts_def split: if_splits)

lemma first_pod_lookup:
  assumes "first_pod s cn ip pod" "ctx_sel (rq_ctx r) = cn_sel cn"
  shows "fst (lookupPodByIP s r ip st) = Inr pod"
proof -
  let ?out = "outcome (retry_defaults (lookup_operation s ip))
    (\<lambda>i. case Pods_GetByIP s ip i of Inl err \<Rightarrow> Some err | Inr _ \<Rightarrow> None) lookup_retryable (cn_sel cn)"
  obtain i where i: "1 \<le> i" "i \<le> lookup_attempts s" "Pods_GetByIP s ip i = Inr pod"
      "\<forall>j. 1 \<le> j \<and> j < i \<longrightarrow> cn_sel cn j = TimerFired \<and> (\<exists>err. Pods_GetByIP s ip j = Inl err \<and> lookup_retryable err)"
    using assms(1) unfolding first_pod_def by (elim exE conjE)
  obtain k run where run: "Retry_Do (lookup_attempts s) (lookup_operation s ip) (cn_sel cn) = Some run" "1 \<le> k"
      "?out k = Some (rr_err run)" "\<forall>j. 1 \<le> j \<and> j < k \<longrightarrow> ?out j = None" "rr_err run = None \<longrightarrow> Suc (rr_failures run) = k"
    using lookup_run [of s ip "cn_sel cn"] by (elim exE conjE) (rule that)
  have "?out i = Some None" using i(3) by (simp add: outcome_def)
  then have "\<not> i < k" using run(4) i(1) by force
  moreover have "?out j = None" if j: "1 \<le> j" "j < i" for j
  proof -
    obtain err where "Pods_GetByIP s ip j = Inl err" "lookup_retryable err" "cn_sel cn j = TimerFired"
      using i(4) j by blast
    then show ?thesis using outcome_lookup [of s ip j err] j i(2) by simp
  qed
  then have "\<not> k < i" using run(2,3) by force
  ultimately have "k = i" by simp
  then show ?thesis
    using run(1,3,5) \<open>?out i = Some None\<close> i(3) assms(2) by (simp add: lookupPodByIP_def Let_def)
qed

text \<open>A pod of the connection is found.\<close>

lemma reference_found:
  assumes "conn_pod s cn pod" "rq_remote r = cn_remote cn" "ctx_local (rq_ctx r) = cn_local cn"
    and "ctx_sel (rq_ctx r) = cn_sel cn" "ctx_ref (rq_ctx r) = None"
  shows "\<exists>st'. getPodServiceAccountReference s r st =
      Ret (Inr (ReferenceFromPod pod, r\<lparr>rq_ctx := (rq_ctx r)\<lparr>ctx_ref := Some (ReferenceFromPod pod)\<rparr>\<rparr>), st') \<and>
    w_sent st' = w_sent st \<and> w_body st' = w_body st \<and> w_header st' = w_header st"
  using assms(1) unfolding conn_pod_def
proof (elim disjE exE conjE)
  fix uid assume uid: "conn_uid s cn uid" "Pods_GetByUID s uid = Inr pod"
  then obtain at ip dst p q where "Attestation s = Some at" and tuple: "conn_tuple cn ip dst p q"
      and att: "attested s ip" "at_Lookup at ip dst p q = Ret (Inr uid)"
    unfolding conn_uid_def by blast
  moreover obtain host port l where "SplitHostPort (cn_remote cn) = Inr (host, port)" "ParseAddr host = Inr ip"
      "ParseUint16 port = Inr p" "cn_local cn = Some l" "To4 (tcp_IP l) = Some dst" "q = word_of_int (tcp_Port l)"
    using tuple unfolding conn_tuple_def client_def by blast
  ultimately show ?thesis
    using assms uid(2) To4_Is4 [of "tcp_IP l" dst]
    by (simp add: getPodServiceAccountReference_def attestByConnTuple_def LocalAddrFromRequest_def attested_def
        assignPodServiceAccount_def call_def Let_def)
next
  fix ip port assume "client cn ip port" "\<not> attested s ip" and first: "first_pod s cn (Addr_String ip) pod"
  then obtain host where "SplitHostPort (cn_remote cn) = Inr (host, port)" "ParseAddr host = Inr ip" "\<not> attested s ip"
    unfolding client_def by blast
  moreover obtain st' where "lookupPodByIP s r (Addr_String ip) st = (Inr pod, st')"
    using first_pod_lookup [OF first assms(4), of st] by (cases "lookupPodByIP s r (Addr_String ip) st") auto
  moreover from this have "w_sent st' = w_sent st \<and> w_body st' = w_body st \<and> w_header st' = w_header st"
    by (auto simp: lookupPodByIP_def Let_def count_failures_def call_def)
  ultimately show ?thesis
    using assms by (simp add: getPodServiceAccountReference_def attested_def assignPodServiceAccount_def Let_def)
qed

text \<open>What the context of a request keeps after a successful call, and what the calls leave untouched.\<close>

definition unsent :: "shttp \<Rightarrow> shttp \<Rightarrow> bool" where
  "unsent st st' \<longleftrightarrow> w_sent st' = w_sent st \<and> w_body st' = w_body st \<and> w_header st' = w_header st"

lemma unsent_simps [simp]: "unsent st (call c st') = unsent st st'" "unsent st st"
  by (simp_all add: unsent_def call_def)

abbreviation identified :: "sreq \<Rightarrow> Reference \<Rightarrow> string option \<Rightarrow> sreq" where
  "identified r ref email \<equiv> r\<lparr>rq_ctx := (rq_ctx r)\<lparr>ctx_ref := Some ref, ctx_email := Some email\<rparr>\<rparr>"

lemma list_found:
  assumes "conn_pod s cn pod" "rq_remote r = cn_remote cn" "ctx_local (rq_ctx r) = cn_local cn"
    and "ctx_sel (rq_ctx r) = cn_sel cn" "ctx_ref (rq_ctx r) = None" "ctx_email (rq_ctx r) = None"
    and "ref_email s (ReferenceFromPod pod) email"
  shows "\<exists>st'. listPodGoogleServiceAccounts s r st =
      Ret (Inr ([''default'', case email of Some e \<Rightarrow> e | None \<Rightarrow> WorkloadIdentityPool s],
                identified r (ReferenceFromPod pod) email), st') \<and> unsent st st'"
proof -
  obtain st' where ref: "getPodServiceAccountReference s r st =
      Ret (Inr (ReferenceFromPod pod, r\<lparr>rq_ctx := (rq_ctx r)\<lparr>ctx_ref := Some (ReferenceFromPod pod)\<rparr>\<rparr>), st')"
      "w_sent st' = w_sent st \<and> w_body st' = w_body st \<and> w_header st' = w_header st"
    using reference_found [OF assms(1-5)] by blast
  obtain sa where "ServiceAccounts_Get s (ReferenceFromPod pod) = Inr sa" "GoogleServiceAccountEmail sa = Inr email"
    using assms(7) by (auto simp: ref_email_def)
  then show ?thesis
    using ref assms(6) unfolding listPodGoogleServiceAccounts_def
    by (simp add: getPodGoogleServiceAccountEmailOrWorkloadIdentityPool_def getPodGoogleServiceAccountEmail_def Let_def
        unsent_def call_def)
qed

lemma tokens_found:
  assumes "ctx_ref (rq_ctx r) = Some ref" "ctx_email (rq_ctx r) = Some email"
    and "Tokens_GetServiceAccountToken s ref = Ret (Inr (tok, t0))"
    and "Tokens_GetGoogleAccessTokens s tok email scopes = Ret (Inr (toks, t))"
  shows "getPodGoogleAccessTokens s scopes r st =
    Ret (Inr (toks, t, r), call (CallAccessTokens tok email scopes) (call (CallServiceAccountToken ref) st))"
  using assms
  by (simp add: getPodGoogleAccessTokens_def getPodServiceAccountReference_def getPodGoogleServiceAccountEmail_def Let_def)

definition sa_path :: "string \<Rightarrow> string \<Rightarrow> string" where
  "sa_path account leaf = CHR ''/'' # Join [''computeMetadata'', ''v1'', ''instance'', ''service-accounts'', account, leaf] ''/''"

lemma sa_path_split: "plain_piece account \<Longrightarrow> plain_piece leaf \<Longrightarrow>
    splitPathPieces (sa_path account leaf) = [''computeMetadata'', ''v1'', ''instance'', ''service-accounts'', account, leaf]"
  unfolding sa_path_def by (rule split_pieces_join) (simp add: plain_v1 plain_pieces)

text \<open>Serving an endpoint of a listed account: the lister runs first, the handler gets its context.\<close>

lemma serve_account:
  assumes "plain_piece account" "plain_piece leaf" "map_of (children (sa_tree s)) leaf = Some (VHandler h)"
    and "header_get (rq_header r) MetadataFlavorHeader = MetadataFlavorGoogle" "rq_path r = sa_path account leaf"
    and "listPodGoogleServiceAccounts s (InitRequest now r) st = Ret (Inr (entries, r'), st')" "account \<in> set entries"
  shows "serve s now r st = serveMetadata h r' st'"
proof -
  have pieces: "splitPathPieces (rq_path r) = [''computeMetadata'', ''v1'', ''instance'', ''service-accounts'', account, leaf]"
    using sa_path_split [OF assms(1,2)] assms(5) by simp
  have "pathParam (sa_tree s) = None" by (simp add: sa_tree_def)
  then show ?thesis
    using pieces assms(3,4,6,7)
    by (simp add: serve_def metadataHandler_tree observabilityMiddleware_def ServeHTTP_def InitRequest_def
        full_tree_def serve_leaf_def Let_def)
qed

lemma serve_token:
  assumes "conn_pod s cn pod" "ref_email s (ReferenceFromPod pod) email"
    and "account = ''default'' \<or> account = (case email of Some e \<Rightarrow> e | None \<Rightarrow> WorkloadIdentityPool s)" "plain_piece account"
    and "header_get headers MetadataFlavorHeader = MetadataFlavorGoogle"
    and "Check (env_preflight s) preflight_versions = Ret None"
    and "Tokens_GetServiceAccountToken s (ReferenceFromPod pod) = Ret (Inr (tok, t0))"
    and "Tokens_GetGoogleAccessTokens s tok email (scopes_of (header_get query ''scopes'')) = Ret (Inr (toks, t))"
  shows "\<exists>st'. serve s now (incoming cn verb (sa_path account ''token'') query headers) (fresh a) = Ret st' \<and>
    map_option fst (w_sent st') = Some 200 \<and>
    w_body st' = [BJSON (AMap [(''access_token'', AString (if Impersonated toks \<noteq> [] then Impersonated toks else DirectAccess toks)),
      (''expires_in'', AInt (int_Seconds (Sub t (env_now s)))), (''token_type'', AString ''Bearer'')])] \<and>
    CallServiceAccountToken (ReferenceFromPod pod) \<in> set (sv_calls (app st'))"
proof -
  let ?r = "incoming cn verb (sa_path account ''token'') query headers"
  obtain st' where l: "listPodGoogleServiceAccounts s (InitRequest now ?r) (fresh a) =
      Ret (Inr ([''default'', case email of Some e \<Rightarrow> e | None \<Rightarrow> WorkloadIdentityPool s],
                identified (InitRequest now ?r) (ReferenceFromPod pod) email), st')" "unsent (fresh a) st'"
    using list_found [OF assms(1) _ _ _ _ _ assms(2), of "InitRequest now ?r" "fresh a"]
    by (auto simp: InitRequest_def incoming_def ConnContext_def)
  have "serve s now ?r (fresh a) =
      serveMetadata (TokenHandler (gkeServiceAccountTokenAPI s)) (identified (InitRequest now ?r) (ReferenceFromPod pod) email) st'"
    by (rule serve_account [OF assms(4) plain_pieces(12) _ _ _ l(1)])
      (use assms(3,5) in \<open>auto simp: sa_tree_def incoming_def\<close>)
  moreover have "query_get (identified (InitRequest now ?r) ref e) k = header_get query k" for ref e k
    by (simp add: query_get_def InitRequest_def incoming_def)
  ultimately show ?thesis
    using assms(6) l(2) tokens_found [OF _ _ assms(7,8), of "identified (InitRequest now ?r) (ReferenceFromPod pod) email" st']
    by (simp add: serveMetadata_def gkeServiceAccountTokenAPI_def with_preflight_def access_token_def Let_def
        serve_value_def RespondJSON_def send_def WriteHeader_def Write_def bodyAllowedForStatus_def observeRequest_def
        InitRequest_def unsent_def call_def split_def log_def)
qed

section \<open>Properties\<close>

text \<open>The registrations of \<open>New\<close> never conflict, so it never panics, and the handler serves exactly the
  eight documented endpoints and lists exactly the directory of service accounts: no other pattern has
  a handler or a lister. The two endpoints that issue credentials are the token handlers, which the
  recursive listing leaves out.\<close>

lemma route_table:
  "\<exists>h. metadataHandler s = Ret h \<and> wf_node h \<and>
    route h = Map.empty(
      [''computeMetadata'', ''v1'', ''instance'', ''name''] \<mapsto> MetadataHandlerFunc (gkeNodeNameAPI s),
      [''computeMetadata'', ''v1'', ''project'', ''project-id''] \<mapsto> MetadataHandlerFunc (gkeProjectIDAPI s),
      [''computeMetadata'', ''v1'', ''project'', ''numeric-project-id''] \<mapsto> MetadataHandlerFunc (gkeNumericProjectIDAPI s),
      sa_pieces @ [''aliases''] \<mapsto> MetadataHandlerFunc (gkeServiceAccountAliasesAPI s),
      sa_pieces @ [''email''] \<mapsto> MetadataHandlerFunc (gkeServiceAccountEmailAPI s),
      sa_pieces @ [''identity''] \<mapsto> TokenHandler (gkeServiceAccountIdentityAPI s),
      sa_pieces @ [''scopes''] \<mapsto> MetadataHandlerFunc (gkeServiceAccountScopesAPI s),
      sa_pieces @ [''token''] \<mapsto> TokenHandler (gkeServiceAccountTokenAPI s)) \<and>
    lister_at h = Map.empty(sa_pieces \<mapsto> listPodGoogleServiceAccounts s)"
proof -
  have "metadataHandler s = Ret (full_tree s)" by (rule metadataHandler_tree)
  then obtain h1 h2 h3 h4 h5 h6 h7 h8 where
      1: "HandleMetadata gkeNodeNamePath (Some (MetadataHandlerFunc (gkeNodeNameAPI s))) empty_node = Ret h1" and
      2: "HandleMetadata gkeProjectIDPath (Some (MetadataHandlerFunc (gkeProjectIDAPI s))) h1 = Ret h2" and
      3: "HandleMetadata gkeNumericProjectIDPath (Some (MetadataHandlerFunc (gkeNumericProjectIDAPI s))) h2 = Ret h3" and
      4: "HandleDirectory gkeServiceAccountsDirectory (Some (listPodGoogleServiceAccounts s)) h3 = Ret h4" and
      5: "HandleMetadata gkeServiceAccountAliasesPath (Some (MetadataHandlerFunc (gkeServiceAccountAliasesAPI s))) h4 = Ret h5" and
      6: "HandleMetadata gkeServiceAccountEmailPath (Some (MetadataHandlerFunc (gkeServiceAccountEmailAPI s))) h5 = Ret h6" and
      7: "HandleMetadata gkeServiceAccountIdentityPath (Some (TokenHandler (gkeServiceAccountIdentityAPI s))) h6 = Ret h7" and
      8: "HandleMetadata gkeServiceAccountScopesPath (Some (MetadataHandlerFunc (gkeServiceAccountScopesAPI s))) h7 = Ret h8" and
      9: "HandleMetadata gkeServiceAccountTokenPath (Some (TokenHandler (gkeServiceAccountTokenAPI s))) h8 = Ret (full_tree s)"
    unfolding metadataHandler_def gobind_Ret_iff by blast
  note a1 = handler_added [OF wf_empty_node 1] note a2 = handler_added [OF a1(1) 2]
  note a3 = handler_added [OF a2(1) 3] note a4 = lister_added [OF a3(1) 4]
  note a5 = handler_added [OF a4(1) 5] note a6 = handler_added [OF a5(1) 6]
  note a7 = handler_added [OF a6(1) 7] note a8 = handler_added [OF a7(1) 8]
  note a9 = handler_added [OF a8(1) 9]
  show ?thesis
    using a9(1) unfolding metadataHandler_tree
    unfolding a9(2,3) a8(2,3) a7(2,3) a6(2,3) a5(2,3) a4(2,3) a3(2,3) a2(2,3) a1(2,3) paths_split empty_tables
    by (intro exI [of _ "full_tree s"] conjI refl)
      (simp_all only: a9(2,3) a8(2,3) a7(2,3) a6(2,3) a5(2,3) a4(2,3) a3(2,3) a2(2,3) a1(2,3) paths_split empty_tables)
qed


text \<open>C4. The pod a request acts for comes from its connection alone. While a request is served, the
  providers are called only for the pod of the connection: lookups use its addresses, ServiceAccount
  objects and tokens are requested only for that pod's ServiceAccount, access tokens only with a token
  of that ServiceAccount and the email it is annotated with, and identity tokens only with the direct
  access token issued for it. Headers, path and query cannot change whose credentials are used: two
  requests of one connection never get tokens of different ServiceAccounts.\<close>

theorem request_identity:
  assumes "server_ok s cn" "sv_calls a = []" "sv_calls b = []"
    and "serve s now (incoming cn verb path query headers) (fresh a) = Ret st"
    and "serve s now' (incoming cn verb' path' query' headers') (fresh b) = Ret st'"
  shows "(\<forall>c\<in>set (sv_calls (app st)). call_ok s cn c) \<and>
    (\<forall>ref ref'. CallServiceAccountToken ref \<in> set (sv_calls (app st)) \<longrightarrow>
       CallServiceAccountToken ref' \<in> set (sv_calls (app st')) \<longrightarrow> ref' = ref)"
proof -
  have "calls_ok s cn (app st)"
    using serve_answered [OF assms(1,2), of now verb path query headers] assms(4) by (simp add: endpoints.answered_def)
  moreover have "calls_ok s cn (app st')"
    using serve_answered [OF assms(1,3), of now' verb' path' query' headers'] assms(5) by (simp add: endpoints.answered_def)
  moreover have "ref' = ref" if "call_ok s cn (CallServiceAccountToken ref)" "call_ok s cn (CallServiceAccountToken ref')" for ref ref'
    using that conn_ref_unique by simp
  ultimately show ?thesis unfolding calls_ok_def by blast
qed

text \<open>C5. The lookup implements the specification: for a request that has not been resolved yet,
  \<open>getPodServiceAccountReference\<close> returns a reference exactly when it is that of the pod of the
  connection, and otherwise it has sent an error response. A pod of the connection is the pod with the
  UID the kernel attests for its 4-tuple, in eBPF mode and for source addresses of the host, and
  otherwise the first pod a lookup by source address finds; there is no fallback from one to the other.\<close>

theorem reference_refines:
  assumes "server_ok s cn" "r = InitRequest now (incoming cn verb path query headers)" "quiet s cn st"
  shows "\<exists>res st'. getPodServiceAccountReference s r st = Ret (res, st') \<and>
    (\<forall>ref. (\<exists>r'. res = Inr (ref, r')) \<longleftrightarrow> (\<exists>pod. conn_pod s cn pod \<and> ref = ReferenceFromPod pod)) \<and>
    (w_sent st' = None \<longleftrightarrow> (\<exists>pod. conn_pod s cn pod))"
proof -
  have r: "req_ok s cn r" "rq_remote r = cn_remote cn" "ctx_local (rq_ctx r) = cn_local cn"
      "ctx_sel (rq_ctx r) = cn_sel cn" "ctx_ref (rq_ctx r) = None"
    by (simp_all add: assms(2) req_ok_def InitRequest_def incoming_def ConnContext_def)
  obtain res st' where run: "getPodServiceAccountReference s r st = Ret (res, st')" "w_sent st' = None \<longleftrightarrow> \<not> isl res"
      "\<forall>x. res = Inr x \<longrightarrow> ref_result s cn x"
    using delivers_contract [OF reference_ok [OF assms(1) r(1) assms(3)]] by (elim exE conjE) (rule that)
  show ?thesis
  proof (cases "\<exists>pod. conn_pod s cn pod")
    case True
    then obtain pod where pod: "conn_pod s cn pod" by blast
    obtain r' where "res = Inr (ReferenceFromPod pod, r')"
      using reference_found [OF pod r(2-5), of st] run(1) by auto
    moreover have "conn_pod s cn p \<longleftrightarrow> p = pod" for p using conn_pod_unique [OF pod, of p] pod by blast
    ultimately show ?thesis using run(1,2) by (simp add: eq_commute [of "ReferenceFromPod pod"])
  next
    case False
    then have "isl res" using run(3) by (cases res) (auto simp: conn_ref_def)
    then show ?thesis using run(1,2) False by (auto simp: isl_def)
  qed
qed

text \<open>The token endpoint of a listed account (\<open>default\<close>, or the pod's Google email or the identity
  pool) answers 200 with a bearer token: the impersonated token when there is one, else the direct one,
  for the scopes of the query without blanks and empty entries, and the seconds until it expires.\<close>

lemma token_endpoint:
  assumes "conn_pod s cn pod" "ref_email s (ReferenceFromPod pod) email"
    and "account = ''default'' \<or> account = (case email of Some e \<Rightarrow> e | None \<Rightarrow> WorkloadIdentityPool s)" "plain_piece account"
    and "header_get headers MetadataFlavorHeader = MetadataFlavorGoogle"
    and "Check (env_preflight s) preflight_versions = Ret None"
    and "Tokens_GetServiceAccountToken s (ReferenceFromPod pod) = Ret (Inr (tok, t0))"
    and "Tokens_GetGoogleAccessTokens s tok email (scopes_of (header_get query ''scopes'')) = Ret (Inr (toks, t))"
  shows "\<exists>st'. serve s now (incoming cn verb (sa_path account ''token'') query headers) (fresh a) = Ret st' \<and>
    map_option fst (w_sent st') = Some 200 \<and>
    w_body st' = [BJSON (AMap [(''access_token'', AString (if Impersonated toks \<noteq> [] then Impersonated toks else DirectAccess toks)),
      (''expires_in'', AInt (int_Seconds (Sub t (env_now s)))), (''token_type'', AString ''Bearer'')])]"
  using serve_token [OF assms, of now verb a] by blast

lemma readyz_status:
  assumes "w_sent st = None" "readyz s e st = Ret st'"
  shows "map_option fst (w_sent st') =
    Some (if rz_request e = None \<and> rz_do e = Inr (200, Inr (NodeName s)) \<and>
             (\<forall>at l r. Attestation s = Some at \<and> rz_local e = Some l \<and> rz_remote e = Some r \<longrightarrow>
                at_Verify at (To4 (tcp_IP l)) (To4 (tcp_IP r)) (word_of_int (tcp_Port l)) (word_of_int (tcp_Port r)) = Ret None)
          then 200 else 500)"
proof -
  let ?attested = "\<forall>at l r. Attestation s = Some at \<and> rz_local e = Some l \<and> rz_remote e = Some r \<longrightarrow>
    at_Verify at (To4 (tcp_IP l)) (To4 (tcp_IP r)) (word_of_int (tcp_Port l)) (word_of_int (tcp_Port r)) = Ret None"
  have fail: "readyz_error msg st = Ret st2 \<Longrightarrow> map_option fst (w_sent st2) = Some 500" for msg st2
    using assms(1) by (auto simp: readyz_error_def WriteHeader_def log_def)
  have ready: "WriteHeader 200 st = Ret st2 \<Longrightarrow> map_option fst (w_sent st2) = Some 200" for st2
    using assms(1) by (auto simp: WriteHeader_def)
  show ?thesis
  proof (cases "rz_request e = None \<and> rz_do e = Inr (200, Inr (NodeName s))")
    case False
    then have "\<exists>msg. readyz s e st = readyz_error msg st"
      by (auto simp: readyz_def split: option.split sum.split prod.split)
    then show ?thesis using False fail assms(2) by auto
  next
    case True
    show ?thesis
    proof (cases "\<exists>at l r. Attestation s = Some at \<and> rz_local e = Some l \<and> rz_remote e = Some r")
      case False
      then have "readyz s e st = WriteHeader 200 st" using True by (auto simp: readyz_def split: option.split)
      then show ?thesis using True False ready assms(2) by auto
    next
      case c: True
      then obtain at l r where alr: "Attestation s = Some at" "rz_local e = Some l" "rz_remote e = Some r" by blast
      then obtain v where v: "at_Verify at (To4 (tcp_IP l)) (To4 (tcp_IP r)) (word_of_int (tcp_Port l)) (word_of_int (tcp_Port r)) = Ret v"
        using assms(2) True
        by (cases "at_Verify at (To4 (tcp_IP l)) (To4 (tcp_IP r)) (word_of_int (tcp_Port l)) (word_of_int (tcp_Port r))")
          (auto simp: readyz_def)
      then show ?thesis using True alr assms(2) fail ready by (cases v) (auto simp: readyz_def)
    qed
  qed
qed

text \<open>\<open>/readyz\<close> reports ready exactly when the server answers its own node name over a new connection
  and, when there is a lookuper and the connection's addresses were seen, the lookuper verifies that it
  captured that connection; otherwise it answers 500. It panics only if the lookuper does.\<close>

lemma readyz_ready:
  assumes "w_sent st = None" "readyz s e st = Ret st'"
  shows "map_option fst (w_sent st') =
    Some (if rz_request e = None \<and> rz_do e = Inr (200, Inr (NodeName s)) \<and>
             (\<forall>at l r. Attestation s = Some at \<and> rz_local e = Some l \<and> rz_remote e = Some r \<longrightarrow>
                at_Verify at (To4 (tcp_IP l)) (To4 (tcp_IP r)) (word_of_int (tcp_Port l)) (word_of_int (tcp_Port r)) = Ret None)
          then 200 else 500)"
  by (rule readyz_status [OF assms])

text \<open>C40. An error text of the form \<open>oauth2/google: status code N:\<close> that ends right after the colon makes
  the error handler panic, by slicing past the end of the text; no other error does.\<close>

theorem google_error_panics:
  "panics (google_error err) \<longleftrightarrow> as_google (err_chain err) = None \<and>
    (\<exists>i code. Index (Error err) oauthSubstring = Some i \<and>
       drop (i + length oauthSubstring) (Error err) = code @ '':'' \<and> CHR '':'' \<notin> set code)"
proof -
  have slice: "length t < idx + 2 \<longleftrightarrow> (\<exists>code. t = code @ '':'' \<and> CHR '':'' \<notin> set code)"
    if idx: "IndexByte t (CHR '':'') = Some idx" for t idx
  proof
    assume "length t < idx + 2"
    then have "length t = Suc idx" using IndexByte_Some [OF idx] by simp
    then have "t = take idx t @ '':''"
      using IndexByte_Some [OF idx] by (metis lessI order_refl take_Suc_conv_app_nth take_all)
    then show "\<exists>code. t = code @ '':'' \<and> CHR '':'' \<notin> set code"
      using IndexByte_Some [OF idx] by blast
  next
    assume "\<exists>code. t = code @ '':'' \<and> CHR '':'' \<notin> set code"
    then show "length t < idx + 2" using idx IndexByte_append [of "CHR '':''" _ "[]"] by auto
  qed
  have none: "\<nexists>code. t = code @ '':'' \<and> CHR '':'' \<notin> set code" if "IndexByte t (CHR '':'') = None" for t
    using that by (auto simp: IndexByte_None_iff)
  show ?thesis
  proof (cases "as_google (err_chain err) = None \<and> Index (Error err) oauthSubstring \<noteq> None")
    case False
    then show ?thesis by (auto simp: google_error_def split: option.split)
  next
    case True
    then obtain i where i: "as_google (err_chain err) = None" "Index (Error err) oauthSubstring = Some i" by blast
    define t where "t = drop (i + length oauthSubstring) (Error err)"
    have "panics (google_error err) \<longleftrightarrow> (\<exists>idx. IndexByte t (CHR '':'') = Some idx \<and> length t < idx + 2)"
      using i by (simp add: google_error_def Let_def flip: t_def split: option.split)
    also have "\<dots> \<longleftrightarrow> (\<exists>code. t = code @ '':'' \<and> CHR '':'' \<notin> set code)"
      using slice none by (cases "IndexByte t (CHR '':'')") auto
    finally show ?thesis using i by (simp add: t_def)
  qed
qed


section \<open>A server on which the hypotheses hold\<close>

definition web_pod :: kube_pod where
  "web_pod = zero_pod\<lparr>pod_Name := ''web-0'', pod_Namespace := ''shop'', pod_UID := ''u1'',
     pod_ServiceAccountName := ''web'', pod_PodIP := ''10.8.0.7'', pod_Phase := ''Running''\<rparr>"

definition web_sa :: kube_sa where
  "web_sa = \<lparr>sa_Name = ''web'', sa_Namespace = ''shop'',
     sa_Annotations = [(GKEAnnotationServiceAccount, ''web@proj.iam.gserviceaccount.com'')]\<rparr>"

definition web_time :: gotime where "web_time = \<lparr>wall = 3600 * Second, mono = None\<rparr>"

definition web_server :: server where
  "web_server = \<lparr>NodeName = ''node-1'', PodIP = ''10.0.0.2'', ServerAddr = '':16321'', ProjectID = ''proj'',
     NumericProjectID = ''123'', WorkloadIdentityPool = ''pool'', RoutingMode = RoutingModeNone, Attestation = None,
     PodLookup_MaxAttempts = 3, PodLookup_RetryInitialDelay = Second, PodLookup_RetryMaxDelay = 30 * Second,
     Pods_GetByIP = (\<lambda>ip i. if ip = ''10.8.0.7'' \<and> i = 2 then Inr web_pod else Inl (ErrorString ''timeout'')),
     Pods_GetByUID = (\<lambda>_. Inl (ErrorString ''no pods found'')), ServiceAccounts_Get = (\<lambda>_. Inr web_sa),
     Tokens_GetServiceAccountToken = (\<lambda>ref. Ret (Inr (''jwt'', web_time))),
     Tokens_GetGoogleAccessTokens = (\<lambda>tok email scopes. Ret (Inr (\<lparr>DirectAccess = ''direct'', Impersonated = ''impersonated''\<rparr>, web_time))),
     Tokens_GetGoogleIdentityToken = (\<lambda>ref acc email aud. Ret (Inr (''id'', web_time))),
     env_now = \<lparr>wall = 0, mono = None\<rparr>,
     env_preflight = \<lparr>KUBERNETES_SERVICE_HOST = [], fips140_Enabled = False, os_release = Inr []\<rparr>,
     env_Unmarshal = (\<lambda>_. None)\<rparr>"

definition web_conn :: connection where
  "web_conn = \<lparr>cn_remote = ''10.8.0.7:40000'', cn_local = None, cn_sel = (\<lambda>_. TimerFired)\<rparr>"

definition web_state :: server_state where
  "web_state = \<lparr>lookupPodFailures = (\<lambda>_. 0), sv_calls = []\<rparr>"

lemma web_server_ok: "server_ok web_server web_conn"
  by (simp add: server_ok_def web_server_def web_conn_def Check_def)

lemma web_client: "client web_conn (AddrV4 10 8 0 7) ''40000''"
proof -
  have "SplitHostPort ''10.8.0.7:40000'' = Inr (''10.8.0.7'', ''40000'')" "ParseAddr ''10.8.0.7'' = Inr (AddrV4 10 8 0 7)"
    by code_simp+
  then show ?thesis by (simp add: client_def web_conn_def)
qed

lemma web_conn_pod: "conn_pod web_server web_conn web_pod"
proof -
  have addr: "Addr_String (AddrV4 10 8 0 7) = ''10.8.0.7''" "\<not> isHostSourceIP (AddrV4 10 8 0 7) ''10.0.0.2''" by code_simp+
  have "RoutingModeNone \<noteq> RoutingModeBPF" by code_simp
  then have "\<not> attested web_server (AddrV4 10 8 0 7)" using addr(2) by (simp add: attested_def web_server_def)
  moreover have "lookup_retryable (ErrorString ''timeout'')" by code_simp
  then have "first_pod web_server web_conn ''10.8.0.7'' web_pod"
    unfolding first_pod_def by (intro exI [of _ 2]) (auto simp: web_server_def web_conn_def lookup_attempts_def)
  ultimately show ?thesis using web_client addr(1) unfolding conn_pod_def by metis
qed

lemma web_email: "ref_email web_server ref (Some ''web@proj.iam.gserviceaccount.com'')"
proof -
  have "GoogleServiceAccountEmail web_sa = Inr (Some ''web@proj.iam.gserviceaccount.com'')" by code_simp
  then show ?thesis by (simp add: ref_email_def web_server_def)
qed

definition google_header :: go_headers where
  "google_header = [(MetadataFlavorHeader, MetadataFlavorGoogle)]"


theorem reference_refines_witness:
  "\<exists>r' st'. getPodServiceAccountReference web_server
      (InitRequest web_time (incoming web_conn ''GET'' ''/'' [] [])) (fresh web_state) =
    Ret (Inr (\<lparr>ref_Name = ''web'', ref_Namespace = ''shop''\<rparr>, r'), st')"
proof -
  have q: "quiet web_server web_conn (fresh web_state)"
    by (simp add: quiet_def calls_ok_def web_state_def)
  obtain res st' where run: "getPodServiceAccountReference web_server
        (InitRequest web_time (incoming web_conn ''GET'' ''/'' [] [])) (fresh web_state) = Ret (res, st')"
      "\<forall>ref. (\<exists>r'. res = Inr (ref, r')) \<longleftrightarrow> (\<exists>pod. conn_pod web_server web_conn pod \<and> ref = ReferenceFromPod pod)"
    using reference_refines [OF web_server_ok refl q, where now = web_time and verb = "''GET''" and path = "''/''"
        and query = "[]" and headers = "[]"] by (elim exE conjE) (rule that)
  have "\<exists>r'. res = Inr (ReferenceFromPod web_pod, r')" using run(2) web_conn_pod by blast
  moreover have "ReferenceFromPod web_pod = \<lparr>ref_Name = ''web'', ref_Namespace = ''shop''\<rparr>" by code_simp
  ultimately show ?thesis using run(1) by auto
qed

lemma token_endpoint_example:
  "\<exists>st'. serve web_server web_time (incoming web_conn ''GET'' (sa_path ''default'' ''token'') [] google_header) (fresh web_state) = Ret st' \<and>
     map_option fst (w_sent st') = Some 200 \<and>
     w_body st' = [BJSON (AMap [(''access_token'', AString ''impersonated''), (''expires_in'', AInt 3600),
       (''token_type'', AString ''Bearer'')])]"
proof -
  have h: "header_get google_header MetadataFlavorHeader = MetadataFlavorGoogle"
      "Check (env_preflight web_server) preflight_versions = Ret None"
      "Tokens_GetServiceAccountToken web_server (ReferenceFromPod web_pod) = Ret (Inr (''jwt'', web_time))"
      "Tokens_GetGoogleAccessTokens web_server ''jwt'' (Some ''web@proj.iam.gserviceaccount.com'') (scopes_of (header_get [] ''scopes'')) =
        Ret (Inr (\<lparr>DirectAccess = ''direct'', Impersonated = ''impersonated''\<rparr>, web_time))"
      "plain_piece ''default''"
    by (simp_all add: google_header_def header_get_def web_server_def Check_def plain_piece_def)
  have "int_Seconds (Sub web_time (env_now web_server)) = 3600" by code_simp
  then show ?thesis
    using token_endpoint [OF web_conn_pod web_email _ h(5) h(1-4), of web_time "''GET''" web_state] by simp
qed


lemma readyz_ready_example:
  "\<exists>st'. readyz web_server \<lparr>rz_request = None, rz_do = Inr (200, Inr ''node-1''), rz_local = None, rz_remote = None\<rparr> (fresh ()) = Ret st' \<and>
     map_option fst (w_sent st') = Some 200"
proof -
  let ?e = "\<lparr>rz_request = None, rz_do = Inr (200, Inr ''node-1''), rz_local = None, rz_remote = None\<rparr>"
  obtain st' where run: "readyz web_server ?e (fresh ()) = Ret st'"
    by (simp add: readyz_def web_server_def WriteHeader_def)
  from readyz_ready [OF _ run] run show ?thesis by (simp add: web_server_def)
qed


theorem request_identity_witness:
  "\<exists>st. serve web_server web_time (incoming web_conn ''GET'' (sa_path ''default'' ''token'') [] google_header) (fresh web_state) = Ret st \<and>
     CallServiceAccountToken \<lparr>ref_Name = ''web'', ref_Namespace = ''shop''\<rparr> \<in> set (sv_calls (app st)) \<and>
     (\<forall>c\<in>set (sv_calls (app st)). call_ok web_server web_conn c)"
proof -
  have h: "header_get google_header MetadataFlavorHeader = MetadataFlavorGoogle"
      "Check (env_preflight web_server) preflight_versions = Ret None"
      "Tokens_GetServiceAccountToken web_server (ReferenceFromPod web_pod) = Ret (Inr (''jwt'', web_time))"
      "Tokens_GetGoogleAccessTokens web_server ''jwt'' (Some ''web@proj.iam.gserviceaccount.com'') (scopes_of (header_get [] ''scopes'')) =
        Ret (Inr (\<lparr>DirectAccess = ''direct'', Impersonated = ''impersonated''\<rparr>, web_time))"
      "plain_piece ''default''" "sv_calls web_state = []"
    by (simp_all add: google_header_def header_get_def web_server_def Check_def plain_piece_def web_state_def)
  obtain st where st: "serve web_server web_time (incoming web_conn ''GET'' (sa_path ''default'' ''token'') [] google_header) (fresh web_state) = Ret st"
      "CallServiceAccountToken (ReferenceFromPod web_pod) \<in> set (sv_calls (app st))"
    using serve_token [OF web_conn_pod web_email _ h(5) h(1-4), of web_time "''GET''" web_state] by auto
  have "ReferenceFromPod web_pod = \<lparr>ref_Name = ''web'', ref_Namespace = ''shop''\<rparr>" by code_simp
  then show ?thesis
    using st request_identity [OF web_server_ok h(6,6) st(1) st(1)] by auto
qed

end
