(* ===== verification/Metrics.thy ===== *)
theory Metrics
  imports Http_Response "HOL-Library.Sublist"
begin

text \<open>
  \<open>internal/metrics/metrics.go\<close>: the collectors of the program, as the options their constructors are
  called with, and the groups in which the components register them. The Prometheus client library is a
  parameter: \<open>prometheus_ok\<close> states what its documentation says of registering a collector, of the names of
  collectors and of picking one by its label values. The lemmas say that no group of the program's
  collectors, registered in any combination but each at most once, makes a registration panic.
\<close>

section \<open>Collectors\<close>

text \<open>A decimal literal: a mantissa and the number of its decimals, so that 0.2 is \<open>(2, 1)\<close>.\<close>

type_synonym decimal = "int \<times> nat"

datatype buckets = ExponentialBuckets decimal decimal int

datatype metric_kind = Counter | Gauge | Histogram buckets

text \<open>The options of a collector; \<open>m_labels\<close> are the variable labels of a vector.\<close>

record metric_opts =
  m_Namespace :: string
  m_Subsystem :: string
  m_Name :: string
  m_kind :: metric_kind
  m_labels :: "string list"

datatype collector = ProcessCollector | GoCollector | Collector metric_opts

definition namespace :: string where "namespace = ''gke_metadata_server''"

definition own_metric :: "string \<Rightarrow> string \<Rightarrow> metric_kind \<Rightarrow> string list \<Rightarrow> metric_opts" where
  "own_metric subsystem name kind labels =
     \<lparr>m_Namespace = namespace, m_Subsystem = subsystem, m_Name = name, m_kind = kind, m_labels = labels\<rparr>"

definition latency_buckets :: buckets where
  "latency_buckets = ExponentialBuckets (2, 1) (5, 0) 7"

definition NewRequestLatencyMillis :: metric_opts where
  "NewRequestLatencyMillis =
     own_metric [] ''request_latency_millis'' (Histogram latency_buckets) [''method'', ''path'', ''status'']"

definition NewLookupPodFailuresCounter :: metric_opts where
  "NewLookupPodFailuresCounter = own_metric [] ''lookup_pod_failures_total'' Counter [''client_ip'']"

definition NewGetNodeFailuresCounter :: metric_opts where
  "NewGetNodeFailuresCounter = own_metric [] ''get_node_failures_total'' Counter []"

definition NewRemoveTaintsFailuresCounter :: metric_opts where
  "NewRemoveTaintsFailuresCounter = own_metric [] ''remove_taints_failures_total'' Counter [''node_name'']"

definition NewProxyDialLantencyMillis :: metric_opts where
  "NewProxyDialLantencyMillis = own_metric ''proxy'' ''dial_latency_millis'' (Histogram latency_buckets) [''client_ip'']"

definition NewProxyActiveConnectionsGauge :: metric_opts where
  "NewProxyActiveConnectionsGauge = own_metric ''proxy'' ''active_connections'' Gauge []"

definition NewCachedPodsGauge :: metric_opts where
  "NewCachedPodsGauge = own_metric [] ''pods'' Gauge []"

definition NewPodCacheMissesCounter :: metric_opts where
  "NewPodCacheMissesCounter = own_metric [] ''pod_cache_misses_total'' Counter []"

definition NewCachedServiceAccountsGauge :: metric_opts where
  "NewCachedServiceAccountsGauge = own_metric [] ''service_accounts'' Gauge []"

definition NewServiceAccountCacheMissesCounter :: metric_opts where
  "NewServiceAccountCacheMissesCounter = own_metric [] ''service_account_cache_misses_total'' Counter []"

definition NewCachedServiceAccountTokensGauge :: metric_opts where
  "NewCachedServiceAccountTokensGauge = own_metric [] ''service_account_tokens'' Gauge []"

definition NewServiceAccountTokenCacheMissesCounter :: metric_opts where
  "NewServiceAccountTokenCacheMissesCounter = own_metric [] ''service_account_token_cache_misses_total'' Counter []"

lemmas metric_defs = own_metric_def namespace_def latency_buckets_def NewRequestLatencyMillis_def
  NewLookupPodFailuresCounter_def NewGetNodeFailuresCounter_def NewRemoveTaintsFailuresCounter_def
  NewProxyDialLantencyMillis_def NewProxyActiveConnectionsGauge_def NewCachedPodsGauge_def
  NewPodCacheMissesCounter_def NewCachedServiceAccountsGauge_def NewServiceAccountCacheMissesCounter_def
  NewCachedServiceAccountTokensGauge_def NewServiceAccountTokenCacheMissesCounter_def

section \<open>The Prometheus client\<close>

text \<open>What the library demands of names, labels and buckets.\<close>

definition is_word :: "char \<Rightarrow> bool" where
  "is_word c \<longleftrightarrow> is_alpha c \<or> c = CHR ''_''"

definition valid_name :: "string \<Rightarrow> bool" where
  "valid_name s \<longleftrightarrow> s \<noteq> [] \<and> is_word (hd s) \<and> list_all (\<lambda>c. is_word c \<or> is_digit c) s"

definition valid_label :: "string \<Rightarrow> bool" where
  "valid_label s \<longleftrightarrow> valid_name s \<and> \<not> HasPrefix s ''__''"

fun valid_kind :: "metric_kind \<Rightarrow> string list \<Rightarrow> bool" where
  "valid_kind (Histogram (ExponentialBuckets (start, _) (factor, k) count)) labels \<longleftrightarrow>
     0 < start \<and> 10 ^ k < factor \<and> 1 \<le> count \<and> ''le'' \<notin> set labels"
| "valid_kind _ labels \<longleftrightarrow> True"

fun valid_collector :: "collector \<Rightarrow> bool" where
  "valid_collector (Collector m) \<longleftrightarrow>
     valid_name (m_Namespace m) \<and> (m_Subsystem m = [] \<or> valid_name (m_Subsystem m)) \<and> valid_name (m_Name m) \<and>
     distinct (m_labels m) \<and> list_all valid_label (m_labels m) \<and> valid_kind (m_kind m) (m_labels m)"
| "valid_collector _ \<longleftrightarrow> True"

text \<open>\<open>utf8.ValidString\<close>: the well-formed byte sequences of UTF-8.\<close>

definition in_byte :: "nat \<Rightarrow> nat \<Rightarrow> char \<Rightarrow> bool" where
  "in_byte lo hi c \<longleftrightarrow> lo \<le> of_char c \<and> of_char c \<le> hi"

fun ValidString :: "string \<Rightarrow> bool" where
  "ValidString [] \<longleftrightarrow> True"
| "ValidString (b0 # s) \<longleftrightarrow>
     (if in_byte 0x00 0x7F b0 then ValidString s
      else case s of
        [] \<Rightarrow> False
      | b1 # s1 \<Rightarrow>
          if in_byte 0xC2 0xDF b0 then in_byte 0x80 0xBF b1 \<and> ValidString s1
          else (case s1 of
              [] \<Rightarrow> False
            | b2 # s2 \<Rightarrow>
                if in_byte 0xE0 0xEF b0 then
                  (if b0 = CHR 0xE0 then in_byte 0xA0 0xBF b1
                   else if b0 = CHR 0xED then in_byte 0x80 0x9F b1 else in_byte 0x80 0xBF b1) \<and>
                  in_byte 0x80 0xBF b2 \<and> ValidString s2
                else (case s2 of
                    [] \<Rightarrow> False
                  | b3 # s3 \<Rightarrow>
                      in_byte 0xF0 0xF4 b0 \<and>
                      (if b0 = CHR 0xF0 then in_byte 0x90 0xBF b1
                       else if b0 = CHR 0xF4 then in_byte 0x80 0x8F b1 else in_byte 0x80 0xBF b1) \<and>
                      in_byte 0x80 0xBF b2 \<and> in_byte 0x80 0xBF b3 \<and> ValidString s3)))"

lemma ValidString_ascii: "list_all (in_byte 0 0x7F) s \<Longrightarrow> ValidString s"
  by (induction s) auto

record handler_opts =
  EnableOpenMetrics :: bool
  ProcessStartTime :: gotime

text \<open>The library: \<open>'r\<close> is \<open>*prometheus.Registry\<close>, \<open>pm_names\<close> the fully-qualified names that a collector
  describes, \<open>pm_registered\<close> those of the collectors of a registry.\<close>

record 'r prometheus =
  pm_NewRegistry :: 'r
  pm_MustRegister :: "collector \<Rightarrow> 'r \<Rightarrow> 'r go"
  pm_names :: "collector \<Rightarrow> string set"
  pm_registered :: "'r \<Rightarrow> string set"
  pm_WithLabelValues :: "metric_opts \<Rightarrow> string list \<Rightarrow> unit go"
  pm_HandlerFor :: "'r \<Rightarrow> handler_opts \<Rightarrow> unit http \<Rightarrow> unit http go"

definition BuildFQName_ok :: "'r prometheus \<Rightarrow> bool" where
  "BuildFQName_ok P \<longleftrightarrow>
     (\<forall>m. m_Namespace m \<noteq> [] \<longrightarrow> m_Name m \<noteq> [] \<longrightarrow> pm_names P (Collector m) =
        {Join (filter (\<lambda>part. part \<noteq> []) [m_Namespace m, m_Subsystem m, m_Name m]) ''_''})"

definition prometheus_ok :: "'r prometheus \<Rightarrow> bool" where
  "prometheus_ok P \<longleftrightarrow>
     pm_registered P (pm_NewRegistry P) = {} \<and>
     (\<forall>c r. valid_collector c \<longrightarrow> pm_names P c \<inter> pm_registered P r = {} \<longrightarrow>
        (\<exists>r'. pm_MustRegister P c r = Ret r' \<and> pm_registered P r' = pm_registered P r \<union> pm_names P c)) \<and>
     (\<forall>c r. pm_names P c \<inter> pm_registered P r \<noteq> {} \<longrightarrow> panics (pm_MustRegister P c r)) \<and>
     BuildFQName_ok P \<and>
     (\<forall>n\<in>pm_names P ProcessCollector. HasPrefix n ''process_'') \<and>
     (\<forall>n\<in>pm_names P GoCollector. HasPrefix n ''go_'') \<and>
     (\<forall>m vs. length vs = length (m_labels m) \<longrightarrow> list_all ValidString vs \<longrightarrow> pm_WithLabelValues P m vs = Ret ())"

section \<open>Registering\<close>

fun register_all :: "'r prometheus \<Rightarrow> collector list \<Rightarrow> 'r \<Rightarrow> 'r go" where
  "register_all P [] r = Ret r"
| "register_all P (c # cs) r = gobind (pm_MustRegister P c r) (register_all P cs)"

lemma register_all_append: "register_all P (xs @ ys) r = gobind (register_all P xs r) (register_all P ys)"
proof (induction xs arbitrary: r)
  case (Cons c xs)
  then show ?case by (cases "pm_MustRegister P c r") auto
qed simp

definition registry_collectors :: "collector list" where
  "registry_collectors = [ProcessCollector, GoCollector]"

definition NewRegistry :: "'r prometheus \<Rightarrow> 'r go" where
  "NewRegistry P = register_all P registry_collectors (pm_NewRegistry P)"

definition HandlerFor :: "'r prometheus \<Rightarrow> gotime \<Rightarrow> 'r \<Rightarrow> unit http \<Rightarrow> unit http go" where
  "HandlerFor P processStartTime registry =
     pm_HandlerFor P registry \<lparr>EnableOpenMetrics = True, ProcessStartTime = processStartTime\<rparr>"

text \<open>The collectors that the components register: the watching providers, the token cache, the server and
  \<open>main\<close>.\<close>

definition pods_collectors :: "collector list" where
  "pods_collectors = [Collector NewCachedPodsGauge, Collector NewPodCacheMissesCounter]"

definition serviceAccounts_collectors :: "collector list" where
  "serviceAccounts_collectors = [Collector NewCachedServiceAccountsGauge, Collector NewServiceAccountCacheMissesCounter]"

definition tokens_collectors :: "collector list" where
  "tokens_collectors = [Collector NewCachedServiceAccountTokensGauge, Collector NewServiceAccountTokenCacheMissesCounter]"

definition server_collectors :: "collector list" where
  "server_collectors = map Collector [NewRequestLatencyMillis, NewLookupPodFailuresCounter, NewProxyDialLantencyMillis,
     NewProxyActiveConnectionsGauge]"

definition taints_collectors :: "collector list" where
  "taints_collectors = [Collector NewRemoveTaintsFailuresCounter]"

lemmas collectors_defs = registry_collectors_def pods_collectors_def serviceAccounts_collectors_def tokens_collectors_def
  server_collectors_def taints_collectors_def

definition all_collectors :: "collector list" where
  "all_collectors = registry_collectors @ pods_collectors @ serviceAccounts_collectors @ tokens_collectors @
     server_collectors @ taints_collectors"

section \<open>No registration panics\<close>

definition fq_name :: "metric_opts \<Rightarrow> string" where
  "fq_name m = Join (filter (\<lambda>part. part \<noteq> []) [m_Namespace m, m_Subsystem m, m_Name m]) ''_''"

fun own_opts :: "collector \<Rightarrow> metric_opts list" where
  "own_opts (Collector m) = [m]"
| "own_opts _ = []"

lemma all_valid: "list_all valid_collector all_collectors"
  by code_simp

lemma own_named: "list_all (\<lambda>m. HasPrefix (fq_name m) ''gke_metadata_server_'' \<and> m_Namespace m \<noteq> [] \<and> m_Name m \<noteq> [])
    (concat (map own_opts all_collectors))"
  by code_simp

lemma own_distinct: "distinct (map fq_name (concat (map own_opts all_collectors)))"
  by code_simp

lemma collectors_distinct: "distinct all_collectors"
  by code_simp

lemma own_opts_mem: "Collector m \<in> set cs \<Longrightarrow> m \<in> set (concat (map own_opts cs))"
  by force

lemma own_names:
  assumes "prometheus_ok P" "Collector m \<in> set all_collectors"
  shows "pm_names P (Collector m) = {fq_name m}" "HasPrefix (fq_name m) ''gke_metadata_server_''"
proof -
  have m: "HasPrefix (fq_name m) ''gke_metadata_server_''" "m_Namespace m \<noteq> []" "m_Name m \<noteq> []"
    using own_named own_opts_mem [OF assms(2)] by (simp_all only: list_all_iff not_False_eq_True)
  show "HasPrefix (fq_name m) ''gke_metadata_server_''" by (rule m)
  have "BuildFQName_ok P" using assms(1) unfolding prometheus_ok_def by (elim conjE)
  then show "pm_names P (Collector m) = {fq_name m}" using m(2,3) unfolding BuildFQName_ok_def fq_name_def by simp
qed

lemma HasPrefix_clash: "HasPrefix s p \<Longrightarrow> HasPrefix s q \<Longrightarrow> take (min (length p) (length q)) p = take (min (length p) (length q)) q"
proof -
  assume "HasPrefix s p" "HasPrefix s q"
  then have "take (min (length p) (length q)) p = take (min (length p) (length q)) (take (length p) s)"
      "take (min (length p) (length q)) q = take (min (length p) (length q)) (take (length q) s)"
    by (simp_all add: HasPrefix_def)
  then show ?thesis by simp
qed

text \<open>The three families of names have no name in common, and the program's own names differ.\<close>

lemma names_family:
  assumes "prometheus_ok P" "c \<in> set all_collectors" "n \<in> pm_names P c"
  shows "HasPrefix n (case c of ProcessCollector \<Rightarrow> ''process_'' | GoCollector \<Rightarrow> ''go_'' | Collector _ \<Rightarrow> ''gke_metadata_server_'')"
proof (cases c)
  case (Collector m)
  then show ?thesis using own_names [of P m] assms by simp
qed (use assms in \<open>auto simp: prometheus_ok_def\<close>)

lemma names_disjoint:
  assumes "prometheus_ok P" "c \<in> set all_collectors" "d \<in> set all_collectors" "c \<noteq> d"
  shows "pm_names P c \<inter> pm_names P d = {}"
proof (rule ccontr)
  assume "\<not> ?thesis"
  then obtain n where n: "n \<in> pm_names P c" "n \<in> pm_names P d" by blast
  note clash = HasPrefix_clash [OF names_family [OF assms(1,2) n(1)] names_family [OF assms(1,3) n(2)]]
  show False
  proof (cases "\<exists>m m'. c = Collector m \<and> d = Collector m'")
    case True
    then obtain m m' where cd: "c = Collector m" "d = Collector m'" by blast
    then have "fq_name m = fq_name m'" using n own_names(1) [OF assms(1)] assms(2,3) by auto
    then have "m = m'"
      using own_distinct own_opts_mem assms(2,3) cd unfolding distinct_map inj_on_def by blast
    then show False using assms(4) cd by simp
  next
    case False
    then show False using clash assms(4) by (cases c; cases d) simp_all
  qed
qed

lemma register_distinct:
  assumes "prometheus_ok P" "set cs \<subseteq> set all_collectors" "distinct cs"
    and "\<forall>c\<in>set cs. pm_names P c \<inter> pm_registered P r = {}"
  shows "\<exists>r'. register_all P cs r = Ret r' \<and> pm_registered P r' = pm_registered P r \<union> (\<Union>c\<in>set cs. pm_names P c)"
  using assms(2-)
proof (induction cs arbitrary: r)
  case (Cons c cs)
  have "valid_collector c" using Cons.prems(1) all_valid by (auto simp: list_all_iff)
  then obtain r' where r': "pm_MustRegister P c r = Ret r'" "pm_registered P r' = pm_registered P r \<union> pm_names P c"
    using assms(1) Cons.prems(3) unfolding prometheus_ok_def by (meson list.set_intros(1))
  have "\<forall>d\<in>set cs. pm_names P d \<inter> pm_registered P r' = {}"
  proof
    fix d assume d: "d \<in> set cs"
    have "pm_names P d \<inter> pm_names P c = {}"
      by (rule names_disjoint [OF assms(1)]) (use d Cons.prems(1,2) in auto)
    then show "pm_names P d \<inter> pm_registered P r' = {}" using d Cons.prems(3) r'(2) by auto
  qed
  then show ?case using Cons.IH [of r'] Cons.prems r' by (auto simp: Un_assoc)
qed simp

lemma register_subseq:
  assumes "prometheus_ok P" "subseq cs all_collectors"
  shows "\<exists>r. register_all P cs (pm_NewRegistry P) = Ret r \<and> pm_registered P r = (\<Union>c\<in>set cs. pm_names P c)"
proof -
  have "pm_registered P (pm_NewRegistry P) = {}" using assms(1) by (simp add: prometheus_ok_def)
  moreover have "distinct cs" using assms(2) collectors_distinct by (auto simp: subseq_conv_nths)
  moreover have "set cs \<subseteq> set all_collectors" using list_emb_set [OF assms(2)] by blast
  ultimately show ?thesis using register_distinct [OF assms(1), of cs "pm_NewRegistry P"] by simp
qed

text \<open>A collector that is registered a second time makes the registration panic.\<close>

lemma register_twice:
  assumes "prometheus_ok P" "subseq cs all_collectors" "Collector m \<in> set cs"
  shows "panics (register_all P (cs @ [Collector m]) (pm_NewRegistry P))"
proof -
  obtain r where r: "register_all P cs (pm_NewRegistry P) = Ret r" "pm_registered P r = (\<Union>c\<in>set cs. pm_names P c)"
    using register_subseq [OF assms(1,2)] by blast
  have "Collector m \<in> set all_collectors" using list_emb_set [OF assms(2,3)] by blast
  then have "pm_names P (Collector m) \<inter> pm_registered P r \<noteq> {}" using own_names(1) [OF assms(1)] assms(3) r(2) by auto
  then have "panics (pm_MustRegister P (Collector m) r)" using assms(1) by (simp add: prometheus_ok_def)
  then show ?thesis using r(1) by (cases "pm_MustRegister P (Collector m) r") (simp_all add: register_all_append)
qed

section \<open>A registry\<close>

text \<open>A library that satisfies the laws: the registry is the list of the registered names.\<close>

fun list_names :: "collector \<Rightarrow> string list" where
  "list_names ProcessCollector = [''process_cpu_seconds_total'']"
| "list_names GoCollector = [''go_goroutines'']"
| "list_names (Collector m) = [fq_name m]"

definition list_registry :: "string list prometheus" where
  "list_registry = \<lparr>pm_NewRegistry = [],
     pm_MustRegister = (\<lambda>c r. if list_ex (\<lambda>n. n \<in> set r) (list_names c) then Panic ''duplicate metrics collector registration attempted''
       else Ret (list_names c @ r)),
     pm_names = (\<lambda>c. set (list_names c)), pm_registered = set,
     pm_WithLabelValues = (\<lambda>m vs. if length vs = length (m_labels m) \<and> list_all ValidString vs then Ret ()
       else Panic ''inconsistent label cardinality''),
     pm_HandlerFor = (\<lambda>r ho st. WriteHeader 200 st)\<rparr>"

lemma list_registry_ok: "prometheus_ok list_registry"
  by (auto simp: prometheus_ok_def BuildFQName_ok_def list_registry_def list_ex_iff fq_name_def HasPrefix_def)

end
