(* ===== verification/Server_Startup.thy ===== *)
theory Server_Startup
  imports Server Metrics
begin

text \<open>
  The part of \<open>server.New\<close> that has effects: the metrics it registers, the health endpoints, and the two
  goroutines that start the servers. The goroutines and \<open>New\<close> itself are a step relation over the channel
  \<open>done\<close>; \<open>l.Fatal\<close> in any of them exits the process, after which there is no step.
\<close>

section \<open>Metrics and health endpoints\<close>

definition New_metrics :: "'r prometheus \<Rightarrow> 'r \<Rightarrow> 'r go" where
  "New_metrics P registry = register_all P server_collectors registry"

text \<open>The observer that \<open>New\<close> gives to the middleware, on the labels of an observation.\<close>

definition observeLatencyMillis :: "'r prometheus \<Rightarrow> string \<times> string \<times> int \<Rightarrow> unit go" where
  "observeLatencyMillis P ob =
     (case ob of (verb, path, statusCode) \<Rightarrow> pm_WithLabelValues P NewRequestLatencyMillis [verb, path, itoa statusCode])"

text \<open>\<open>http.NotFound\<close>, the answer of a \<open>ServeMux\<close> to a path without a handler.\<close>

definition http_NotFound :: "'s http \<Rightarrow> 's http go" where
  "http_NotFound st =
     gobind (WriteHeader 404 (st\<lparr>w_header := header_set ''X-Content-Type-Options'' ''nosniff''
         (header_set ''Content-Type'' ''text/plain; charset=utf-8'' (w_header st))\<rparr>)) (\<lambda>st.
       gobind (Write (BText (''404 page not found'' @ [CHR 0x0A])) st) (\<lambda>(st, _). Ret st))"

text \<open>The handler of the health server, for a clean path (\<open>ServeMux\<close> redirects the others to their clean
  form). The patterns have neither wildcards nor a trailing slash: they match one path each.\<close>

definition healthHandler :: "'r prometheus \<Rightarrow> gotime \<Rightarrow> 'r \<Rightarrow> server \<Rightarrow> readyz_env \<Rightarrow> string \<Rightarrow> unit http \<Rightarrow> unit http go" where
  "healthHandler P processStartTime registry s e path =
     (if path = ''/metrics'' then HandlerFor P processStartTime registry
      else if path = ''/healthz'' then healthz
      else if path = ''/readyz'' then readyz s e
      else http_NotFound)"

lemma itoa_ascii: "list_all (in_byte 0 0x7F) (itoa n)"
proof -
  have "in_byte 0 0x7F c" if "is_digit c" for c using that by (simp add: is_digit_def in_byte_def)
  moreover have "in_byte 0 0x7F CHR ''-''" by (simp add: in_byte_def)
  ultimately show ?thesis using utoa_digits by (simp add: itoa_def list_all_iff)
qed

text \<open>Observing a request does not panic if its method and path are valid UTF-8.\<close>

lemma observation_returns:
  assumes "prometheus_ok P" "ValidString verb" "ValidString path"
  shows "observeLatencyMillis P (verb, path, code) = Ret ()"
proof -
  have "length [verb, path, itoa code] = length (m_labels NewRequestLatencyMillis)" by (simp add: metric_defs)
  then show ?thesis
    using assms ValidString_ascii [OF itoa_ascii, of code] unfolding prometheus_ok_def observeLatencyMillis_def
    by (metis (no_types, lifting) list.pred_inject(1) list.pred_inject(2) prod.case)
qed

text \<open>What \<open>New\<close> builds before it starts anything: the registered metrics and the handlers of the two servers.
  The middleware only adds to the request's context, which the health endpoints do not read.\<close>

record 'r http_servers =
  hs_opts :: server
  hs_registry :: 'r
  hs_metadataServer :: "gotime \<Rightarrow> sreq \<Rightarrow> shttp \<Rightarrow> shttp go"
  hs_healthServer :: "readyz_env \<Rightarrow> string \<Rightarrow> unit http \<Rightarrow> unit http go"

definition New_handlers :: "'r prometheus \<Rightarrow> gotime \<Rightarrow> 'r \<Rightarrow> server \<Rightarrow> 'r http_servers go" where
  "New_handlers P processStartTime registry opts =
     gobind (New_metrics P registry) (\<lambda>registry.
     gobind (metadataHandler opts) (\<lambda>h.
       Ret \<lparr>hs_opts = opts, hs_registry = registry,
            hs_metadataServer = (\<lambda>now. observabilityMiddleware now (ServeHTTP h)),
            hs_healthServer = healthHandler P processStartTime registry opts\<rparr>))"

text \<open>With a registry that has none of its collectors, \<open>New\<close> does not panic, and its metadata server serves every
  request with the handlers of the options.\<close>

lemma New_handlers_serve:
  assumes "prometheus_ok P" "\<forall>c\<in>set server_collectors. pm_names P c \<inter> pm_registered P registry = {}"
  shows "\<exists>hs. New_handlers P processStartTime registry opts = Ret hs \<and> hs_metadataServer hs = serve opts \<and>
    (\<forall>c\<in>set server_collectors. pm_names P c \<subseteq> pm_registered P (hs_registry hs))"
proof -
  have "distinct server_collectors" "set server_collectors \<subseteq> set all_collectors"
    using collectors_distinct by (auto simp: all_collectors_def)
  from register_distinct [OF assms(1) this(2,1)] assms(2) obtain r where
    r: "New_metrics P registry = Ret r" "pm_registered P r = pm_registered P registry \<union> (\<Union>c\<in>set server_collectors. pm_names P c)"
    unfolding New_metrics_def by blast
  have "observabilityMiddleware now (ServeHTTP (full_tree opts)) = serve opts now" for now
    by (simp add: fun_eq_iff serve_def metadataHandler_tree)
  then show ?thesis using r by (auto simp: New_handlers_def metadataHandler_tree)
qed

text \<open>The health server answers: \<open>/healthz\<close> with 200 and a path without an endpoint with 404.\<close>

lemma health_statuses:
  assumes "w_sent st = None"
  shows "\<exists>st'. healthHandler P t registry s e ''/healthz'' st = Ret st' \<and> map_option fst (w_sent st') = Some 200"
    and "path \<notin> {''/metrics'', ''/healthz'', ''/readyz''} \<Longrightarrow>
      \<exists>st'. healthHandler P t registry s e path st = Ret st' \<and> map_option fst (w_sent st') = Some 404"
  using assms
  by (simp_all add: healthHandler_def healthz_def http_NotFound_def WriteHeader_def Write_def bodyAllowedForStatus_def)

section \<open>Starting the servers\<close>

definition ErrServerClosed :: goerr where
  "ErrServerClosed = Sentinel ''http: Server closed''"

text \<open>Where the goroutine of the metadata server is: listening, sending on \<open>done\<close>, serving, ended. The health
  server sends first: \<open>ListenAndServe\<close> listens and then serves.\<close>

datatype meta_phase = MListen | MSend | MServe | MEnded

datatype health_phase = HSend | HListen | HServe | HEnded

text \<open>\<open>su_done\<close> counts what is in the channel, \<open>su_received\<close> what \<open>New\<close> has received from it.\<close>

record startup =
  su_meta :: meta_phase
  su_health :: health_phase
  su_done :: nat
  su_received :: nat
  su_exit :: "string option"

definition startup_init :: startup where
  "startup_init = \<lparr>su_meta = MListen, su_health = HSend, su_done = 0, su_received = 0, su_exit = None\<rparr>"

definition New_returned :: "startup \<Rightarrow> bool" where
  "New_returned st \<longleftrightarrow> su_received st = 2"

text \<open>What a goroutine does when its server returns \<open>err\<close>: it ends, or exits the process.\<close>

definition served :: "string \<Rightarrow> goerr option \<Rightarrow> startup \<Rightarrow> startup \<Rightarrow> startup" where
  "served msg err ended st =
     (case err of
        Some e \<Rightarrow> if errors_Is e ErrServerClosed then ended else st\<lparr>su_exit := Some msg\<rparr>
      | None \<Rightarrow> ended)"

text \<open>The steps while the process runs; \<open>lis\<close> is the error of \<open>net.Listen\<close> or \<open>proxy.Listen\<close>.\<close>

inductive su_step :: "goerr option \<Rightarrow> startup \<Rightarrow> startup \<Rightarrow> bool" for lis where
  listen: "su_exit st = None \<Longrightarrow> su_meta st = MListen \<Longrightarrow> lis = None \<Longrightarrow> su_step lis st (st\<lparr>su_meta := MSend\<rparr>)"
| listen_failed: "su_exit st = None \<Longrightarrow> su_meta st = MListen \<Longrightarrow> lis = Some err \<Longrightarrow>
    su_step lis st (st\<lparr>su_exit := Some ''error listening on metadata server address''\<rparr>)"
| meta_send: "su_exit st = None \<Longrightarrow> su_meta st = MSend \<Longrightarrow> su_done st < 2 \<Longrightarrow>
    su_step lis st (st\<lparr>su_meta := MServe, su_done := Suc (su_done st)\<rparr>)"
| meta_served: "su_exit st = None \<Longrightarrow> su_meta st = MServe \<Longrightarrow>
    su_step lis st (served ''error serving metadata server'' err (st\<lparr>su_meta := MEnded\<rparr>) st)"
| health_send: "su_exit st = None \<Longrightarrow> su_health st = HSend \<Longrightarrow> su_done st < 2 \<Longrightarrow>
    su_step lis st (st\<lparr>su_health := HListen, su_done := Suc (su_done st)\<rparr>)"
| health_listen: "su_exit st = None \<Longrightarrow> su_health st = HListen \<Longrightarrow> su_step lis st (st\<lparr>su_health := HServe\<rparr>)"
| health_served: "su_exit st = None \<Longrightarrow> su_health st = HListen \<or> su_health st = HServe \<Longrightarrow>
    su_step lis st (served ''error listening and serving health server'' err (st\<lparr>su_health := HEnded\<rparr>) st)"
| receive: "su_exit st = None \<Longrightarrow> su_received st < 2 \<Longrightarrow> 0 < su_done st \<Longrightarrow>
    su_step lis st (st\<lparr>su_done := su_done st - 1, su_received := Suc (su_received st)\<rparr>)"

text \<open>Every goroutine that is past its send has put one value into the channel, and the channel has room
  for both.\<close>

definition meta_sent :: "startup \<Rightarrow> nat" where
  "meta_sent st = (if su_meta st = MServe \<or> su_meta st = MEnded then 1 else 0)"

definition health_sent :: "startup \<Rightarrow> nat" where
  "health_sent st = (if su_health st = HSend then 0 else 1)"

definition su_inv :: "goerr option \<Rightarrow> startup \<Rightarrow> bool" where
  "su_inv lis st \<longleftrightarrow> su_done st + su_received st = meta_sent st + health_sent st \<and> su_received st \<le> 2 \<and>
     (lis \<noteq> None \<longrightarrow> su_meta st = MListen) \<and>
     (\<forall>msg. su_exit st = Some msg \<longrightarrow>
        (if msg = ''error listening on metadata server address'' then lis \<noteq> None
         else msg = ''error serving metadata server'' \<or> msg = ''error listening and serving health server''))"

definition meta_left :: "meta_phase \<Rightarrow> nat" where
  "meta_left ph = (case ph of MListen \<Rightarrow> 3 | MSend \<Rightarrow> 2 | MServe \<Rightarrow> 1 | MEnded \<Rightarrow> 0)"

definition health_left :: "health_phase \<Rightarrow> nat" where
  "health_left ph = (case ph of HSend \<Rightarrow> 3 | HListen \<Rightarrow> 2 | HServe \<Rightarrow> 1 | HEnded \<Rightarrow> 0)"

definition su_left :: "startup \<Rightarrow> nat" where
  "su_left st = meta_left (su_meta st) + health_left (su_health st) + (2 - su_received st) + (if su_exit st = None then 1 else 0)"

lemmas su_defs = su_inv_def meta_sent_def health_sent_def served_def

lemma su_inv_init: "su_inv lis startup_init"
  by (simp add: su_defs startup_init_def)

lemma su_inv_step: "su_step lis st st' \<Longrightarrow> su_inv lis st \<Longrightarrow> su_inv lis st'"
  by (induction rule: su_step.induct) (auto simp: su_defs split: option.splits if_splits)

lemma su_reachable: "(su_step lis)\<^sup>*\<^sup>* startup_init st \<Longrightarrow> su_inv lis st"
  by (induction rule: rtranclp_induct) (auto intro: su_inv_init su_inv_step)

lemma su_left_step: "su_step lis st st' \<Longrightarrow> su_left st' < su_left st"
  by (induction rule: su_step.induct) (auto simp: su_left_def served_def meta_left_def health_left_def split: option.splits)

lemma su_left_run: "(su_step lis ^^ n) st st' \<Longrightarrow> n + su_left st' \<le> su_left st"
  by (induction n arbitrary: st') (fastforce dest: su_left_step)+

text \<open>As long as \<open>New\<close> waits, one of the three can go on.\<close>

lemma su_progress:
  assumes "su_inv lis st" "su_exit st = None" "\<not> New_returned st"
  shows "\<exists>st'. su_step lis st st'"
proof (cases "su_done st = 0")
  case True
  then have less: "meta_sent st + health_sent st < 2"
    using assms(1,3) by (simp add: su_inv_def New_returned_def)
  show ?thesis
  proof (cases "su_health st = HSend")
    case True
    then show ?thesis using su_step.health_send [OF assms(2)] \<open>su_done st = 0\<close> by auto
  next
    case False
    then have "su_meta st = MListen \<or> su_meta st = MSend"
      using less by (cases "su_meta st") (simp_all add: meta_sent_def health_sent_def)
    then show ?thesis
    proof
      assume "su_meta st = MListen"
      then show ?thesis
        using su_step.listen [OF assms(2)] su_step.listen_failed [OF assms(2)] by (cases lis) blast+
    next
      assume "su_meta st = MSend"
      then show ?thesis using su_step.meta_send [OF assms(2)] \<open>su_done st = 0\<close> by (metis zero_less_numeral)
    qed
  qed
next
  case False
  then show ?thesis using su_step.receive [OF assms(2)] assms(1,3) by (auto simp: su_inv_def New_returned_def)
qed

section \<open>Properties of the start\<close>

text \<open>C25. \<open>New\<close> always comes to an end: no interleaving of its goroutines takes more than nine steps, and until
  \<open>New\<close> has returned or the process has exited one of them can go on, so the sends on \<open>done\<close> never
  block for good. When it returns, the metadata server's address is bound; if it cannot be bound, \<open>New\<close>
  does not return.\<close>

theorem server_starts:
  assumes "(su_step lis ^^ n) startup_init st"
  shows "n \<le> 9 \<and> (su_exit st = None \<longrightarrow> New_returned st \<or> (\<exists>st'. su_step lis st st')) \<and>
    (New_returned st \<longrightarrow> lis = None \<and> (su_meta st = MServe \<or> su_meta st = MEnded)) \<and>
    (su_exit st = Some ''error listening on metadata server address'' \<longrightarrow> lis \<noteq> None)"
proof -
  have inv: "su_inv lis st" using su_reachable [OF relpowp_imp_rtranclp [OF assms]] .
  have "n \<le> 9" using su_left_run [OF assms] by (simp add: su_left_def meta_left_def health_left_def startup_init_def)
  moreover have "lis = None \<and> (su_meta st = MServe \<or> su_meta st = MEnded)" if "New_returned st"
    using inv that by (auto simp: su_defs New_returned_def split: if_splits)
  moreover have "su_exit st = Some ''error listening on metadata server address'' \<longrightarrow> lis \<noteq> None"
    using inv by (auto simp: su_inv_def)
  ultimately show ?thesis using su_progress [OF inv] by blast
qed

text \<open>The health server sends before it listens: \<open>New\<close> can return while nothing listens on the health port.\<close>

definition example_startup :: startup where
  "example_startup = \<lparr>su_meta = MServe, su_health = HListen, su_done = 0, su_received = 2, su_exit = None\<rparr>"

lemma example_startup_run: "(su_step None ^^ 5) startup_init example_startup"
proof -
  let ?a = "startup_init\<lparr>su_meta := MSend\<rparr>"
  let ?b = "?a\<lparr>su_meta := MServe, su_done := 1\<rparr>"
  let ?c = "?b\<lparr>su_health := HListen, su_done := 2\<rparr>"
  let ?d = "?c\<lparr>su_done := 1, su_received := 1\<rparr>"
  have "su_step None startup_init ?a" "su_step None ?a ?b" "su_step None ?b ?c" "su_step None ?c ?d" "su_step None ?d example_startup"
    using su_step.listen [of startup_init None] su_step.meta_send [of ?a None] su_step.health_send [of ?b None]
      su_step.receive [of ?c None] su_step.receive [of ?d None]
    by (simp_all add: startup_init_def example_startup_def numeral_2_eq_2)
  then show ?thesis by (auto simp: numeral_eq_Suc OO_def)
qed

theorem server_starts_witness:
  "New_returned example_startup \<and> su_health example_startup = HListen \<and> su_meta example_startup \<noteq> MListen"
  using server_starts [OF example_startup_run] by (auto simp: example_startup_def New_returned_def)

end
