(* ===== verification/Logging.thy ===== *)
theory Logging
  imports Http_Response
begin

text \<open>
  \<open>internal/logging\<close>: the logger of the process, the logger in a context, and the adapter through which
  klog, the log of client-go, writes to it. A logrus logger is its level and its fields; a Go map of
  fields is a function.
\<close>

section \<open>Loggers\<close>

text \<open>The levels of logrus as numbers: panic 0, fatal 1, error 2, warning 3, info 4, debug 5, trace 6.\<close>

definition ErrorLevel :: nat where "ErrorLevel = 2"
definition InfoLevel :: nat where "InfoLevel = 4"
definition DebugLevel :: nat where "DebugLevel = 5"
definition TraceLevel :: nat where "TraceLevel = 6"

lemmas level_defs = ErrorLevel_def InfoLevel_def DebugLevel_def TraceLevel_def

record logger =
  lg_level :: nat
  lg_fields :: "string \<rightharpoonup> any"

record log_entry =
  le_level :: nat
  le_msg :: string
  le_fields :: "string \<rightharpoonup> any"

definition WithFields :: "(string \<rightharpoonup> any) \<Rightarrow> logger \<Rightarrow> logger" where
  "WithFields fs l = l\<lparr>lg_fields := lg_fields l ++ fs\<rparr>"

text \<open>A logrus logger writes an entry when the entry's level is at most its own.\<close>

definition logrus_Log :: "nat \<Rightarrow> string \<Rightarrow> logger \<Rightarrow> log_entry list" where
  "logrus_Log lv msg l =
     (if lv \<le> lg_level l then [\<lparr>le_level = lv, le_msg = msg, le_fields = lg_fields l\<rparr>] else [])"

text \<open>\<open>NewLogger\<close> sets the package variable \<open>logLevel\<close>, the second component; a context holds a logger or none.\<close>

definition NewLogger :: "nat \<Rightarrow> logger \<times> nat" where
  "NewLogger level = (\<lparr>lg_level = level, lg_fields = Map.empty\<rparr>, level)"

definition FromContext :: "logger option \<Rightarrow> nat \<Rightarrow> logger \<times> nat" where
  "FromContext ctx logLevel = (case ctx of Some l \<Rightarrow> (l, logLevel) | None \<Rightarrow> NewLogger logLevel)"

definition IntoContext :: "logger \<Rightarrow> logger option \<Rightarrow> logger option" where
  "IntoContext l ctx = Some l"

definition logging_Debug :: "nat \<Rightarrow> bool" where
  "logging_Debug logLevel \<longleftrightarrow> logLevel \<ge> DebugLevel"

section \<open>The adapter\<close>

record logrAdapter =
  la_logger :: logger
  la_level :: nat

definition InitKLog :: "logger \<Rightarrow> nat \<Rightarrow> logrAdapter" where
  "InitKLog l level = \<lparr>la_logger = l, la_level = level\<rparr>"

definition Enabled :: "logrAdapter \<Rightarrow> int \<Rightarrow> bool" where
  "Enabled a level =
     (if level = 0 then la_level a \<ge> InfoLevel
      else if level = 1 then la_level a \<ge> DebugLevel
      else if level = 2 then la_level a \<ge> TraceLevel
      else False)"

text \<open>The loop over \<open>i += 2\<close>; \<open>sprint\<close> is \<open>fmt.Sprint\<close> of a key.\<close>

fun keysAndValuesToFields :: "(any \<Rightarrow> string) \<Rightarrow> any list \<Rightarrow> (string \<rightharpoonup> any) \<Rightarrow> (string \<rightharpoonup> any)" where
  "keysAndValuesToFields sprint [] acc = acc"
| "keysAndValuesToFields sprint [k] acc = acc(sprint k \<mapsto> AString ''<missing>'')"
| "keysAndValuesToFields sprint (k # v # rest) acc =
     keysAndValuesToFields sprint rest (acc(sprint k \<mapsto> v))"

definition adapter_Error :: "(any \<Rightarrow> string) \<Rightarrow> logrAdapter \<Rightarrow> goerr \<Rightarrow> string \<Rightarrow> any list \<Rightarrow> log_entry list" where
  "adapter_Error sprint a err msg kvs =
     logrus_Log ErrorLevel msg
       (WithFields (keysAndValuesToFields sprint kvs Map.empty)
         (WithFields [''error'' \<mapsto> AString (Error err)] (la_logger a)))"

definition adapter_Info :: "(any \<Rightarrow> string) \<Rightarrow> logrAdapter \<Rightarrow> int \<Rightarrow> string \<Rightarrow> any list \<Rightarrow> log_entry list" where
  "adapter_Info sprint a level msg kvs =
     (let l = WithFields (keysAndValuesToFields sprint kvs Map.empty) (la_logger a) in
      if level = 0 then logrus_Log InfoLevel msg l
      else if level = 1 then logrus_Log DebugLevel msg l
      else if level = 2 then logrus_Log TraceLevel msg l
      else [])"

definition WithName :: "string \<Rightarrow> logrAdapter \<Rightarrow> logrAdapter" where
  "WithName name a = \<lparr>la_logger = WithFields [''name'' \<mapsto> AString name] (la_logger a), la_level = la_level a\<rparr>"

definition WithValues :: "(any \<Rightarrow> string) \<Rightarrow> any list \<Rightarrow> logrAdapter \<Rightarrow> logrAdapter" where
  "WithValues sprint kvs a =
     \<lparr>la_logger = WithFields (keysAndValuesToFields sprint kvs Map.empty) (la_logger a), la_level = la_level a\<rparr>"

section \<open>Laws\<close>

text \<open>A context gives back the logger that was put into it, and reading one never changes the level.\<close>

lemma FromContext_IntoContext: "FromContext (IntoContext l ctx) g = (l, g)"
  by (simp add: FromContext_def IntoContext_def)

lemma FromContext_level: "snd (FromContext ctx g) = g"
  by (simp add: FromContext_def NewLogger_def split: option.split)

text \<open>The adapters of a process come from \<open>InitKLog\<close> with the level of its logger, by adding names and values: they
  answer \<open>Enabled\<close> truthfully, a message at an enabled verbosity is one that is written.\<close>

inductive process_adapter :: "(any \<Rightarrow> string) \<Rightarrow> nat \<Rightarrow> logrAdapter \<Rightarrow> bool" for sprint level where
  init: "process_adapter sprint level (InitKLog (fst (NewLogger level)) level)"
| name: "process_adapter sprint level a \<Longrightarrow> process_adapter sprint level (WithName n a)"
| "values": "process_adapter sprint level a \<Longrightarrow> process_adapter sprint level (WithValues sprint kvs a)"

lemma adapter_levels: "process_adapter sprint level a \<Longrightarrow> la_level a = level \<and> lg_level (la_logger a) = level"
  by (induction rule: process_adapter.induct)
    (simp_all add: InitKLog_def NewLogger_def WithName_def WithValues_def WithFields_def)

lemma enabled_written:
  assumes "process_adapter sprint level a"
  shows "Enabled a v \<longleftrightarrow> adapter_Info sprint a v msg kvs \<noteq> []"
  using adapter_levels [OF assms]
  by (auto simp: Enabled_def adapter_Info_def logrus_Log_def WithFields_def level_defs)

text \<open>The keys of the fields, and what an odd number of arguments gives.\<close>

fun keys_at_even :: "'a list \<Rightarrow> 'a list" where
  "keys_at_even [] = []"
| "keys_at_even [k] = [k]"
| "keys_at_even (k # v # rest) = k # keys_at_even rest"

lemma fields_keys:
  "dom (keysAndValuesToFields sprint kvs acc) = sprint ` set (keys_at_even kvs) \<union> dom acc"
  by (induction kvs arbitrary: acc rule: keys_at_even.induct) auto

lemma fields_missing:
  assumes "odd (length kvs)"
  shows "keysAndValuesToFields sprint kvs acc (sprint (last kvs)) = Some (AString ''<missing>'')"
  using assms by (induction sprint kvs acc rule: keysAndValuesToFields.induct) auto

end
