(* ===== verification/Informer.thy ===== *)
theory Informer
  imports Prelude
begin

text \<open>
  Starting and closing a watching provider, the same in \<open>internal/pods/watch\<close>, \<open>internal/node/watch\<close> and
  \<open>internal/serviceaccounts/watch\<close>: \<open>Start\<close> spawns a goroutine that runs the informer until \<open>closeChannel\<close> is
  closed and then closes \<open>closedChannel\<close>; \<open>Close\<close> closes the former and waits for the latter.
\<close>

record informer_life =
  closeChannel :: bool
  closedChannel :: bool
  runners :: nat

definition NewProvider_life :: informer_life where
  "NewProvider_life = \<lparr>closeChannel = False, closedChannel = False, runners = 0\<rparr>"

definition watch_Start :: "informer_life \<Rightarrow> informer_life" where
  "watch_Start l = l\<lparr>runners := Suc (runners l)\<rparr>"

text \<open>The part of \<open>Close\<close> before it waits. Closing a closed channel panics.\<close>

definition watch_Close :: "informer_life \<Rightarrow> informer_life go" where
  "watch_Close l = (if closeChannel l then Panic ''close of closed channel'' else Ret (l\<lparr>closeChannel := True\<rparr>))"

text \<open>A goroutine of \<open>Start\<close> whose \<open>informer.Run\<close> has returned. \<open>Run\<close> returns after its stop channel is closed.\<close>

inductive life_step :: "informer_life \<Rightarrow> informer_life \<Rightarrow> bool" where
  stop: "closeChannel l \<Longrightarrow> 0 < runners l \<Longrightarrow> \<not> closedChannel l \<Longrightarrow>
     life_step l (l\<lparr>runners := runners l - 1, closedChannel := True\<rparr>)"

inductive_simps life_step_iff: "life_step l l'"

text \<open>\<open>Close\<close> returns when \<open>closedChannel\<close> is closed sooner or later.\<close>

definition Close_returns :: "informer_life \<Rightarrow> bool" where
  "Close_returns l \<longleftrightarrow> (\<exists>l'. life_step\<^sup>*\<^sup>* l l' \<and> closedChannel l')"

lemma stuck_without_runner:
  assumes "life_step\<^sup>*\<^sup>* l l'" "runners l = 0"
  shows "l' = l"
  using assms by (induction rule: converse_rtranclp_induct) (auto simp: life_step_iff)

text \<open>Closing a provider that was created returns exactly when it was started before.\<close>

lemma Close_returns_iff:
  assumes "watch_Close l = Ret l'" "\<not> closedChannel l"
  shows "Close_returns l' \<longleftrightarrow> 0 < runners l"
proof
  assume "Close_returns l'"
  then obtain l2 where l2: "life_step\<^sup>*\<^sup>* l' l2" "closedChannel l2" by (auto simp: Close_returns_def)
  show "0 < runners l"
  proof (rule ccontr)
    assume "\<not> 0 < runners l"
    then have "runners l' = 0" using assms(1) by (auto simp: watch_Close_def split: if_splits)
    from stuck_without_runner [OF l2(1) this] l2(2) assms show False
      by (auto simp: watch_Close_def split: if_splits)
  qed
next
  assume "0 < runners l"
  then have "life_step l' (l'\<lparr>runners := runners l' - 1, closedChannel := True\<rparr>)"
    using assms by (auto simp: watch_Close_def life_step_iff split: if_splits)
  then show "Close_returns l'" unfolding Close_returns_def by (intro exI conjI, rule r_into_rtranclp) simp_all
qed

end
