(* ===== verification/Proxy.thy ===== *)
theory Proxy
  imports Go_Errors
begin

text \<open>
  \<open>internal/proxy/proxy.go\<close>: the listener of the eBPF routing mode. It sniffs the request line of every
  connection and either hands the connection to the metadata server or pipes it to
  \<open>169.254.169.254:80\<close>. The goroutines, the queue and the gauge are a step relation.
\<close>

section \<open>The request line\<close>

abbreviation space :: char where "space \<equiv> CHR 0x20"
abbreviation newline :: char where "newline \<equiv> CHR 0x0A"

definition requestPathComplete :: "string \<Rightarrow> bool" where
  "requestPathComplete buf =
     (if IndexByte buf newline \<noteq> None then True
      else (case IndexByte buf space of
              None \<Rightarrow> False
            | Some sp \<Rightarrow> IndexByte (drop (Suc sp) buf) space \<noteq> None))"

definition cut_query :: "string \<Rightarrow> string" where
  "cut_query path = (case IndexByte path (CHR ''?'') of Some q \<Rightarrow> take q path | None \<Rightarrow> path)"

definition metadata_path :: "string \<Rightarrow> bool" where
  "metadata_path path \<longleftrightarrow> path = ''/'' \<or> path = ''/computeMetadata'' \<or> HasPrefix path ''/computeMetadata/''"

definition isMetadataRequest :: "string \<Rightarrow> bool" where
  "isMetadataRequest buf =
     (if \<not> HasPrefix buf ''GET '' then False
      else (let rest = drop 4 buf in
        case IndexByte rest space of
          None \<Rightarrow> False
        | Some sp \<Rightarrow> metadata_path (cut_query (take sp rest))))"

definition sniffCap :: nat where "sniffCap = 8192"

text \<open>One round of the sniffing loop: the bytes and the error of a \<open>Read\<close>.\<close>

type_synonym read_result = "string \<times> goerr option"

datatype sniff_round = SniffMore string | SniffDone string | SniffFailed goerr

definition sniff_next :: "string \<Rightarrow> read_result \<Rightarrow> sniff_round" where
  "sniff_next buf rd =
     (let buf = buf @ fst rd in
      if requestPathComplete buf \<or> sniffCap \<le> length buf then SniffDone buf
      else (case snd rd of Some err \<Rightarrow> SniffFailed err | None \<Rightarrow> SniffMore buf))"

text \<open>The loop over the results of the reads; \<open>None\<close> when the client sends no more and the loop is
  blocked. The result has the reads that are left.\<close>

fun sniff :: "read_result list \<Rightarrow> string \<Rightarrow> (goerr + string \<times> read_result list) option" where
  "sniff [] buf = None"
| "sniff (rd # rds) buf =
     (case sniff_next buf rd of
        SniffDone buf \<Rightarrow> Some (Inr (buf, rds))
      | SniffFailed err \<Rightarrow> Some (Inl err)
      | SniffMore buf \<Rightarrow> sniff rds buf)"

text \<open>\<open>sniffedConn.Read\<close> with a buffer of \<open>k\<close> bytes: first the sniffed bytes, then the connection, whose
  next read result is the head of the list.\<close>

fun sniffedConn_Read :: "nat \<Rightarrow> string \<times> read_result list \<Rightarrow> (read_result \<times> string \<times> read_result list) option" where
  "sniffedConn_Read k (buf, rds) =
     (if buf \<noteq> [] then Some ((take k buf, None), (drop k buf, rds))
      else (case rds of [] \<Rightarrow> None | rd # rds \<Rightarrow> Some (rd, ([], rds))))"

text \<open>\<open>io.Copy\<close>: the bytes read until the first error or until the connection blocks.\<close>

function io_Copy :: "nat \<Rightarrow> string \<times> read_result list \<Rightarrow> string" where
  "io_Copy k (buf, rds) =
     (if k = 0 then [] else
      case sniffedConn_Read k (buf, rds) of
        None \<Rightarrow> []
      | Some ((bs, err), c) \<Rightarrow> if err \<noteq> None then bs else bs @ io_Copy k c)"
  by pat_completeness auto
termination
  by (relation "measure (\<lambda>(k, buf, rds). length buf + length rds)") (auto split: if_splits list.splits)

declare io_Copy.simps [simp del]

fun wire :: "read_result list \<Rightarrow> string" where
  "wire [] = []"
| "wire ((bs, err) # rds) = bs @ (if err \<noteq> None then [] else wire rds)"

section \<open>Laws of the request line\<close>

text \<open>A request line: method and target without spaces and line breaks, then a space.\<close>

definition token :: "string \<Rightarrow> bool" where
  "token t \<longleftrightarrow> space \<notin> set t \<and> newline \<notin> set t"

lemma isMetadataRequest_line:
  assumes "token m" "token t"
  shows "isMetadataRequest (m @ space # t @ space # r) \<longleftrightarrow> m = ''GET'' \<and> metadata_path (cut_query t)"
proof (cases "m = ''GET''")
  case True
  have "IndexByte (t @ space # r) space = Some (length t)"
    using assms(2) by (intro IndexByte_append) (simp add: token_def)
  then show ?thesis using True by (simp add: isMetadataRequest_def HasPrefix_def Let_def)
next
  case False
  have "\<not> HasPrefix (m @ space # t @ space # r) ''GET ''"
  proof
    assume "HasPrefix (m @ space # t @ space # r) ''GET ''"
    then obtain z where z: "m @ space # (t @ space # r) = ''GET'' @ space # z" by (auto simp: HasPrefix_iff)
    have "space \<notin> set m" "space \<notin> set ''GET''" using assms(1) by (auto simp: token_def)
    then have "m = ''GET''" using z by (metis IndexByte_append append_eq_append_conv option.inject)
    then show False using False by simp
  qed
  then show ?thesis using False by (simp add: isMetadataRequest_def)
qed

lemma complete_iff_second_space:
  assumes "token m" "token t" "m @ space # t @ space # r = buf @ tail"
  shows "requestPathComplete buf \<longleftrightarrow> length m + length t + 2 \<le> length buf"
proof
  assume "length m + length t + 2 \<le> length buf"
  then have "take (length m + length t + 2) buf = m @ space # t @ [space]"
    using arg_cong [OF assms(3), of "take (length m + length t + 2)"] by simp
  then obtain b where b: "buf = m @ space # t @ space # b"
    by (metis append_take_drop_id append.assoc append_Cons append_Nil)
  have "IndexByte buf space = Some (length m)"
    unfolding b using assms(1) by (intro IndexByte_append) (simp add: token_def)
  moreover have "IndexByte (t @ space # b) space \<noteq> None" by (simp add: IndexByte_None_iff)
  ultimately show "requestPathComplete buf" by (simp add: requestPathComplete_def b)
next
  assume c: "requestPathComplete buf"
  show "length m + length t + 2 \<le> length buf"
  proof (rule ccontr)
    assume "\<not> ?thesis"
    then have len: "length buf \<le> length m + length t + 1" by simp
    have "take (length buf) ((m @ space # t) @ space # r) = take (length buf) (buf @ tail)"
      using assms(3) by simp
    moreover have "length buf - length (m @ space # t) = 0" using len by simp
    ultimately have buf: "buf = take (length buf) (m @ space # t)"
      by (metis append_Nil2 append_eq_conv_conj take0 take_append)
    then have "newline \<notin> set buf"
      using assms(1,2) set_take_subset [of "length buf" "m @ space # t"] by (auto simp: token_def)
    then have "IndexByte buf newline = None" by (simp add: IndexByte_None_iff)
    then obtain sp where sp: "IndexByte buf space = Some sp" "IndexByte (drop (Suc sp) buf) space \<noteq> None"
      using c by (cases "IndexByte buf space") (simp_all add: requestPathComplete_def)
    then have sp2: "space \<in> set (drop (Suc sp) buf)" by (simp only: IndexByte_None_iff not_not)
    have "length m < length buf"
    proof (rule ccontr)
      assume "\<not> length m < length buf"
      then have "buf = take (length buf) m" using buf by simp
      then have "space \<notin> set buf" using assms(1) set_take_subset [of "length buf" m] by (auto simp: token_def)
      then show False using sp(1) by (simp add: IndexByte_None_iff [symmetric])
    qed
    then obtain z where z: "buf = m @ space # z" "z = take (length buf - length m - 1) t"
      using buf by (metis take_Cons' append.assoc less_imp_le_nat take_append take_all zero_less_diff not_gr_zero)
    have "sp = length m" using sp(1) z(1) IndexByte_append [of space m z] assms(1) by (simp add: token_def)
    then have "space \<in> set z" using sp2 z(1) by simp
    then show False using z(2) assms(2) set_take_subset [of _ t] by (auto simp: token_def)
  qed
qed

section \<open>Laws of the sniffing loop\<close>

lemma sniff_Inr:
  assumes "sniff rds buf = Some (Inr (buf', rest))" "\<not> (requestPathComplete buf \<or> sniffCap \<le> length buf)"
  shows "\<exists>used. rds = used @ rest \<and> used \<noteq> [] \<and> buf' = buf @ concat (map fst used) \<and>
    (requestPathComplete buf' \<or> sniffCap \<le> length buf') \<and>
    (\<forall>k<length used. let b = buf @ concat (map fst (take k used)) in
       \<not> (requestPathComplete b \<or> sniffCap \<le> length b)) \<and>
    (\<forall>rd\<in>set (butlast used). snd rd = None)"
  using assms
proof (induction rds buf rule: sniff.induct)
  case (2 rd rds buf)
  show ?case
  proof (cases "sniff_next buf rd")
    case (SniffMore b)
    then have b: "b = buf @ fst rd" "snd rd = None" "\<not> (requestPathComplete b \<or> sniffCap \<le> length b)"
      by (auto simp: sniff_next_def Let_def split: if_splits option.splits)
    then obtain used where u: "rds = used @ rest" "used \<noteq> []" "buf' = b @ concat (map fst used)"
        "requestPathComplete buf' \<or> sniffCap \<le> length buf'"
        "\<forall>k<length used. let b = b @ concat (map fst (take k used)) in \<not> (requestPathComplete b \<or> sniffCap \<le> length b)"
        "\<forall>rd\<in>set (butlast used). snd rd = None"
      using 2(1) [OF SniffMore] 2(2) SniffMore by auto
    show ?thesis
    proof (intro exI [of _ "rd # used"] conjI allI impI)
      fix k assume "k < length (rd # used)"
      then show "let b = buf @ concat (map fst (take k (rd # used))) in \<not> (requestPathComplete b \<or> sniffCap \<le> length b)"
        using u(5) b(1) 2(3) by (cases k) (auto simp: Let_def)
    qed (use u b in auto)
  next
    case (SniffDone b)
    then show ?thesis using 2(2,3)
      by (intro exI [of _ "[rd]"]) (auto simp: sniff_next_def Let_def split: if_splits option.splits)
  next
    case (SniffFailed e)
    then show ?thesis using 2(2) by simp
  qed
qed simp

lemma not_complete_Nil: "\<not> (requestPathComplete [] \<or> sniffCap \<le> length ([] :: string))"
  by (simp add: requestPathComplete_def sniffCap_def)

lemma sniff_wire:
  assumes "sniff rds [] = Some (Inr (buf, rest))"
  shows "\<exists>used. rds = used @ rest \<and> buf = concat (map fst used) \<and> (\<forall>rd\<in>set (butlast used). snd rd = None) \<and> used \<noteq> []"
  using sniff_Inr [OF assms not_complete_Nil] by auto

text \<open>The buffer exceeds the cap by less than one read.\<close>

lemma sniff_bound:
  assumes "sniff rds [] = Some (Inr (buf, rest))" "\<forall>rd\<in>set rds. length (fst rd) \<le> 256"
  shows "length buf < sniffCap + 256"
proof -
  obtain used where u: "rds = used @ rest" "used \<noteq> []" "buf = concat (map fst used)"
      "\<forall>k<length used. let b = concat (map fst (take k used)) in \<not> (requestPathComplete b \<or> sniffCap \<le> length b)"
    using sniff_Inr [OF assms(1) not_complete_Nil] by auto
  have "length (concat (map fst (butlast used))) < sniffCap"
    using u(2) spec [OF u(4), of "length used - 1"] by (simp add: Let_def butlast_conv_take not_le)
  moreover have "length (fst (last used)) \<le> 256" using assms(2) u(1,2) by simp
  moreover have "concat (map fst used) = concat (map fst (butlast used)) @ fst (last used)"
    using u(2) by (induction used) auto
  ultimately show ?thesis by (simp add: u(3))
qed

lemma io_Copy_wire:
  assumes "0 < k"
  shows "io_Copy k (buf, rds) = buf @ wire rds"
  using assms
proof (induction k "(buf, rds)" arbitrary: buf rds rule: io_Copy.induct)
  case (1 k buf rds)
  show ?case
  proof (cases "buf = []")
    case False
    then have "io_Copy k (drop k buf, rds) = drop k buf @ wire rds"
      using 1 by auto
    then show ?thesis using False 1(2) by (simp add: io_Copy.simps [of k buf])
  next
    case True
    then show ?thesis using 1
      by (cases rds) (auto simp: io_Copy.simps [of k "[]"])
  qed
qed


definition sniffed :: "string \<Rightarrow> bool" where
  "sniffed buf \<longleftrightarrow> requestPathComplete buf \<or> sniffCap \<le> length buf"

lemma sniff_total:
  assumes "\<not> sniffed buf" "sniffed (buf @ concat (map fst rds))" "\<forall>rd\<in>set (butlast rds). snd rd = None"
  shows "\<exists>buf' rest. sniff rds buf = Some (Inr (buf', rest))"
  using assms
proof (induction rds arbitrary: buf)
  case (Cons rd rds)
  show ?case
  proof (cases "sniffed (buf @ fst rd)")
    case True
    then show ?thesis by (simp add: sniff_next_def sniffed_def)
  next
    case False
    then have "rds \<noteq> []" using Cons.prems(2) by auto
    then have "snd rd = None" "\<forall>rd\<in>set (butlast rds). snd rd = None" using Cons.prems(3) by auto
    then show ?thesis using False Cons.IH [of "buf @ fst rd"] Cons.prems(2) by (simp add: sniff_next_def sniffed_def)
  qed
qed simp

lemma wire_concat: "\<forall>rd\<in>set (butlast rds). snd rd = None \<Longrightarrow> wire rds = concat (map fst rds)"
  by (induction rds rule: wire.induct) (auto split: if_splits)

lemma long_prefix:
  assumes "m @ space # t @ space # r = buf @ tail" "length m + length t + 2 \<le> length buf"
  shows "\<exists>b. buf = m @ space # t @ space # b"
proof -
  have "take (length m + length t + 2) buf = m @ space # t @ [space]"
    using arg_cong [OF assms(1), of "take (length m + length t + 2)"] assms(2) by simp
  then show ?thesis by (metis append_take_drop_id append.assoc append_Cons append_Nil)
qed

text \<open>However it is split into reads, the loop reads the whole request line, and the bytes that are read
  from the connection afterwards are those the client sent.\<close>

lemma sniff_line:
  assumes "token m" "token t" "length m + length t + 2 \<le> sniffCap"
    and "concat (map fst rds) = m @ space # t @ space # r" "\<forall>rd\<in>set (butlast rds). snd rd = None"
  obtains b rest where "sniff rds [] = Some (Inr (m @ space # t @ space # b, rest))"
    "(m @ space # t @ space # b) @ concat (map fst rest) = m @ space # t @ space # r"
    "\<forall>k>0. io_Copy k (m @ space # t @ space # b, rest) = m @ space # t @ space # r"
proof -
  have "requestPathComplete (m @ space # t @ space # r)"
    using complete_iff_second_space [OF assms(1,2), of r "m @ space # t @ space # r" "[]"] by simp
  then obtain buf rest where s: "sniff rds [] = Some (Inr (buf, rest))"
    using sniff_total [of "[]" rds] not_complete_Nil assms(4,5) by (auto simp: sniffed_def)
  obtain used where u: "rds = used @ rest" "buf = concat (map fst used)" "requestPathComplete buf \<or> sniffCap \<le> length buf"
    using sniff_Inr [OF s not_complete_Nil] by auto
  have all: "m @ space # t @ space # r = buf @ concat (map fst rest)" using assms(4) u(1,2) by simp
  then have "length m + length t + 2 \<le> length buf"
    using u(3) complete_iff_second_space [OF assms(1,2) all] assms(3) by auto
  then obtain b where b: "buf = m @ space # t @ space # b" using long_prefix [OF all] by blast
  have "\<forall>rd\<in>set (butlast rest). snd rd = None"
    using assms(5) u(1) by (cases "rest = []") (auto simp: butlast_append)
  then have "\<forall>k>0. io_Copy k (buf, rest) = m @ space # t @ space # r"
    using all io_Copy_wire wire_concat [of rest] by simp
  with that s all b show thesis by simp
qed

section \<open>Goroutines, queue and gauge\<close>

text \<open>Where a connection is: being sniffed, waiting for a place in the queue, in the queue, delivered by
  \<open>Accept\<close>, being dialled, piped (with the directions that are finished), or closed.\<close>

datatype phase =
    Sniffing string
  | Waiting string
  | Queued string
  | Delivered string
  | Dialing string
  | Piping string bool bool
  | Closed

record proxy =
  px_phase :: "nat \<Rightarrow> phase option"
  px_queue :: "nat list"
  px_done :: bool
  px_listening :: bool
  px_activeConnections :: int

definition queue_cap :: nat where "queue_cap = 100"

definition Listen :: proxy where
  "Listen = \<lparr>px_phase = Map.empty, px_queue = [], px_done = False, px_listening = True, px_activeConnections = 0\<rparr>"

definition set_phase :: "nat \<Rightarrow> phase \<Rightarrow> proxy \<Rightarrow> proxy" where
  "set_phase c ph p = p\<lparr>px_phase := (px_phase p)(c \<mapsto> ph)\<rparr>"

text \<open>\<open>Close\<close>: cancel the context and close the listener.\<close>

definition px_Close :: "proxy \<Rightarrow> proxy" where
  "px_Close p = p\<lparr>px_done := True, px_listening := False\<rparr>"

text \<open>What \<open>handle\<close> does after a read.\<close>

definition after_read :: "string \<Rightarrow> read_result \<Rightarrow> phase" where
  "after_read buf rd =
     (case sniff_next buf rd of
        SniffMore buf \<Rightarrow> Sniffing buf
      | SniffFailed _ \<Rightarrow> Closed
      | SniffDone buf \<Rightarrow> if isMetadataRequest buf then Waiting buf else Dialing buf)"

inductive px_step :: "proxy \<Rightarrow> proxy \<Rightarrow> bool" where
  accept: "px_listening p \<Longrightarrow> px_phase p c = None \<Longrightarrow> px_step p (set_phase c (Sniffing []) p)"
| Close: "px_step p (px_Close p)"
| read: "px_phase p c = Some (Sniffing buf) \<Longrightarrow> px_step p (set_phase c (after_read buf rd) p)"
| enqueue: "px_phase p c = Some (Waiting buf) \<Longrightarrow> length (px_queue p) < queue_cap \<Longrightarrow>
    px_step p ((set_phase c (Queued buf) p)\<lparr>px_queue := px_queue p @ [c]\<rparr>)"
| drop: "px_phase p c = Some (Waiting buf) \<Longrightarrow> px_done p \<Longrightarrow> px_step p (set_phase c Closed p)"
| Accept: "px_queue p = c # q \<Longrightarrow> px_phase p c = Some (Queued buf) \<Longrightarrow>
    px_step p ((set_phase c (Delivered buf) p)\<lparr>px_queue := q\<rparr>)"
| dial_error: "px_phase p c = Some (Dialing buf) \<Longrightarrow> px_step p (set_phase c Closed p)"
| dial: "px_phase p c = Some (Dialing buf) \<Longrightarrow>
    px_step p ((set_phase c (Piping buf False False) p)\<lparr>px_activeConnections := px_activeConnections p + 1\<rparr>)"
| copied_up: "px_phase p c = Some (Piping buf False b) \<Longrightarrow> px_step p (set_phase c (Piping buf True b) p)"
| copied_down: "px_phase p c = Some (Piping buf b False) \<Longrightarrow> px_step p (set_phase c (Piping buf b True) p)"
| finish: "px_phase p c = Some (Piping buf True True) \<Longrightarrow>
    px_step p ((set_phase c Closed p)\<lparr>px_activeConnections := px_activeConnections p - 1\<rparr>)"

text \<open>\<open>Accept\<close>, which the metadata server calls: \<open>None\<close> while it blocks. If a connection is queued and the context
  is done, Go chooses either case of the select, here by \<open>queue_first\<close>.\<close>

definition deliver :: "phase \<Rightarrow> phase" where
  "deliver ph = (case ph of Queued buf \<Rightarrow> Delivered buf | _ \<Rightarrow> ph)"

definition px_Accept :: "bool \<Rightarrow> proxy \<Rightarrow> (goerr + nat) option \<times> proxy" where
  "px_Accept queue_first p =
     (case px_queue p of
        c # q \<Rightarrow>
          if px_done p \<and> \<not> queue_first then (Some (Inl netErrClosed), p)
          else (Some (Inr c), p\<lparr>px_phase := (px_phase p)(c := map_option deliver (px_phase p c)), px_queue := q\<rparr>)
      | [] \<Rightarrow> if px_done p then (Some (Inl netErrClosed), p) else (None, p))"

text \<open>The reads of a connection, one step each, are the sniffing loop.\<close>

lemma px_sniffs:
  assumes "sniff rds buf = Some (Inr (buf', rest))" "px_phase p c = Some (Sniffing buf)"
  shows "px_step\<^sup>*\<^sup>* p (set_phase c (if isMetadataRequest buf' then Waiting buf' else Dialing buf') p)"
  using assms
proof (induction rds arbitrary: buf p)
  case (Cons rd rds)
  have step: "px_step p (set_phase c (after_read buf rd) p)" by (rule px_step.read [OF Cons.prems(2)])
  show ?case
  proof (cases "sniff_next buf rd")
    case (SniffMore more)
    let ?q = "set_phase c (Sniffing more) p"
    have "px_step\<^sup>*\<^sup>* ?q (set_phase c (if isMetadataRequest buf' then Waiting buf' else Dialing buf') ?q)"
      using Cons.prems(1) SniffMore by (intro Cons.IH [of more]) (simp_all add: set_phase_def)
    moreover have "px_step p ?q" using step SniffMore by (simp add: after_read_def)
    ultimately show ?thesis using converse_rtranclp_into_rtranclp [of px_step p ?q] by (simp add: set_phase_def)
  next
    case (SniffDone all)
    then show ?thesis using Cons.prems(1) step by (auto simp: after_read_def)
  next
    case (SniffFailed err)
    then show ?thesis using Cons.prems(1) by simp
  qed
qed simp

text \<open>A new connection, from accepting it to its classification.\<close>

lemma px_classifies:
  assumes "px_listening p" "px_phase p c = None" "sniff rds [] = Some (Inr (buf, rest))"
  shows "px_step\<^sup>*\<^sup>* p (set_phase c (if isMetadataRequest buf then Waiting buf else Dialing buf) p)"
proof -
  let ?p = "set_phase c (Sniffing []) p"
  have "px_step\<^sup>*\<^sup>* ?p (set_phase c (if isMetadataRequest buf then Waiting buf else Dialing buf) ?p)"
    by (rule px_sniffs [OF assms(3)]) (simp add: set_phase_def)
  then have "px_step\<^sup>*\<^sup>* ?p (set_phase c (if isMetadataRequest buf then Waiting buf else Dialing buf) p)"
    by (simp add: set_phase_def)
  then show ?thesis by (rule converse_rtranclp_into_rtranclp [of px_step, OF px_step.accept [OF assms(1,2)]])
qed

definition phase_ok :: "phase \<Rightarrow> bool" where
  "phase_ok ph = (case ph of
      Waiting buf \<Rightarrow> isMetadataRequest buf \<and> sniffed buf
    | Queued buf \<Rightarrow> isMetadataRequest buf \<and> sniffed buf
    | Delivered buf \<Rightarrow> isMetadataRequest buf \<and> sniffed buf
    | Dialing buf \<Rightarrow> \<not> isMetadataRequest buf \<and> sniffed buf
    | Piping buf _ _ \<Rightarrow> \<not> isMetadataRequest buf \<and> sniffed buf
    | Sniffing buf \<Rightarrow> \<not> sniffed buf
    | Closed \<Rightarrow> True)"

definition is_queued :: "phase \<Rightarrow> bool" where
  "is_queued ph = (case ph of Queued _ \<Rightarrow> True | _ \<Rightarrow> False)"

definition is_piping :: "phase \<Rightarrow> bool" where
  "is_piping ph = (case ph of Piping _ _ _ \<Rightarrow> True | _ \<Rightarrow> False)"

lemma is_queued_iff: "is_queued ph \<longleftrightarrow> (\<exists>buf. ph = Queued buf)"
  by (cases ph) (auto simp: is_queued_def)

lemma is_piping_iff: "is_piping ph \<longleftrightarrow> (\<exists>buf b b'. ph = Piping buf b b')"
  by (cases ph) (auto simp: is_piping_def)

definition conns :: "(phase \<Rightarrow> bool) \<Rightarrow> proxy \<Rightarrow> nat set" where
  "conns P p = {c. \<exists>ph. px_phase p c = Some ph \<and> P ph}"

definition px_inv :: "proxy \<Rightarrow> bool" where
  "px_inv p \<longleftrightarrow>
     finite (dom (px_phase p)) \<and> (\<forall>c ph. px_phase p c = Some ph \<longrightarrow> phase_ok ph) \<and>
     distinct (px_queue p) \<and> set (px_queue p) = conns is_queued p \<and> length (px_queue p) \<le> queue_cap \<and>
     px_activeConnections p = int (card (conns is_piping p)) \<and> (px_done p \<longleftrightarrow> \<not> px_listening p)"

lemma conns_set_phase:
  "conns P (set_phase c ph p) = (if P ph then insert c (conns P p) else conns P p - {c})"
  by (auto simp: conns_def set_phase_def)

lemma conns_updates [simp]:
  "conns P (p\<lparr>px_queue := q\<rparr>) = conns P p" "conns P (p\<lparr>px_activeConnections := n\<rparr>) = conns P p"
  "conns P (p\<lparr>px_done := d, px_listening := l\<rparr>) = conns P p" "conns P (px_Close p) = conns P p"
  by (simp_all add: conns_def px_Close_def)

lemma set_phase_fields [simp]:
  "px_queue (set_phase c ph p) = px_queue p" "px_done (set_phase c ph p) = px_done p"
  "px_listening (set_phase c ph p) = px_listening p"
  "px_activeConnections (set_phase c ph p) = px_activeConnections p"
  "px_phase (set_phase c ph p) = (px_phase p)(c \<mapsto> ph)"
  by (simp_all add: set_phase_def)

lemma finite_conns: "px_inv p \<Longrightarrow> finite (conns P p)"
  unfolding px_inv_def by (rule finite_subset [of _ "dom (px_phase p)"]) (auto simp: conns_def)

lemma conns_iff: "px_phase p c = Some ph \<Longrightarrow> c \<in> conns P p \<longleftrightarrow> P ph"
  by (simp add: conns_def)

lemma conns_fresh: "px_phase p c = None \<Longrightarrow> c \<notin> conns P p"
  by (simp add: conns_def)

text \<open>A change of phase that concerns neither the queue nor the pipes.\<close>

lemma px_inv_move:
  assumes "px_inv p" "phase_ok ph" "\<not> is_queued ph" "\<not> is_piping ph" "c \<notin> conns is_queued p" "c \<notin> conns is_piping p"
  shows "px_inv (set_phase c ph p)"
  using assms by (auto simp: px_inv_def conns_set_phase)

lemma after_read_ok:
  "phase_ok (after_read buf rd)" "\<not> is_queued (after_read buf rd)" "\<not> is_piping (after_read buf rd)"
  by (auto simp: after_read_def phase_ok_def is_queued_def is_piping_def sniff_next_def sniffed_def Let_def
      split: option.split)

lemma px_inv_phase: "px_inv p \<Longrightarrow> px_phase p c = Some ph \<Longrightarrow> phase_ok ph"
  by (simp add: px_inv_def)

lemma queue_head:
  assumes "px_inv p" "px_queue p = c # q"
  obtains buf where "px_phase p c = Some (Queued buf)"
proof -
  have "c \<in> conns is_queued p" using assms by (auto simp: px_inv_def)
  then show thesis using that by (auto simp: conns_def is_queued_iff)
qed

lemma queued_in_queue: "px_inv p \<Longrightarrow> px_phase p c = Some (Queued buf) \<Longrightarrow> c \<in> set (px_queue p)"
  by (auto simp: px_inv_def conns_iff is_queued_def)

text \<open>The ways of a connection: into the queue and out of it, through the pipe and out of it.\<close>

lemma px_inv_enqueue:
  assumes "px_inv p" "px_phase p c = Some (Waiting buf)" "length (px_queue p) < queue_cap"
  shows "px_inv ((set_phase c (Queued buf) p)\<lparr>px_queue := px_queue p @ [c]\<rparr>)"
proof -
  have "phase_ok (Queued buf)" using px_inv_phase [OF assms(1,2)] by (simp add: phase_ok_def)
  moreover have "c \<notin> conns is_queued p" "c \<notin> conns is_piping p"
    using assms(2) by (auto simp: conns_iff is_queued_def is_piping_def)
  ultimately show ?thesis using assms(1,3) by (auto simp: px_inv_def conns_set_phase is_queued_def is_piping_def)
qed

lemma px_inv_deliver:
  assumes "px_inv p" "px_queue p = c # q" "px_phase p c = Some (Queued buf)"
  shows "px_inv ((set_phase c (Delivered buf) p)\<lparr>px_queue := q\<rparr>)"
proof -
  have "phase_ok (Delivered buf)" using px_inv_phase [OF assms(1,3)] by (simp add: phase_ok_def)
  moreover have "c \<notin> conns is_piping p" using assms(3) by (auto simp: conns_iff is_piping_def)
  ultimately show ?thesis using assms(1,2) by (auto simp: px_inv_def conns_set_phase is_queued_def is_piping_def)
qed

lemma px_inv_dial:
  assumes "px_inv p" "px_phase p c = Some (Dialing buf)"
  shows "px_inv ((set_phase c (Piping buf False False) p)\<lparr>px_activeConnections := px_activeConnections p + 1\<rparr>)"
proof -
  have "phase_ok (Piping buf False False)" using px_inv_phase [OF assms] by (simp add: phase_ok_def)
  moreover have "c \<notin> conns is_queued p" "c \<notin> conns is_piping p"
    using assms(2) by (auto simp: conns_iff is_queued_def is_piping_def)
  ultimately show ?thesis using assms(1) finite_conns [OF assms(1)]
    by (auto simp: px_inv_def conns_set_phase is_queued_def is_piping_def)
qed

lemma px_inv_copied:
  assumes "px_inv p" "px_phase p c = Some (Piping buf b b')"
  shows "px_inv (set_phase c (Piping buf d d') p)"
proof -
  have "phase_ok (Piping buf d d')" using px_inv_phase [OF assms] by (simp add: phase_ok_def)
  moreover have "c \<notin> conns is_queued p" "c \<in> conns is_piping p"
    using assms(2) by (auto simp: conns_iff is_queued_def is_piping_def)
  ultimately show ?thesis using assms(1) by (auto simp: px_inv_def conns_set_phase is_queued_def is_piping_def insert_absorb)
qed

lemma px_inv_finish:
  assumes "px_inv p" "px_phase p c = Some (Piping buf b b')"
  shows "px_inv ((set_phase c Closed p)\<lparr>px_activeConnections := px_activeConnections p - 1\<rparr>)"
proof -
  have c: "c \<notin> conns is_queued p" "c \<in> conns is_piping p"
    using assms(2) by (auto simp: conns_iff is_queued_def is_piping_def)
  then have "0 < card (conns is_piping p)" using finite_conns [OF assms(1)] by (auto simp: card_gt_0_iff)
  then show ?thesis using assms(1) c finite_conns [OF assms(1)]
    by (auto simp: px_inv_def conns_set_phase is_queued_def is_piping_def phase_ok_def of_nat_diff)
qed

lemma px_inv_step: "px_step p p' \<Longrightarrow> px_inv p \<Longrightarrow> px_inv p'"
proof (induction rule: px_step.induct)
  case (accept p c)
  then show ?case using conns_fresh [OF accept(2)] not_complete_Nil
    by (intro px_inv_move) (auto simp: phase_ok_def is_queued_def is_piping_def sniffed_def)
next
  case (Close p)
  then show ?case by (auto simp: px_inv_def) (auto simp: px_Close_def)
next
  case (read p c buf rd)
  then show ?case by (intro px_inv_move after_read_ok) (auto simp: conns_iff is_queued_def is_piping_def)
next
  case (drop p c buf)
  then show ?case by (intro px_inv_move) (auto simp: conns_iff is_queued_def is_piping_def phase_ok_def)
next
  case (dial_error p c buf)
  then show ?case by (intro px_inv_move) (auto simp: conns_iff is_queued_def is_piping_def phase_ok_def)
qed (auto intro: px_inv_enqueue px_inv_deliver px_inv_dial px_inv_copied px_inv_finish)

lemma px_inv_Listen: "px_inv Listen"
  by (simp add: px_inv_def Listen_def conns_def)

lemma px_reachable_inv: "px_step\<^sup>*\<^sup>* Listen p \<Longrightarrow> px_inv p"
  by (induction rule: rtranclp_induct) (auto intro: px_inv_Listen px_inv_step)


text \<open>A connection that \<open>Accept\<close> returns is the head of the queue and is delivered by a step of the proxy; \<open>Accept\<close>
  reports that the listener is closed only after \<open>Close\<close>, and then never blocks.\<close>

lemma Accept_steps:
  assumes "px_inv p" "px_Accept queue_first p = (Some (Inr c), p')"
  shows "px_step p p' \<and> (\<exists>buf. px_phase p' c = Some (Delivered buf) \<and> isMetadataRequest buf)"
proof -
  obtain q where q: "px_queue p = c # q" "p' = p\<lparr>px_phase := (px_phase p)(c := map_option deliver (px_phase p c)), px_queue := q\<rparr>"
    using assms(2) by (auto simp: px_Accept_def split: list.splits if_splits)
  obtain buf where buf: "px_phase p c = Some (Queued buf)" by (rule queue_head [OF assms(1) q(1)])
  then have "phase_ok (Queued buf)" using assms(1) unfolding px_inv_def by blast
  then have "isMetadataRequest buf" by (simp add: phase_ok_def)
  moreover have "p' = (set_phase c (Delivered buf) p)\<lparr>px_queue := q\<rparr>" using q(2) buf by (simp add: set_phase_def deliver_def)
  ultimately show ?thesis using px_step.Accept [OF q(1) buf] by simp
qed

lemma Accept_closed:
  "fst (px_Accept queue_first p) = None \<longleftrightarrow> px_queue p = [] \<and> \<not> px_done p"
  "fst (px_Accept queue_first p) = Some (Inl err) \<Longrightarrow> px_done p \<and> err = netErrClosed"
  by (auto simp: px_Accept_def split: list.splits if_splits)

section \<open>Properties\<close>

text \<open>However TCP splits it, a request line \<open>method target\<close> followed by a space is sniffed completely when
  it fits the cap, and the connection goes to the metadata server exactly when the method is \<open>GET\<close> and the
  target without its query is \<open>/\<close>, \<open>/computeMetadata\<close> or below it. Whoever reads the connection next, the
  metadata server or the copy to the upstream, gets every byte the client sent, in order.\<close>

lemma sniff_decides:
  assumes "token m" "token t" "length m + length t + 2 \<le> sniffCap"
    and "concat (map fst rds) = m @ space # t @ space # r" "\<forall>rd\<in>set (butlast rds). snd rd = None"
  shows "\<exists>buf rest. sniff rds [] = Some (Inr (buf, rest)) \<and>
    (isMetadataRequest buf \<longleftrightarrow> m = ''GET'' \<and> metadata_path (cut_query t)) \<and>
    (\<forall>k>0. io_Copy k (buf, rest) = m @ space # t @ space # r) \<and>
    buf @ concat (map fst rest) = m @ space # t @ space # r"
proof -
  obtain b rest where s: "sniff rds [] = Some (Inr (m @ space # t @ space # b, rest))"
      "(m @ space # t @ space # b) @ concat (map fst rest) = m @ space # t @ space # r"
      "\<forall>k>0. io_Copy k (m @ space # t @ space # b, rest) = m @ space # t @ space # r"
    by (rule sniff_line [OF assms])
  show ?thesis
    using s isMetadataRequest_line [OF assms(1,2), of b] by (intro exI [of _ "m @ space # t @ space # b"] exI [of _ rest] conjI)
qed

lemma sniff_decides_example:
  "\<exists>buf rest. sniff [(''GE'', None), (''T /computeMeta'', None), (''data?x=1 HTTP/1.1'', None)] [] = Some (Inr (buf, rest)) \<and>
    isMetadataRequest buf"
proof -
  let ?rds = "[(''GE'', None), (''T /computeMeta'', None), (''data?x=1 HTTP/1.1'', None)] :: read_result list"
  have c: "concat (map fst ?rds) = ''GET'' @ space # ''/computeMetadata?x=1'' @ space # ''HTTP/1.1''"
    and e: "\<forall>rd\<in>set (butlast ?rds). snd rd = None" by simp_all
  have t: "token ''GET''" "token ''/computeMetadata?x=1''"
      "length ''GET'' + length ''/computeMetadata?x=1'' + 2 \<le> sniffCap"
    by (simp_all add: token_def sniffCap_def)
  have p: "metadata_path (cut_query ''/computeMetadata?x=1'')"
    by (simp add: cut_query_def metadata_path_def)
  show ?thesis using sniff_decides [OF t c e] p by blast
qed

text \<open>C17. The proxy never mixes up its connections: in every reachable state a connection that was delivered
  to the metadata server or waits for it has a metadata request line, a piped one has not, the queue holds
  each queued connection once and at most 100 of them, and the gauge of active connections is the number
  of connections that are piped.\<close>

theorem proxy_safe:
  assumes "px_step\<^sup>*\<^sup>* Listen p"
  shows "(\<forall>c buf. px_phase p c \<in> {Some (Waiting buf), Some (Queued buf), Some (Delivered buf)} \<longrightarrow> isMetadataRequest buf) \<and>
    (\<forall>c buf b b'. px_phase p c = Some (Piping buf b b') \<longrightarrow> \<not> isMetadataRequest buf) \<and>
    distinct (px_queue p) \<and> length (px_queue p) \<le> 100 \<and>
    set (px_queue p) = {c. \<exists>buf. px_phase p c = Some (Queued buf)} \<and>
    px_activeConnections p = int (card {c. \<exists>buf b b'. px_phase p c = Some (Piping buf b b')})"
proof -
  have inv: "px_inv p" by (rule px_reachable_inv [OF assms])
  have q: "conns is_queued p = {c. \<exists>buf. px_phase p c = Some (Queued buf)}"
      "conns is_piping p = {c. \<exists>buf b b'. px_phase p c = Some (Piping buf b b')}"
    by (auto simp: conns_def is_queued_iff is_piping_iff)
  have ok: "phase_ok ph" if "px_phase p c = Some ph" for c ph using inv that by (auto simp: px_inv_def)
  have "isMetadataRequest buf"
    if "px_phase p c \<in> {Some (Waiting buf), Some (Queued buf), Some (Delivered buf)}" for c buf
    using that by (auto simp: phase_ok_def dest: ok)
  moreover have "\<not> isMetadataRequest buf" if "px_phase p c = Some (Piping buf b b')" for c buf b b'
    using ok [OF that] by (simp add: phase_ok_def)
  ultimately show ?thesis using inv q unfolding px_inv_def queue_cap_def by simp
qed

definition example_proxy :: proxy where
  "example_proxy = (set_phase 7 (Piping ''POST / HTTP/1.1'' False False) Listen)\<lparr>px_activeConnections := 1\<rparr>"

theorem proxy_safe_witness:
  "card {c. \<exists>buf b b'. px_phase example_proxy c = Some (Piping buf b b')} = 1"
proof -
  let ?a = "set_phase 7 (Sniffing []) Listen"
  let ?b = "set_phase 7 (Dialing ''POST / HTTP/1.1'') ?a"
  have "px_step Listen ?a" by (rule px_step.accept) (simp_all add: Listen_def)
  moreover have "after_read [] (''POST / HTTP/1.1'', None) = Dialing ''POST / HTTP/1.1''"
    by (simp add: after_read_def sniff_next_def requestPathComplete_def isMetadataRequest_def HasPrefix_def Let_def)
  then have "px_step ?a ?b" using px_step.read [of ?a 7 "[]" "(''POST / HTTP/1.1'', None)"] by simp
  moreover have "px_step ?b example_proxy"
    using px_step.dial [of ?b 7 "''POST / HTTP/1.1''"] by (simp add: example_proxy_def set_phase_def Listen_def)
  ultimately have "px_step\<^sup>*\<^sup>* Listen example_proxy" by (meson rtranclp.rtrancl_refl rtranclp.rtrancl_into_rtrancl)
  from proxy_safe [OF this] show ?thesis by (simp add: example_proxy_def)
qed

text \<open>A client that never completes its request line makes the proxy buffer less than 8448 bytes: the
  loop stops at the first read that reaches the cap of 8192.\<close>

lemma sniff_bounded:
  assumes "sniff rds [] = Some (Inr (buf, rest))" "\<forall>rd\<in>set rds. length (fst rd) \<le> 256"
  shows "length buf < 8448"
  using sniff_bound [OF assms] by (simp add: sniffCap_def)

lemma sniff_bounded_example: "length ''GET / HTTP/1.1'' < 8448"
  by (rule sniff_bounded [of "[(''GET / HTTP/1.1'', None)]" _ "[]"])
    (simp_all add: sniff_next_def requestPathComplete_def)

text \<open>A request line without a version is classified by what the same read happens to contain.\<close>

lemma split_dependent:
  "(\<exists>buf. sniff [(''GET /computeMetadata/'' @ [newline], None), (''Host: x'', None)] [] =
      Some (Inr (buf, [(''Host: x'', None)])) \<and> \<not> isMetadataRequest buf) \<and>
   (\<exists>buf. sniff [(''GET /computeMetadata/'' @ [newline] @ ''Host: x'', None)] [] = Some (Inr (buf, [])) \<and>
      isMetadataRequest buf)"
  by (simp add: sniff_next_def requestPathComplete_def isMetadataRequest_def HasPrefix_def cut_query_def
      metadata_path_def)

end
