(* ===== verification/Proxytest.thy ===== *)
theory Proxytest
  imports Proxy Routing Http_Response
begin

text \<open>
  \<open>internal/proxytest/upstream.go\<close>: the marker server that \<open>--test-proxy-upstream\<close> starts, and the chain it
  exists to test: a request for its path is redirected to the emulator, classified as none of the
  metadata server's, and dialled by a connection that is not redirected again. What netlink and the
  listener answer is a parameter.
\<close>

section \<open>The marker server\<close>

definition HeaderName :: string where "HeaderName = ''X-Proxy-Test-Marker''"
definition Marker :: string where "Marker = ''gke-metadata-server-proxy-passthrough-ok''"
definition proxytest_Path :: string where "proxytest_Path = ''/_proxy_test''"
definition listenAddr :: string where "listenAddr = ''169.254.169.254:80''"
definition addrCIDR :: string where "addrCIDR = ''169.254.169.254/32''"

definition EEXIST :: goerr where "EEXIST = Sentinel ''file exists''"

text \<open>\<open>'a\<close> is \<open>netlink.Addr\<close>, \<open>'k\<close> the state of the kernel; \<open>ue_scope\<close> sets the scope of an address to that
  of the host, \<open>ue_Listen\<close> is the result of \<open>net.Listen\<close>.\<close>

record ('a, 'k) upstream_env =
  ue_LinkByName :: "goerr option"
  ue_ParseAddr :: "string \<Rightarrow> 'a res"
  ue_scope :: "'a \<Rightarrow> 'a"
  ue_AddrAdd :: "'a \<Rightarrow> 'k \<Rightarrow> 'k res"
  ue_Listen :: "string \<Rightarrow> 'k \<Rightarrow> 'k res"

definition start_listening :: "('a, 'k) upstream_env \<Rightarrow> 'k \<Rightarrow> goerr option \<times> 'k" where
  "start_listening e k =
     (case ue_Listen e listenAddr k of
        Inl err \<Rightarrow> (Some (errorf (''listening on '' @ listenAddr @ '': '') err), k)
      | Inr k' \<Rightarrow> (None, k'))"

definition upstream_Start :: "('a, 'k) upstream_env \<Rightarrow> 'k \<Rightarrow> goerr option \<times> 'k" where
  "upstream_Start e k =
     (case ue_LinkByName e of
        Some err \<Rightarrow> (Some (errorf ''looking up lo: '' err), k)
      | None \<Rightarrow>
          (case ue_ParseAddr e addrCIDR of
             Inl err \<Rightarrow> (Some (errorf ''parsing addr: '' err), k)
           | Inr a \<Rightarrow>
               (case ue_AddrAdd e (ue_scope e a) k of
                  Inl err \<Rightarrow>
                    if errors_Is err EEXIST then start_listening e k
                    else (Some (errorf (''adding '' @ addrCIDR @ '' to lo: '') err), k)
                | Inr k' \<Rightarrow> start_listening e k')))"

text \<open>The handler of every path.\<close>

definition marker_handler :: "'s http \<Rightarrow> 's http go" where
  "marker_handler st = WriteHeader 204 (st\<lparr>w_header := header_set HeaderName Marker (w_header st)\<rparr>)"

lemma marker_handler_answers:
  "\<exists>st'. marker_handler (fresh s) = Ret st' \<and> map_option fst (w_sent st') = Some 204 \<and>
     map_option (\<lambda>(_, h). header_get h HeaderName) (w_sent st') = Some Marker"
  by (simp add: marker_handler_def fresh_def WriteHeader_def header_set_def header_get_def)

text \<open>Starting it again is no error: the address may be left from an earlier run.\<close>

lemma upstream_restarts:
  assumes "ue_LinkByName e = None" "ue_ParseAddr e addrCIDR = Inr a" "ue_AddrAdd e (ue_scope e a) k = Inl EEXIST"
    and "ue_Listen e listenAddr k = Inr k'"
  shows "upstream_Start e k = (None, k')"
  using assms by (simp add: upstream_Start_def start_listening_def)

section \<open>The chain\<close>

lemma proxytest_line: "token ''GET''" "token proxytest_Path" "\<not> metadata_path (cut_query proxytest_Path)"
    "length ''GET'' + length proxytest_Path + 2 \<le> sniffCap"
  by (simp_all add: token_def proxytest_Path_def cut_query_def metadata_path_def HasPrefix_def sniffCap_def)

text \<open>The chain that the marker server tests, for every state of the proxy and however TCP splits the
  request: a pod's connection to 169.254.169.254:80 reaches the emulator; a request for the marker's path
  makes the proxy dial the real server, with every byte of the request still to be copied; and the
  emulator's own connection to the same address goes through unchanged.\<close>

lemma passthrough:
  assumes "redirect_LoadAndAttach env (quad_addr ip) port st = Ret (Inr c, st')" "selfCgroupID env = Inr self" "g \<noteq> self"
    and "px_listening p" "px_phase p n = None"
    and "concat (map fst rds) = ''GET'' @ space # proxytest_Path @ space # r" "\<forall>rd\<in>set (butlast rds). snd rd = None"
  shows "redirect_connect4 (rs_config st') g (sock_addr_of AF_INET IPPROTO_TCP (169, 254, 169, 254) 80) =
      sock_addr_of AF_INET IPPROTO_TCP ip (word_of_int port) \<and>
    redirect_connect4 (rs_config st') self (sock_addr_of AF_INET IPPROTO_TCP (169, 254, 169, 254) 80) =
      sock_addr_of AF_INET IPPROTO_TCP (169, 254, 169, 254) 80 \<and>
    (\<exists>buf rest. sniff rds [] = Some (Inr (buf, rest)) \<and> px_step\<^sup>*\<^sup>* p (set_phase n (Dialing buf) p) \<and>
      (\<forall>k>0. io_Copy k (buf, rest) = ''GET'' @ space # proxytest_Path @ space # r))"
proof -
  obtain b rest where s: "sniff rds [] = Some (Inr (''GET'' @ space # proxytest_Path @ space # b, rest))"
      "\<forall>k>0. io_Copy k (''GET'' @ space # proxytest_Path @ space # b, rest) = ''GET'' @ space # proxytest_Path @ space # r"
    by (rule sniff_line [OF proxytest_line(1,2,4) assms(6,7)])
  let ?buf = "''GET'' @ space # proxytest_Path @ space # b"
  have forward: "\<not> isMetadataRequest ?buf"
    using isMetadataRequest_line [OF proxytest_line(1,2)] proxytest_line(3) by blast
  have "px_step\<^sup>*\<^sup>* p (set_phase n (Dialing ?buf) p)"
    using px_classifies [OF assms(4,5) s(1)] unfolding if_not_P [OF forward] .
  then show ?thesis
    using s redirect_loaded(1) [OF assms(1)] assms(2,3) by auto
qed

lemma passthrough_example:
  "\<exists>st' buf rest. redirect_LoadAndAttach example_redirect_env (quad_addr (10, 0, 0, 2)) 16321 redirect_init = Ret (Inr CloseRedirect, st') \<and>
     redirect_connect4 (rs_config st') 9 (sock_addr_of AF_INET IPPROTO_TCP (169, 254, 169, 254) 80) =
       sock_addr_of AF_INET IPPROTO_TCP (10, 0, 0, 2) 16321 \<and>
     px_step\<^sup>*\<^sup>* Listen (set_phase 0 (Dialing buf) Listen) \<and>
     io_Copy 4096 (buf, rest) = ''GET /_proxy_test HTTP/1.1''"
proof -
  let ?rds = "[(''GET /_proxy'', None), (''_test HTTP/1.1'', None)] :: read_result list"
  obtain st' where st': "redirect_LoadAndAttach example_redirect_env (quad_addr (10, 0, 0, 2)) 16321 redirect_init =
      Ret (Inr CloseRedirect, st')"
    using example_redirect_load by blast
  have rds: "concat (map fst ?rds) = ''GET'' @ space # proxytest_Path @ space # ''HTTP/1.1''"
      "\<forall>rd\<in>set (butlast ?rds). snd rd = None"
    by (simp_all add: proxytest_Path_def)
  have px: "px_listening Listen" "px_phase Listen 0 = None" by (simp_all add: Listen_def)
  have line: "''GET'' @ space # proxytest_Path @ space # ''HTTP/1.1'' = ''GET /_proxy_test HTTP/1.1''"
    by (simp add: proxytest_Path_def)
  have "(9 :: 64 word) \<noteq> 7" by simp
  note chain = passthrough [OF st' example_redirect_cgroup this px rds]
  obtain buf rest where b: "px_step\<^sup>*\<^sup>* Listen (set_phase 0 (Dialing buf) Listen)"
      "\<forall>k>0. io_Copy k (buf, rest) = ''GET'' @ space # proxytest_Path @ space # ''HTTP/1.1''"
    using chain by (elim conjE exE)
  have "redirect_connect4 (rs_config st') 9 (sock_addr_of AF_INET IPPROTO_TCP (169, 254, 169, 254) 80) =
      sock_addr_of AF_INET IPPROTO_TCP (10, 0, 0, 2) 16321"
    using conjunct1 [OF chain] by simp
  moreover have "io_Copy 4096 (buf, rest) = ''GET /_proxy_test HTTP/1.1''"
    unfolding line [symmetric] by (rule b(2) [rule_format]) simp
  ultimately show ?thesis using st' b(1) by blast
qed

end
