(* ===== verification/Program.thy ===== *)
theory Program
  imports Server_Startup Logging Informer Proxytest
begin

text \<open>
  \<open>main.go\<close>. The start-up is a function from the flags, the
  environment and what the outside answers to the trace of its effects: which providers are chosen and
  how they are wired, the order in which routes, attestation, server and taints are handled, and the
  stack of deferred closers. \<open>l.Fatal\<close> exits the process at once, without running deferred calls.
\<close>

section \<open>Flags\<close>

record flags =
  f_log_level :: string
  f_server_port :: int
  f_health_port :: int
  f_project_id :: string
  f_workload_identity_provider :: string
  f_watch_pods :: bool
  f_watch_pods_resync_period :: duration
  f_watch_pods_disable_fallback :: bool
  f_watch_node :: bool
  f_watch_node_resync_period :: duration
  f_watch_node_disable_fallback :: bool
  f_watch_service_accounts :: bool
  f_watch_service_accounts_resync_period :: duration
  f_watch_service_accounts_disable_fallback :: bool
  f_cache_tokens :: bool
  f_cache_tokens_concurrency :: int
  f_cache_max_token_duration :: duration
  f_pod_lookup_max_attempts :: int
  f_pod_lookup_retry_initial_delay :: duration
  f_pod_lookup_retry_max_delay :: duration
  f_test_proxy_upstream :: bool

definition default_flags :: flags where
  "default_flags =
     \<lparr>f_log_level = ''info'', f_server_port = 16321, f_health_port = 16322, f_project_id = [],
      f_workload_identity_provider = [], f_watch_pods = False, f_watch_pods_resync_period = 10 * Minute,
      f_watch_pods_disable_fallback = False, f_watch_node = False, f_watch_node_resync_period = Hour,
      f_watch_node_disable_fallback = False, f_watch_service_accounts = False,
      f_watch_service_accounts_resync_period = Hour, f_watch_service_accounts_disable_fallback = False,
      f_cache_tokens = False, f_cache_tokens_concurrency = 10, f_cache_max_token_duration = Hour,
      f_pod_lookup_max_attempts = 3, f_pod_lookup_retry_initial_delay = Second,
      f_pod_lookup_retry_max_delay = 30 * Second, f_test_proxy_upstream = False\<rparr>"

text \<open>What \<open>flags.Parse\<close> gives: \<open>pflag.ErrHelp\<close>, another error, or the flags.\<close>

datatype parsed = ParseHelp | ParseFailed goerr | Parsed flags

section \<open>The outside\<close>

text \<open>\<open>me_listen\<close> is the error of the server's listener, \<open>me_signal\<close> whether a signal ever arrives. With
  \<open>me_crash = Some (n, msg)\<close> a goroutine of the server calls \<open>l.Fatal\<close> with the message \<open>msg\<close> when \<open>main\<close> has got
  \<open>n\<close> effects further than starting the goroutines: this may interrupt \<open>main\<close> anywhere from there.\<close>

record ('a, 'k) main_env =
  me_args :: parsed
  me_ParseLevel :: "string \<Rightarrow> goerr option"
  me_NODE_NAME :: string
  me_POD_IP :: string
  me_InClusterConfig :: "goerr option"
  me_NewForConfig :: "goerr option"
  me_node :: "kube_node res"
  me_netlink :: "('a, 'k) netlink"
  me_kernel :: 'k
  me_redirect :: redirect_env
  me_attest_load :: "goerr option"
  me_attest_attach :: "goerr option"
  me_upstream :: "('a, 'k) upstream_env"
  me_listen :: "goerr option"
  me_signal :: bool
  me_crash :: "(nat \<times> string) option"

section \<open>Providers\<close>

text \<open>Where a provider gets its objects: the API server, or an informer with its resync period, with or
  without the API server as its fallback. \<open>wi_cache\<close> holds the concurrency and the maximal duration of
  the token cache and the providers whose listener it is. The node provider is missing on purpose:
  \<open>main\<close> builds it, but reads the node through \<open>nodeGetter\<close> and passes it to nobody.\<close>

datatype source = Direct | Watched bool duration

record cache_options =
  co_Concurrency :: int
  co_MaxTokenDuration :: duration
  co_listens_pods :: bool
  co_listens_serviceAccounts :: bool

record wiring =
  wi_pods :: source
  wi_serviceAccounts :: source
  wi_cache :: "cache_options option"

definition select_source :: "bool \<Rightarrow> bool \<Rightarrow> duration \<Rightarrow> source" where
  "select_source watch disable_fallback resync = (if watch then Watched (\<not> disable_fallback) resync else Direct)"

definition wire :: "flags \<Rightarrow> wiring" where
  "wire f =
     \<lparr>wi_pods = select_source (f_watch_pods f) (f_watch_pods_disable_fallback f) (f_watch_pods_resync_period f),
      wi_serviceAccounts = select_source (f_watch_service_accounts f) (f_watch_service_accounts_disable_fallback f)
        (f_watch_service_accounts_resync_period f),
      wi_cache =
        (if f_cache_tokens f
         then Some \<lparr>co_Concurrency = f_cache_tokens_concurrency f, co_MaxTokenDuration = f_cache_max_token_duration f,
           co_listens_pods = f_watch_pods f, co_listens_serviceAccounts = f_watch_service_accounts f\<rparr>
         else None)\<rparr>"

section \<open>Effects\<close>

datatype lookuper = SockopsMap | SocketTable

record server_start =
  ss_NodeName :: string
  ss_PodIP :: string
  ss_Addr :: string
  ss_HealthPort :: int
  ss_ProjectID :: string
  ss_NumericProjectID :: string
  ss_WorkloadIdentityPool :: string
  ss_RoutingMode :: string
  ss_Attestation :: "lookuper option"
  ss_MaxAttempts :: int
  ss_RetryInitialDelay :: duration
  ss_RetryMaxDelay :: duration
  ss_wiring :: wiring

datatype event =
    Registered collector
  | Created string
  | WatchStarted string
  | RouteAttached string closer
  | AttestAttached
  | ProxyTestStarted
  | ServerStarted server_start
  | TaintsHandled
  | ServerShutdown
  | Closed string
  | RouteClosed closer

datatype exit = Returned | Exited string | Waiting

text \<open>The state while \<open>main\<close> runs: the trace, and the deferred calls with the latest first.\<close>

record run =
  tr :: "event list"
  defers :: "event list"

definition emit :: "event \<Rightarrow> run \<Rightarrow> run" where
  "emit e r = r\<lparr>tr := tr r @ [e]\<rparr>"

definition deferred :: "event \<Rightarrow> run \<Rightarrow> run" where
  "deferred e r = r\<lparr>defers := e # defers r\<rparr>"

text \<open>Registering collectors in \<open>metricsRegistry\<close>.\<close>

definition registers :: "collector list \<Rightarrow> run \<Rightarrow> run" where
  "registers cs r = r\<lparr>tr := tr r @ map Registered cs\<rparr>"

abbreviation fatal :: "string \<Rightarrow> run \<Rightarrow> event list \<times> exit" where
  "fatal msg r \<equiv> (tr r, Exited msg)"

text \<open>Returning from \<open>main\<close> runs the deferred calls.\<close>

definition return :: "run \<Rightarrow> event list \<times> exit" where
  "return r = (tr r @ defers r, Returned)"

section \<open>main\<close>

definition create_if :: "bool \<Rightarrow> string \<Rightarrow> collector list \<Rightarrow> run \<Rightarrow> run" where
  "create_if b what cs r = (if b then deferred (Closed what) (emit (Created what) (registers cs r)) else r)"

definition start_if :: "bool \<Rightarrow> string \<Rightarrow> run \<Rightarrow> run" where
  "start_if b what r = (if b then emit (WatchStarted what) r else r)"

text \<open>Creating the providers registers their metrics and defers their \<open>Close\<close>; the watches start afterwards.\<close>

definition create_providers :: "flags \<Rightarrow> run \<Rightarrow> run" where
  "create_providers f r =
     create_if (f_cache_tokens f) ''tokens'' tokens_collectors
       (create_if (f_watch_service_accounts f) ''service accounts'' serviceAccounts_collectors
         (create_if (f_watch_node f) ''node'' []
           (create_if (f_watch_pods f) ''pods'' pods_collectors (registers registry_collectors r))))"

definition start_watches :: "flags \<Rightarrow> run \<Rightarrow> run" where
  "start_watches f r =
     start_if (f_watch_service_accounts f) ''service accounts''
       (start_if (f_watch_node f) ''node'' (start_if (f_watch_pods f) ''pods'' r))"

definition server_address :: "string \<Rightarrow> int \<Rightarrow> string" where
  "server_address routingMode serverPort =
     (if routingMode = RoutingModeLoopback then GKEMetadataServerAddr else '':'' @ itoa serverPort)"

text \<open>The outcome \<open>out\<close> of \<open>main\<close> from \<open>r\<close> on, cut off where a goroutine exits the process.\<close>

definition interrupted :: "(nat \<times> string) option \<Rightarrow> run \<Rightarrow> event list \<times> exit \<Rightarrow> event list \<times> exit" where
  "interrupted crash r out =
     (case crash of
        None \<Rightarrow> out
      | Some (n, msg) \<Rightarrow>
          if length (tr r) + n < length (fst out) \<or> snd out = Waiting
          then (take (length (tr r) + n) (fst out), Exited msg)
          else out)"

text \<open>From \<open>server.New\<close> to the end: its metrics, the goroutines, then \<open>taints.Remove\<close>, which returns in any
  case, and the wait for a signal.\<close>

definition serve_until_signal :: "('a, 'k) main_env \<Rightarrow> server_start \<Rightarrow> run \<Rightarrow> event list \<times> exit" where
  "serve_until_signal e ss r =
     (let r = registers server_collectors r in
      interrupted (me_crash e) r
        (case me_listen e of
           Some _ \<Rightarrow> fatal ''error listening on metadata server address'' r
         | None \<Rightarrow>
             (let r = emit TaintsHandled (registers taints_collectors (emit (ServerStarted ss) r)) in
              if \<not> me_signal e then (tr r, Waiting)
              else return (emit ServerShutdown r))))"

definition server_options :: "('a, 'k) main_env \<Rightarrow> flags \<Rightarrow> string \<Rightarrow> string \<Rightarrow> string \<Rightarrow> lookuper option \<Rightarrow> server_start" where
  "server_options e f numericProjectID pool routingMode lookuper =
     \<lparr>ss_NodeName = me_NODE_NAME e, ss_PodIP = me_POD_IP e,
      ss_Addr = server_address routingMode (f_server_port f), ss_HealthPort = f_health_port f,
      ss_ProjectID = f_project_id f, ss_NumericProjectID = numericProjectID, ss_WorkloadIdentityPool = pool,
      ss_RoutingMode = routingMode, ss_Attestation = lookuper,
      ss_MaxAttempts = (if f_pod_lookup_max_attempts f < 0 then 0 else f_pod_lookup_max_attempts f),
      ss_RetryInitialDelay = f_pod_lookup_retry_initial_delay f, ss_RetryMaxDelay = f_pod_lookup_retry_max_delay f,
      ss_wiring = wire f\<rparr>"

definition test_upstream :: "('a, 'k) main_env \<Rightarrow> flags \<Rightarrow> server_start \<Rightarrow> run \<Rightarrow> event list \<times> exit" where
  "test_upstream e f ss r =
     (if f_test_proxy_upstream f \<and> ss_RoutingMode ss = RoutingModeBPF then
        (case fst (upstream_Start (me_upstream e) (me_kernel e)) of
           Some _ \<Rightarrow> fatal ''error starting test proxy upstream'' r
         | None \<Rightarrow> serve_until_signal e ss (emit ProxyTestStarted r))
      else serve_until_signal e ss r)"

definition start_server :: "('a, 'k) main_env \<Rightarrow> flags \<Rightarrow> string \<Rightarrow> string \<Rightarrow> string \<Rightarrow> run \<Rightarrow> event list \<times> exit" where
  "start_server e f numericProjectID pool routingMode r =
     (let ss = server_options e f numericProjectID pool routingMode in
      if routingMode = RoutingModeBPF then
        (case fst (attest_LoadAndAttach (me_attest_load e) (me_attest_attach e) \<lparr>ao_loaded = False, ao_attached = False\<rparr>) of
           Inl _ \<Rightarrow> fatal ''error loading attestation eBPF program'' r
         | Inr _ \<Rightarrow> test_upstream e f (ss (Some SockopsMap)) (deferred (Closed ''attestation'') (emit AttestAttached r)))
      else if routingMode = RoutingModeLoopback \<or> routingMode = RoutingModeNone
        then test_upstream e f (ss (Some SocketTable)) r
        else test_upstream e f (ss None) r)"

definition load_route :: "('a, 'k) main_env \<Rightarrow> flags \<Rightarrow> netip_addr \<Rightarrow> string \<Rightarrow> string \<Rightarrow> run \<Rightarrow> (event list \<times> exit) go" where
  "load_route e f emulatorIP numericProjectID pool r =
     (case me_node e of
        Inl _ \<Rightarrow> Ret (fatal ''error getting current node'' r)
      | Inr curNode \<Rightarrow>
          gobind (routing_LoadAndAttach (me_netlink e) (me_redirect e) curNode emulatorIP (f_server_port f)
              (me_kernel e) redirect_init) (\<lambda>(res, _, _).
            Ret (case res of
                   Inl _ \<Rightarrow> fatal ''error loading and attaching network route'' r
                 | Inr (routingMode, closeRoute) \<Rightarrow>
                     start_server e f numericProjectID pool routingMode
                       (deferred (RouteClosed closeRoute) (emit (RouteAttached routingMode closeRoute) r)))))"

definition main :: "('a, 'k) main_env \<Rightarrow> (event list \<times> exit) go" where
  "main e =
     (let r = \<lparr>tr = [], defers = []\<rparr> in
      case me_args e of
        ParseHelp \<Rightarrow> Ret (return r)
      | ParseFailed _ \<Rightarrow> Ret (fatal ''error parsing flags'' r)
      | Parsed f \<Rightarrow>
          (case me_ParseLevel e (f_log_level f) of
             Some _ \<Rightarrow> Ret (fatal ''invalid value for --log-level flag'' r)
           | None \<Rightarrow>
               if me_NODE_NAME e = [] then Ret (fatal ''NODE_NAME environment variable must be specified'' r)
               else if me_POD_IP e = [] then Ret (fatal ''POD_IP environment variable must be specified'' r)
               else (case ParseAddr (me_POD_IP e) of
                   Inl _ \<Rightarrow> Ret (fatal ''error parsing POD_IP environment variable'' r)
                 | Inr emulatorIP \<Rightarrow>
                     if \<not> Is4 emulatorIP then Ret (fatal ''POD_IP environment variable must be an IPv4 address'' r)
                     else (case NewConfig (f_workload_identity_provider f) of
                         Inl _ \<Rightarrow> Ret (fatal ''error creating google credentials config'' r)
                       | Inr (_, numericProjectID, pool) \<Rightarrow>
                           (case me_InClusterConfig e of
                              Some _ \<Rightarrow> Ret (fatal ''error creating in-cluster kubeconfig'' r)
                            | None \<Rightarrow>
                                (case me_NewForConfig e of
                                   Some _ \<Rightarrow> Ret (fatal ''error creating kubernetes client'' r)
                                 | None \<Rightarrow>
                                     load_route e f emulatorIP numericProjectID pool
                                       (start_watches f (create_providers f r))))))))"

section \<open>Acquiring and releasing\<close>

text \<open>The deferred call that belongs to an effect, and the effects that are such calls.\<close>

fun release_of :: "event \<Rightarrow> event option" where
  "release_of (Created what) = Some (Closed what)"
| "release_of (RouteAttached mode c) = Some (RouteClosed c)"
| "release_of AttestAttached = Some (Closed ''attestation'')"
| "release_of _ = None"

fun is_release :: "event \<Rightarrow> bool" where
  "is_release (Closed what) \<longleftrightarrow> True"
| "is_release (RouteClosed c) \<longleftrightarrow> True"
| "is_release _ \<longleftrightarrow> False"

text \<open>While \<open>main\<close> runs, the deferred calls are those of what it has acquired, the latest first, and
  none of them has run.\<close>

definition balanced :: "run \<Rightarrow> bool" where
  "balanced r \<longleftrightarrow> defers r = rev (List.map_filter release_of (tr r)) \<and> filter is_release (tr r) = []"

lemma map_filter_append: "List.map_filter f (xs @ ys) = List.map_filter f xs @ List.map_filter f ys"
  by (induction xs) (auto simp: List.map_filter_simps split: option.split)

lemma balanced_init: "balanced \<lparr>tr = [], defers = []\<rparr>"
  by (simp add: balanced_def List.map_filter_simps)

lemma balanced_emit: "balanced r \<Longrightarrow> release_of e = None \<Longrightarrow> \<not> is_release e \<Longrightarrow> balanced (emit e r)"
  by (simp add: balanced_def emit_def map_filter_append List.map_filter_simps)

lemma balanced_acquire: "balanced r \<Longrightarrow> release_of e = Some d \<Longrightarrow> \<not> is_release e \<Longrightarrow> balanced (deferred d (emit e r))"
  by (simp add: balanced_def emit_def deferred_def map_filter_append List.map_filter_simps)

lemma balanced_registers: "balanced r \<Longrightarrow> balanced (registers cs r)"
proof -
  have "List.map_filter release_of (map Registered cs) = []" "filter is_release (map Registered cs) = []"
    by (induction cs) (simp_all add: List.map_filter_simps)
  then show "balanced r \<Longrightarrow> balanced (registers cs r)" by (simp add: balanced_def registers_def map_filter_append)
qed

lemma balanced_providers: "balanced r \<Longrightarrow> balanced (start_watches f (create_providers f r))"
  by (simp add: start_watches_def create_providers_def start_if_def create_if_def balanced_emit balanced_acquire balanced_registers)

text \<open>\<open>Close\<close> of a watching provider waits for a channel that only the goroutine of \<open>Start\<close> closes: it would block
  forever on a provider that was created and not started.\<close>

definition informers :: "string set" where
  "informers = {''pods'', ''node'', ''service accounts''}"

definition informed :: "event list \<Rightarrow> bool" where
  "informed evs \<longleftrightarrow> (\<forall>w\<in>informers. Created w \<in> set evs \<longrightarrow> WatchStarted w \<in> set evs)"

definition settled :: "run \<Rightarrow> bool" where
  "settled r \<longleftrightarrow> balanced r \<and> informed (tr r)"

lemma settled_init: "settled \<lparr>tr = [], defers = []\<rparr>"
  by (simp add: settled_def balanced_init informed_def)

lemma settled_emit: "settled r \<Longrightarrow> release_of e = None \<Longrightarrow> \<not> is_release e \<Longrightarrow> settled (emit e r)"
  unfolding settled_def using balanced_emit [of r e] by (auto simp: informed_def emit_def)

lemma settled_registers: "settled r \<Longrightarrow> settled (registers cs r)"
  unfolding settled_def using balanced_registers [of r cs] by (auto simp: informed_def registers_def)

lemma settled_acquire:
  "settled r \<Longrightarrow> release_of e = Some d \<Longrightarrow> \<not> is_release e \<Longrightarrow> \<forall>w. e \<noteq> Created w \<Longrightarrow> settled (deferred d (emit e r))"
  unfolding settled_def using balanced_acquire [of r e d] by (auto simp: informed_def emit_def deferred_def)

lemma settled_providers: "settled (start_watches f (create_providers f \<lparr>tr = [], defers = []\<rparr>))"
  unfolding settled_def using balanced_providers [OF balanced_init, of f]
  by (auto simp: informed_def informers_def start_watches_def create_providers_def start_if_def create_if_def emit_def deferred_def registers_def)

text \<open>The effects after the goroutines of the server are started, and how far \<open>main\<close> gets.\<close>

definition server_events :: "('a, 'k) main_env \<Rightarrow> server_start \<Rightarrow> event list" where
  "server_events e ss =
     (if me_listen e \<noteq> None then []
      else ServerStarted ss # map Registered taints_collectors @ TaintsHandled # (if me_signal e then [ServerShutdown] else []))"

definition server_releases :: "('a, 'k) main_env \<Rightarrow> run \<Rightarrow> event list" where
  "server_releases e r = (if me_listen e = None \<and> me_signal e then defers r else [])"

lemma interrupted_take:
  "\<exists>n y. interrupted crash r (tr r @ evs, x) = (tr r @ take n evs, y) \<and> (y = x \<and> length evs \<le> n \<or> crash \<noteq> None \<and> (\<exists>msg. y = Exited msg))"
proof (cases crash)
  case None
  then show ?thesis by (intro exI [of _ "length evs"] exI [of _ x]) (simp add: interrupted_def)
next
  case (Some c)
  obtain n msg where c: "c = (n, msg)" by (cases c)
  show ?thesis
  proof (cases "length (tr r) + n < length (tr r @ evs) \<or> x = Waiting")
    case True
    then show ?thesis by (intro exI [of _ n] exI [of _ "Exited msg"]) (auto simp: interrupted_def Some c)
  next
    case False
    then show ?thesis by (intro exI [of _ n] exI [of _ x]) (simp add: interrupted_def Some c)
  qed
qed

lemma serve_runs:
  obtains n x where "serve_until_signal e ss r =
      (tr r @ map Registered server_collectors @ take n (server_events e ss @ server_releases e r), x)"
    "me_crash e = None \<or> (\<forall>msg. x \<noteq> Exited msg) \<longrightarrow> length (server_events e ss @ server_releases e r) \<le> n"
    "x = Returned \<longrightarrow> me_listen e = None \<and> me_signal e" "x \<noteq> Returned \<longrightarrow> me_crash e = None \<longrightarrow> server_releases e r = []"
    "x = Waiting \<longrightarrow> me_listen e = None"
proof -
  let ?r = "registers server_collectors r"
  let ?evs = "server_events e ss @ server_releases e r"
  define x where "x = (if me_listen e \<noteq> None then Exited ''error listening on metadata server address''
    else if me_signal e then Returned else Waiting)"
  have "serve_until_signal e ss r = interrupted (me_crash e) ?r (tr ?r @ ?evs, x)"
    by (auto simp: serve_until_signal_def Let_def x_def server_events_def server_releases_def return_def emit_def registers_def
        split: option.split)
  moreover obtain n y where "interrupted (me_crash e) ?r (tr ?r @ ?evs, x) = (tr ?r @ take n ?evs, y)"
      "y = x \<and> length ?evs \<le> n \<or> me_crash e \<noteq> None \<and> (\<exists>msg. y = Exited msg)"
    using interrupted_take [of "me_crash e" ?r ?evs x] by (elim exE conjE)
  moreover have "tr ?r = tr r @ map Registered server_collectors" by (simp add: registers_def)
  moreover have "x = Returned \<longrightarrow> me_listen e = None \<and> me_signal e" "x \<noteq> Returned \<longrightarrow> server_releases e r = []"
      "x = Waiting \<longrightarrow> me_listen e = None"
    by (auto simp: x_def server_releases_def)
  ultimately show thesis by (intro that [of n y]) (simp, blast+)
qed

definition finished :: "('a, 'k) main_env \<Rightarrow> event list \<times> exit \<Rightarrow> bool" where
  "finished e out \<longleftrightarrow>
     (\<exists>acq rel. fst out = acq @ rel \<and> filter is_release acq = [] \<and> informed acq \<and>
        prefix rel (rev (List.map_filter release_of acq)) \<and>
        (snd out = Returned \<longrightarrow> rel = rev (List.map_filter release_of acq)) \<and>
        (snd out \<noteq> Returned \<longrightarrow> me_crash e = None \<longrightarrow> rel = []))"

lemma finished_stop: "settled r \<Longrightarrow> x \<noteq> Returned \<Longrightarrow> finished e (tr r, x)"
  unfolding finished_def by (rule exI [of _ "tr r"], rule exI [of _ "[]"]) (simp add: settled_def balanced_def)

lemma settled_append: "settled r \<Longrightarrow> \<forall>ev\<in>set evs. release_of ev = None \<and> \<not> is_release ev \<Longrightarrow> settled (r\<lparr>tr := tr r @ evs\<rparr>)"
proof (induction evs rule: rev_induct)
  case (snoc ev evs)
  then show ?case using settled_emit [of "r\<lparr>tr := tr r @ evs\<rparr>" ev] by (simp add: emit_def)
qed simp

lemma finished_serve:
  assumes "settled r"
  shows "finished e (serve_until_signal e ss r)"
proof -
  let ?evs = "server_events e ss" and ?rel = "server_releases e r"
  obtain n x where run: "serve_until_signal e ss r = (tr r @ map Registered server_collectors @ take n (?evs @ ?rel), x)"
      and full: "me_crash e = None \<or> (\<forall>msg. x \<noteq> Exited msg) \<longrightarrow> length (?evs @ ?rel) \<le> n"
      and x: "x = Returned \<longrightarrow> me_listen e = None \<and> me_signal e" "x \<noteq> Returned \<longrightarrow> me_crash e = None \<longrightarrow> ?rel = []"
    by (rule serve_runs)
  let ?acq = "tr r @ map Registered server_collectors @ take n ?evs" and ?out = "take (n - length ?evs) ?rel"
  have "\<forall>ev\<in>set (map Registered server_collectors @ take n ?evs). release_of ev = None \<and> \<not> is_release ev"
    by (auto simp: server_events_def dest!: in_set_takeD split: if_splits)
  from settled_append [OF assms this] have "settled (r\<lparr>tr := ?acq\<rparr>)" .
  then have acq: "defers r = rev (List.map_filter release_of ?acq)" "filter is_release ?acq = []" "informed ?acq"
    by (simp_all add: settled_def balanced_def)
  have "prefix ?rel (defers r)" by (simp add: server_releases_def)
  then have "prefix ?out (rev (List.map_filter release_of ?acq))"
    using acq(1) prefix_order.trans take_is_prefix by metis
  moreover have "?out = rev (List.map_filter release_of ?acq)" if "x = Returned"
  proof -
    have "?rel = defers r" using that x(1) by (simp add: server_releases_def)
    moreover have "length ?rel \<le> n - length ?evs" using that full by simp
    ultimately show ?thesis using acq(1) by simp
  qed
  moreover have "fst (serve_until_signal e ss r) = ?acq @ ?out" "snd (serve_until_signal e ss r) = x" by (simp_all add: run)
  ultimately show ?thesis
    unfolding finished_def using acq(2,3) x(2) by (intro exI [of _ ?acq] exI [of _ ?out]) simp
qed

lemma finished_upstream: "settled r \<Longrightarrow> finished e (test_upstream e f ss r)"
  by (simp add: test_upstream_def finished_stop finished_serve settled_emit split: option.split)

lemma finished_server: "settled r \<Longrightarrow> finished e (start_server e f n pool mode r)"
  by (simp add: start_server_def Let_def finished_stop finished_upstream settled_acquire split: sum.split)

lemma routing_total: "Is4 ip \<Longrightarrow> \<exists>res k' st'. routing_LoadAndAttach nl env node ip port k st = Ret (res, k', st')"
proof -
  assume "Is4 ip"
  then obtain q where "ip = quad_addr q" by (auto simp: Is4_def quad_addr_def split: netip_addr.splits)
  then obtain r st' where "redirect_LoadAndAttach env ip port st = Ret (r, st')" using redirect_total by blast
  then show ?thesis
    by (auto simp: routing_LoadAndAttach_def Let_def split: prod.split)
qed

lemma finished_route:
  assumes "Is4 ip" "settled r"
  shows "\<exists>out. load_route e f ip n pool r = Ret out \<and> finished e out"
proof (cases "me_node e")
  case (Inl err)
  then show ?thesis using assms(2) by (simp add: load_route_def finished_stop)
next
  case (Inr node)
  obtain res k' st' where "routing_LoadAndAttach (me_netlink e) (me_redirect e) node ip (f_server_port f)
      (me_kernel e) redirect_init = Ret (res, k', st')"
    using routing_total [OF assms(1), of "me_netlink e" "me_redirect e" node "f_server_port f" "me_kernel e" redirect_init]
    by (elim exE)
  then show ?thesis
    using Inr assms(2) by (cases res) (auto simp: load_route_def finished_stop finished_server settled_acquire)
qed

text \<open>\<open>main\<close> stops while it validates its inputs, or goes on with all of them valid.\<close>

lemma main_cases:
  obtains (early) x where "main e = Ret ([], x)"
  | (route) f ip c n pool where "me_args e = Parsed f" "me_NODE_NAME e \<noteq> []" "ParseAddr (me_POD_IP e) = Inr ip" "Is4 ip"
      "NewConfig (f_workload_identity_provider f) = Inr (c, n, pool)"
      "main e = load_route e f ip n pool (start_watches f (create_providers f \<lparr>tr = [], defers = []\<rparr>))"
proof -
  have stop: "\<exists>x. main e = Ret ([], x)" if "\<nexists>f ip c n pool. me_args e = Parsed f \<and> me_ParseLevel e (f_log_level f) = None \<and>
      me_NODE_NAME e \<noteq> [] \<and> me_POD_IP e \<noteq> [] \<and> ParseAddr (me_POD_IP e) = Inr ip \<and> Is4 ip \<and>
      NewConfig (f_workload_identity_provider f) = Inr (c, n, pool) \<and> me_InClusterConfig e = None \<and> me_NewForConfig e = None"
    using that by (auto simp: main_def Let_def return_def split: parsed.split option.split sum.split)
  show thesis
  proof (rule ccontr)
    assume "\<not> thesis"
    then have "\<nexists>x. main e = Ret ([], x)" using early by blast
    with stop obtain f ip c n pool where go: "me_args e = Parsed f" "me_ParseLevel e (f_log_level f) = None"
        "me_NODE_NAME e \<noteq> []" "me_POD_IP e \<noteq> []" "ParseAddr (me_POD_IP e) = Inr ip" "Is4 ip"
        "NewConfig (f_workload_identity_provider f) = Inr (c, n, pool)" "me_InClusterConfig e = None" "me_NewForConfig e = None"
      by blast
    then have "main e = load_route e f ip n pool (start_watches f (create_providers f \<lparr>tr = [], defers = []\<rparr>))"
      by (simp add: main_def)
    then show False using \<open>\<not> thesis\<close> route go by blast
  qed
qed

lemma finished_nil: "finished e ([], x)"
  by (simp add: finished_def informed_def List.map_filter_simps)

lemma main_finished: "\<exists>out. main e = Ret out \<and> finished e out"
proof (cases rule: main_cases [of e])
  case (early x)
  then show ?thesis by (simp add: finished_nil)
next
  case (route f ip c n pool)
  then show ?thesis using finished_route [OF route(4) settled_providers] by simp
qed

section \<open>The started server\<close>

text \<open>No server was started and no taint handled.\<close>

definition server_event :: "event \<Rightarrow> bool" where
  "server_event ev \<longleftrightarrow> ev = TaintsHandled \<or> (\<exists>ss. ev = ServerStarted ss)"

definition unstarted :: "run \<Rightarrow> bool" where
  "unstarted r \<longleftrightarrow> (\<forall>ev\<in>set (tr r) \<union> set (defers r). \<not> server_event ev)"

lemma unstarted_providers: "unstarted (start_watches f (create_providers f \<lparr>tr = [], defers = []\<rparr>))"
  by (auto simp: unstarted_def server_event_def start_watches_def create_providers_def start_if_def create_if_def emit_def
      deferred_def registers_def)

lemma unstarted_acquire: "unstarted r \<Longrightarrow> \<not> server_event e \<Longrightarrow> \<not> server_event d \<Longrightarrow> unstarted (deferred d (emit e r))"
  by (auto simp: unstarted_def emit_def deferred_def)

lemma unstarted_emit: "unstarted r \<Longrightarrow> \<not> server_event e \<Longrightarrow> unstarted (emit e r)"
  by (auto simp: unstarted_def emit_def)

text \<open>The server was started after everything in \<open>pre\<close>, where no taint was handled; they are handled before
  \<open>main\<close> waits or returns.\<close>

definition started :: "server_start \<Rightarrow> event list \<Rightarrow> event list \<times> exit \<Rightarrow> bool" where
  "started ss pre out \<longleftrightarrow>
     (\<exists>mid post. fst out = (pre @ mid) @ ServerStarted ss # post \<and> TaintsHandled \<notin> set (pre @ mid) \<and>
        (snd out = Waiting \<or> snd out = Returned \<longrightarrow> TaintsHandled \<in> set post))"

lemma serve_started:
  assumes "serve_until_signal e ss r = (t, x)" "ServerStarted ss' \<in> set t" "unstarted r"
  shows "ss' = ss \<and> started ss (tr r) (t, x)"
proof -
  let ?evs = "server_events e ss" and ?rel = "server_releases e r"
  obtain n where t: "t = tr r @ map Registered server_collectors @ take n (?evs @ ?rel)"
      and full: "(\<forall>msg. x \<noteq> Exited msg) \<longrightarrow> length (?evs @ ?rel) \<le> n"
      and x: "x = Returned \<or> x = Waiting \<longrightarrow> me_listen e = None"
    by (rule serve_runs [of e ss r]) (use assms(1) in auto)
  have r: "ServerStarted q \<notin> set (tr r)" "TaintsHandled \<notin> set (tr r)" "ServerStarted q \<notin> set ?rel" for q
    using assms(3) by (auto simp: unstarted_def server_event_def server_releases_def)
  have "set t \<subseteq> set (tr r) \<union> Registered ` set server_collectors \<union> set ?evs \<union> set ?rel"
    using set_take_subset [of n "?evs @ ?rel"] unfolding t by auto
  then have "ServerStarted ss' \<in> set ?evs" using assms(2) r by auto
  then have evs: "me_listen e = None" "ss' = ss" by (auto simp: server_events_def split: if_splits)
  let ?rest = "map Registered taints_collectors @ TaintsHandled # (if me_signal e then [ServerShutdown] else []) @ ?rel"
  have all: "?evs @ ?rel = ServerStarted ss # ?rest" using evs by (simp add: server_events_def)
  moreover have "n \<noteq> 0" using assms(2) r(1) unfolding t by (auto intro: ccontr)
  ultimately have "take n (?evs @ ?rel) = ServerStarted ss # take (n - 1) ?rest" by (cases n) simp_all
  then have "t = (tr r @ map Registered server_collectors) @ ServerStarted ss # take (n - 1) ?rest" unfolding t by simp
  moreover have "TaintsHandled \<in> set (take (n - 1) ?rest)" if "x = Waiting \<or> x = Returned"
  proof -
    have "length (?evs @ ?rel) \<le> n" using that full by auto
    then have "length ?rest \<le> n - 1" unfolding all by simp
    then show ?thesis by simp
  qed
  ultimately show ?thesis unfolding started_def using evs(2) r(2) by fastforce
qed

lemma started_prefix: "started ss (pre @ pre') out \<Longrightarrow> started ss pre out"
  unfolding started_def by (metis append.assoc)

lemma upstream_started:
  assumes "test_upstream e f ss r = (t, x)" "ServerStarted ss' \<in> set t" "unstarted r"
  shows "ss' = ss \<and> started ss (tr r) (t, x)"
proof (cases "f_test_proxy_upstream f \<and> ss_RoutingMode ss = RoutingModeBPF")
  case True
  have "serve_until_signal e ss (emit ProxyTestStarted r) = (t, x)"
    using assms True by (auto simp: test_upstream_def unstarted_def server_event_def split: option.splits)
  then have "ss' = ss \<and> started ss (tr (emit ProxyTestStarted r)) (t, x)"
    using assms(2,3) by (intro serve_started) (simp_all add: unstarted_emit server_event_def)
  then show ?thesis using started_prefix by (auto simp: emit_def)
next
  case False
  then have "serve_until_signal e ss r = (t, x)" using assms(1) unfolding test_upstream_def by (simp only: if_False)
  then show ?thesis using serve_started assms(2,3) by blast
qed

definition mode_lookuper :: "string \<Rightarrow> lookuper" where
  "mode_lookuper mode = (if mode = RoutingModeBPF then SockopsMap else SocketTable)"

lemma server_started:
  assumes "start_server e f n pool mode r = (t, x)" "ServerStarted ss \<in> set t" "unstarted r"
    and "mode \<in> {RoutingModeBPF, RoutingModeLoopback, RoutingModeNone}"
  shows "ss = server_options e f n pool mode (Some (mode_lookuper mode)) \<and>
    started ss (tr r @ (if mode = RoutingModeBPF then [AttestAttached] else [])) (t, x)"
proof (cases "mode = RoutingModeBPF")
  case True
  let ?r = "deferred (Closed ''attestation'') (emit AttestAttached r)"
  have "test_upstream e f (server_options e f n pool mode (Some SockopsMap)) ?r = (t, x)"
    using assms(1,2,3) True by (auto simp: start_server_def Let_def unstarted_def server_event_def split: sum.splits)
  moreover have "unstarted ?r" using assms(3) by (simp add: unstarted_acquire server_event_def)
  ultimately show ?thesis
    using upstream_started [OF _ assms(2)] True by (fastforce simp: emit_def deferred_def mode_lookuper_def)
next
  case False
  then have "test_upstream e f (server_options e f n pool mode (Some SocketTable)) r = (t, x)"
    using assms(1,4) by (auto simp: start_server_def Let_def)
  from upstream_started [OF this assms(2,3)] show ?thesis using False by (auto simp: mode_lookuper_def)
qed

lemma map_sum_eq_Inr: "map_sum g h r = Inr y \<longleftrightarrow> (\<exists>x. r = Inr x \<and> y = h x)"
  by (cases r) auto

lemma routing_mode:
  assumes "routing_LoadAndAttach nl env node ip port k st = Ret (Inr (mode, c), k', st')"
  shows "mode = getMode node \<and> mode \<in> {RoutingModeBPF, RoutingModeLoopback, RoutingModeNone}"
proof -
  consider "getMode node = RoutingModeBPF" | "getMode node = RoutingModeLoopback" | "getMode node = RoutingModeNone"
    using assms by (auto simp: routing_LoadAndAttach_def Let_def split: if_splits)
  then show ?thesis
    using assms by cases (auto simp: routing_LoadAndAttach_def Let_def gobind_Ret_iff map_sum_eq_Inr
      split: if_splits prod.splits)
qed

lemma route_started:
  assumes "load_route e f ip n pool r = Ret (t, x)" "ServerStarted ss \<in> set t" "unstarted r"
  shows "\<exists>node c. me_node e = Inr node \<and>
    ss = server_options e f n pool (getMode node) (Some (mode_lookuper (getMode node))) \<and>
    getMode node \<in> {RoutingModeBPF, RoutingModeLoopback, RoutingModeNone} \<and>
    started ss (tr r @ [RouteAttached (getMode node) c] @ (if getMode node = RoutingModeBPF then [AttestAttached] else [])) (t, x)"
proof -
  obtain node where node: "me_node e = Inr node"
    using assms unfolding load_route_def unstarted_def server_event_def by (cases "me_node e") auto
  then obtain y where "routing_LoadAndAttach (me_netlink e) (me_redirect e) node ip (f_server_port f) (me_kernel e) redirect_init
        = Ret y"
    using assms(1) unfolding load_route_def by (auto simp: gobind_Ret_iff simp del: split_paired_Ex)
  moreover obtain res k' st' where "y = (res, k', st')" by (cases y)
  ultimately obtain mode c where routing: "routing_LoadAndAttach (me_netlink e) (me_redirect e) node ip (f_server_port f) (me_kernel e) redirect_init
        = Ret (Inr (mode, c), k', st')"
      and server: "start_server e f n pool mode (deferred (RouteClosed c) (emit (RouteAttached mode c) r)) = (t, x)"
    using assms node unfolding load_route_def unstarted_def server_event_def by (cases res) auto
  let ?r = "deferred (RouteClosed c) (emit (RouteAttached mode c) r)"
  note mode = routing_mode [OF routing]
  have "unstarted ?r" using assms(3) by (simp add: unstarted_acquire server_event_def)
  from server_started [OF server assms(2) this] mode
  have "ss = server_options e f n pool (getMode node) (Some (mode_lookuper (getMode node)))"
      "started ss (tr r @ [RouteAttached (getMode node) c] @ (if getMode node = RoutingModeBPF then [AttestAttached] else [])) (t, x)"
    by (auto simp: emit_def deferred_def)
  moreover have "getMode node \<in> {RoutingModeBPF, RoutingModeLoopback, RoutingModeNone}" using mode by blast
  ultimately show ?thesis using node by (intro exI conjI)
qed

section \<open>Properties of the start-up\<close>

lemma released_acquired: "Closed w \<in> set (List.map_filter release_of evs) \<Longrightarrow> w \<in> informers \<Longrightarrow> Created w \<in> set evs"
proof (induction evs)
  case (Cons e evs)
  then show ?case by (cases e) (auto simp: List.map_filter_simps informers_def split: option.splits)
qed (simp add: List.map_filter_simps)

text \<open>The channels of an informer after the effects of a trace.\<close>

definition life_after :: "string \<Rightarrow> event list \<Rightarrow> informer_life" where
  "life_after w evs = fold (\<lambda>ev l. if ev = WatchStarted w then watch_Start l else l) evs NewProvider_life"

lemma fold_starts:
  "closeChannel (fold (\<lambda>ev l. if ev = WatchStarted w then watch_Start l else l) evs l) = closeChannel l \<and>
   closedChannel (fold (\<lambda>ev l. if ev = WatchStarted w then watch_Start l else l) evs l) = closedChannel l \<and>
   runners (fold (\<lambda>ev l. if ev = WatchStarted w then watch_Start l else l) evs l) = runners l + count_list evs (WatchStarted w)"
  by (induction evs arbitrary: l) (auto simp: watch_Start_def)

lemma started_closes:
  assumes "WatchStarted w \<in> set evs"
  shows "\<exists>l. watch_Close (life_after w evs) = Ret l \<and> Close_returns l"
proof -
  have life: "\<not> closeChannel (life_after w evs)" "\<not> closedChannel (life_after w evs)" "0 < runners (life_after w evs)"
    using fold_starts [of w evs NewProvider_life] assms
    by (simp_all add: life_after_def NewProvider_life_def count_list_0_iff neq0_conv [symmetric] del: neq0_conv)
  then obtain l where "watch_Close (life_after w evs) = Ret l" by (simp add: watch_Close_def)
  then show ?thesis using Close_returns_iff life by blast
qed


text \<open>C22. A server is started only with a nonempty node name, an IPv4 pod address, the project number and pool of
  a well-formed workload identity provider, one of the three routing modes (the node's) and the
  lookuper of that mode, a number of attempts that is not negative, and after the route (and in eBPF
  mode the attestation program) is in place. The taints are handled after the server is started, never
  before, and before \<open>main\<close> waits.\<close>

theorem main_config_sound:
  assumes "main e = Ret (t, x)" "ServerStarted ss \<in> set t"
  shows "\<exists>f node ip c rc pre post. me_args e = Parsed f \<and> me_node e = Inr node \<and>
    ss_NodeName ss = me_NODE_NAME e \<and> ss_NodeName ss \<noteq> [] \<and> ParseAddr (ss_PodIP ss) = Inr ip \<and> Is4 ip \<and>
    NewConfig (f_workload_identity_provider f) = Inr (c, ss_NumericProjectID ss, ss_WorkloadIdentityPool ss) \<and>
    ss_RoutingMode ss = getMode node \<and> getMode node \<in> {RoutingModeBPF, RoutingModeLoopback, RoutingModeNone} \<and>
    ss_Attestation ss = Some (if getMode node = RoutingModeBPF then SockopsMap else SocketTable) \<and>
    0 \<le> ss_MaxAttempts ss \<and>
    t = pre @ ServerStarted ss # post \<and> TaintsHandled \<notin> set pre \<and>
    (x = Waiting \<or> x = Returned \<longrightarrow> TaintsHandled \<in> set post) \<and> RouteAttached (getMode node) rc \<in> set pre \<and>
    (getMode node = RoutingModeBPF \<longrightarrow> AttestAttached \<in> set pre)"
proof (cases rule: main_cases [of e])
  case (early y)
  then show ?thesis using assms by simp
next
  case (route f ip c n pool)
  have "load_route e f ip n pool (start_watches f (create_providers f \<lparr>tr = [], defers = []\<rparr>)) = Ret (t, x)"
    using assms(1) route(6) by simp
  from route_started [OF this assms(2) unstarted_providers] obtain node rc where
      node: "me_node e = Inr node" and ss: "ss = server_options e f n pool (getMode node) (Some (mode_lookuper (getMode node)))"
      and modes: "getMode node \<in> {RoutingModeBPF, RoutingModeLoopback, RoutingModeNone}"
      and st: "started ss (tr (start_watches f (create_providers f \<lparr>tr = [], defers = []\<rparr>)) @ [RouteAttached (getMode node) rc] @
        (if getMode node = RoutingModeBPF then [AttestAttached] else [])) (t, x)"
    by (elim exE conjE)
  obtain pre mid post where t: "t = (pre @ mid) @ ServerStarted ss # post" "TaintsHandled \<notin> set (pre @ mid)"
      "x = Waiting \<or> x = Returned \<longrightarrow> TaintsHandled \<in> set post"
      and pre: "pre = tr (start_watches f (create_providers f \<lparr>tr = [], defers = []\<rparr>)) @ [RouteAttached (getMode node) rc] @
        (if getMode node = RoutingModeBPF then [AttestAttached] else [])"
    using st unfolding started_def by (elim exE conjE) simp
  have fields: "ss_NodeName ss = me_NODE_NAME e" "ss_PodIP ss = me_POD_IP e" "ss_NumericProjectID ss = n"
      "ss_WorkloadIdentityPool ss = pool" "ss_RoutingMode ss = getMode node" "0 \<le> ss_MaxAttempts ss"
      "ss_Attestation ss = Some (if getMode node = RoutingModeBPF then SockopsMap else SocketTable)"
    unfolding ss by (simp_all add: server_options_def mode_lookuper_def)
  show ?thesis
    by (rule exI [of _ f], rule exI [of _ node], rule exI [of _ ip], rule exI [of _ c], rule exI [of _ rc],
        rule exI [of _ "pre @ mid"], rule exI [of _ post])
      (use route node modes t pre fields in simp)
qed

definition example_flags :: flags where
  "example_flags = default_flags\<lparr>f_workload_identity_provider :=
     ''projects/123/locations/global/workloadIdentityPools/pool/providers/prov'', f_watch_pods := True, f_cache_tokens := True\<rparr>"

definition example_upstream :: "(string, string list) upstream_env" where
  "example_upstream = \<lparr>ue_LinkByName = None, ue_ParseAddr = Inr, ue_scope = (\<lambda>a. a), ue_AddrAdd = (\<lambda>a k. Inr (a # k)),
     ue_Listen = (\<lambda>_. Inr)\<rparr>"

definition example_main :: "(string, string list) main_env" where
  "example_main = \<lparr>me_args = Parsed example_flags, me_ParseLevel = (\<lambda>_. None), me_NODE_NAME = ''node-1'', me_POD_IP = ''10.0.0.2'',
     me_InClusterConfig = None, me_NewForConfig = None, me_node = Inr loopback_node, me_netlink = list_netlink,
     me_kernel = [''127.0.0.1/8''], me_redirect = example_redirect_env, me_attest_load = None, me_attest_attach = None,
     me_upstream = example_upstream, me_listen = None, me_signal = True, me_crash = None\<rparr>"

lemma example_main_runs: "\<exists>ss. main example_main = Ret
    (map Registered (registry_collectors @ pods_collectors) @ [Created ''pods''] @ map Registered tokens_collectors @
     [Created ''tokens'', WatchStarted ''pods'', RouteAttached RoutingModeLoopback CloseLoopback] @
     map Registered server_collectors @ [ServerStarted ss] @ map Registered taints_collectors @ [TaintsHandled, ServerShutdown, RouteClosed CloseLoopback, Closed ''tokens'', Closed ''pods''], Returned) \<and>
    ss_NumericProjectID ss = ''123'' \<and> ss_WorkloadIdentityPool ss = ''pool'' \<and> ss_Addr ss = ''169.254.169.254:80''"
  by (rule exI [of _ "server_options example_main example_flags ''123'' ''pool'' RoutingModeLoopback (Some SocketTable)"]) code_simp


theorem main_config_sound_witness:
  "\<exists>t x ss node. main example_main = Ret (t, x) \<and> ServerStarted ss \<in> set t \<and> me_node example_main = Inr node \<and>
     ss_RoutingMode ss = getMode node \<and> ss_NodeName ss = ''node-1'' \<and> ss_Attestation ss \<noteq> None"
proof -
  obtain t x ss where run: "main example_main = Ret (t, x)" "ServerStarted ss \<in> set t"
    using example_main_runs by (elim exE conjE) (rule that, assumption, simp, rule disjI1, rule refl)
  have "me_NODE_NAME example_main = ''node-1''" by (simp add: example_main_def)
  with main_config_sound [OF run] run show ?thesis
    by (elim exE conjE) (intro exI conjI, assumption+, simp_all)
qed

section \<open>The node provider is unused\<close>

text \<open>The effects of a run, without those of the node's informer.\<close>

definition node_event :: "event \<Rightarrow> bool" where
  "node_event ev \<longleftrightarrow> ev \<in> {Created ''node'', WatchStarted ''node'', Closed ''node''}"

definition other_events :: "run \<Rightarrow> run" where
  "other_events r = \<lparr>tr = filter (\<lambda>ev. \<not> node_event ev) (tr r), defers = filter (\<lambda>ev. \<not> node_event ev) (defers r)\<rparr>"

definition same_others :: "event list \<times> exit \<Rightarrow> event list \<times> exit" where
  "same_others out = (filter (\<lambda>ev. \<not> node_event ev) (fst out), snd out)"

lemma node_event_simps [simp]:
  "node_event (Created ''node'')" "node_event (WatchStarted ''node'')" "node_event (Closed ''node'')"
  "\<not> node_event (RouteAttached m c)" "\<not> node_event AttestAttached" "\<not> node_event ProxyTestStarted"
  "\<not> node_event (ServerStarted ss)" "\<not> node_event TaintsHandled" "\<not> node_event ServerShutdown"
  "\<not> node_event (Closed ''attestation'')" "\<not> node_event (RouteClosed c)"
  by (simp_all add: node_event_def)

definition similar :: "run \<Rightarrow> run \<Rightarrow> bool" where
  "similar r r' \<longleftrightarrow> other_events r = other_events r'"

lemma similar_emit: "similar r r' \<Longrightarrow> similar (emit ev r) (emit ev r')"
  by (simp add: similar_def other_events_def emit_def)

lemma similar_deferred: "similar r r' \<Longrightarrow> similar (deferred ev r) (deferred ev r')"
  by (simp add: similar_def other_events_def deferred_def)

lemma similar_create: "similar r r' \<Longrightarrow> similar (create_if b ''node'' [] r) (create_if b' ''node'' [] r')"
  by (simp add: similar_def other_events_def create_if_def deferred_def emit_def registers_def)

lemma similar_start: "similar r r' \<Longrightarrow> similar (start_if b ''node'' r) (start_if b' ''node'' r')"
  by (simp add: similar_def other_events_def start_if_def emit_def)

lemma similar_registers: "similar r r' \<Longrightarrow> similar (registers cs r) (registers cs r')"
  by (simp add: similar_def other_events_def registers_def)

lemma similar_step: "similar r r' \<Longrightarrow> similar (create_if b what cs r) (create_if b what cs r')"
  "similar r r' \<Longrightarrow> similar (start_if b what r) (start_if b what r')"
  by (simp_all add: create_if_def start_if_def similar_emit similar_deferred similar_registers)

lemma same_stop: "similar r r' \<Longrightarrow> same_others (tr r, x) = same_others (tr r', x)"
  by (simp add: similar_def other_events_def same_others_def)

lemma same_return: "similar r r' \<Longrightarrow> same_others (return r) = same_others (return r')"
  by (simp add: similar_def other_events_def same_others_def return_def)

lemma same_serve: "me_crash e = None \<Longrightarrow> similar r r' \<Longrightarrow> same_others (serve_until_signal e ss r) = same_others (serve_until_signal e ss r')"
  by (auto simp: serve_until_signal_def interrupted_def Let_def intro!: same_stop same_return similar_emit similar_registers split: option.split)

lemma same_upstream: "me_crash e = None \<Longrightarrow> similar r r' \<Longrightarrow> same_others (test_upstream e f ss r) = same_others (test_upstream e f ss r')"
  by (auto simp: test_upstream_def intro!: same_stop same_serve similar_emit split: option.split)

lemma same_server: "me_crash e = None \<Longrightarrow> similar r r' \<Longrightarrow> same_others (start_server e f n pool mode r) = same_others (start_server e f n pool mode r')"
  by (auto simp: start_server_def Let_def intro!: same_stop same_upstream similar_emit similar_deferred split: sum.split)

lemma same_route:
  assumes "me_crash e = None" "similar r r'"
  shows "gobind (load_route e f ip n pool r) (\<lambda>out. Ret (same_others out)) =
    gobind (load_route e f ip n pool r') (\<lambda>out. Ret (same_others out))"
proof (cases "me_node e")
  case (Inr node)
  show ?thesis
    by (cases "routing_LoadAndAttach (me_netlink e) (me_redirect e) node ip (f_server_port f) (me_kernel e) redirect_init")
      (auto simp: load_route_def Inr assms intro!: same_stop same_server similar_emit similar_deferred split: sum.split)
qed (simp add: load_route_def same_stop [OF assms(2)])

lemma server_flags_unused:
  "start_server (e\<lparr>me_args := a\<rparr>) f n pool = start_server e f n pool"
  "start_server e (f\<lparr>f_watch_node := b\<rparr>) n pool = start_server e f n pool"
proof -
  have "server_options (e\<lparr>me_args := a\<rparr>) f n pool = server_options e f n pool"
      "server_options e (f\<lparr>f_watch_node := b\<rparr>) n pool = server_options e f n pool"
    by (intro ext, simp add: server_options_def wire_def)+
  moreover have "test_upstream (e\<lparr>me_args := a\<rparr>) f = test_upstream e f"
      "test_upstream e (f\<lparr>f_watch_node := b\<rparr>) = test_upstream e f"
    by (intro ext, simp add: test_upstream_def serve_until_signal_def interrupted_def Let_def split: option.split)+
  ultimately show "start_server (e\<lparr>me_args := a\<rparr>) f n pool = start_server e f n pool"
      "start_server e (f\<lparr>f_watch_node := b\<rparr>) n pool = start_server e f n pool"
    by (intro ext, simp add: start_server_def Let_def split: sum.split)+
qed

lemma flags_unused:
  "load_route (e\<lparr>me_args := a\<rparr>) f ip n pool r = load_route e f ip n pool r"
  "load_route e (f\<lparr>f_watch_node := b\<rparr>) ip n pool r = load_route e f ip n pool r"
  unfolding load_route_def server_flags_unused by (simp_all split: sum.split)

lemma similar_providers:
  "similar (start_watches (f\<lparr>f_watch_node := b\<rparr>) (create_providers (f\<lparr>f_watch_node := b\<rparr>) r))
     (start_watches (f\<lparr>f_watch_node := b'\<rparr>) (create_providers (f\<lparr>f_watch_node := b'\<rparr>) r))"
proof -
  have "similar r r" by (simp add: similar_def)
  then show ?thesis
    unfolding start_watches_def create_providers_def by (auto intro!: similar_start similar_create similar_step similar_registers)
qed

text \<open>\<open>--watch-node\<close> has no effect on the server: with and without it, \<open>main\<close> ends in the same way and
  does the same things, except that the node's informer is created, started and closed. The only read of
  the node goes to the API server.\<close>

lemma watch_node_unused:
  assumes "me_crash e = None"
  shows "gobind (main (e\<lparr>me_args := Parsed (f\<lparr>f_watch_node := b\<rparr>)\<rparr>)) (\<lambda>out. Ret (same_others out)) =
   gobind (main (e\<lparr>me_args := Parsed (f\<lparr>f_watch_node := b'\<rparr>)\<rparr>)) (\<lambda>out. Ret (same_others out))"
  using assms by (auto simp: main_def Let_def flags_unused intro!: same_route similar_providers split: option.split sum.split)

end
