(* ===== verification/System.thy ===== *)
theory System
  imports Program
begin

text \<open>
  The composition of the components, as \<open>main\<close> wires them: the server with a pod provider and an
  attestation lookuper. The lemmas are proved once for every lookuper and every provider that satisfy
  their contracts, and apply to the sockops map, the socket table and both pod providers by
  interpretation.
\<close>

section \<open>The pod provider of the server\<close>

text \<open>\<open>main\<close> gives the server the listing provider, or the watching one with \<open>--watch-pods\<close>.\<close>

datatype 'w pods_source = Listing kube_list | Watching "'w watch_pods"

fun source_GetByIP :: "string \<times> 'w pods_source \<Rightarrow> string \<Rightarrow> kube_pod res" where
  "source_GetByIP (node, Listing kube) ip = list_GetByIP node kube ip"
| "source_GetByIP (node, Watching w) ip = fst (wp_GetByIP w ip)"

fun source_GetByUID :: "string \<times> 'w pods_source \<Rightarrow> string \<Rightarrow> kube_pod res" where
  "source_GetByUID (node, Listing kube) uid = list_GetByUID node kube uid"
| "source_GetByUID (node, Watching w) uid = fst (wp_GetByUID w uid)"

fun source_ok :: "string \<times> 'w pods_source \<Rightarrow> bool" where
  "source_ok (node, Listing kube) \<longleftrightarrow> list_ok (node, kube)"
| "source_ok (node, Watching w) \<longleftrightarrow> watch_ok (node, w)"

interpretation source_pods: pod_provider source_ok fst source_GetByIP source_GetByUID
proof (unfold_locales, goal_cases)
  case (1 c ip pod)
  then show ?case
    using list_pods.ByIP_match watch_pods.ByIP_match by (cases c rule: source_ok.cases) fastforce+
next
  case (2 c uid pod)
  then show ?case
    using list_pods.ByUID_match watch_pods.ByUID_match by (cases c rule: source_ok.cases) fastforce+
qed

section \<open>Connections\<close>

text \<open>The connection the server accepts for a 4-tuple: the client's address is printed, the local address
  is that of the socket, in its IPv4 or its IPv4-mapped form.\<close>

definition remote_text :: "conn4 \<Rightarrow> string" where
  "remote_text t = Addr_String (quad_addr (c_src t)) @ '':'' @ utoa (unat (c_sport t))"

definition accepted :: "conn4 \<Rightarrow> connection \<Rightarrow> bool" where
  "accepted t cn \<longleftrightarrow> cn_remote cn = remote_text t \<and>
     (\<exists>l. cn_local cn = Some l \<and> To4 (tcp_IP l) = Some (quad_addr (c_dst t)) \<and> tcp_Port l = uint (c_dport t))"

lemma accepted_client:
  assumes "accepted t cn"
  shows "client cn (quad_addr (c_src t)) (utoa (unat (c_sport t)))"
proof -
  obtain a b c d where src: "c_src t = (a, b, c, d)" by (cases "c_src t")
  have "SplitHostPort (cn_remote cn) = Inr (v4_text a b c d, utoa (unat (c_sport t)))"
    using assms SplitHostPort_v4 [of "utoa (unat (c_sport t))" a b c d] utoa_digits [of "unat (c_sport t)"]
    by (simp add: accepted_def remote_text_def src quad_addr_def Addr_String_v4 list_all_iff)
  then show ?thesis by (simp add: client_def ParseAddr_v4_text src quad_addr_def)
qed

lemma accepted_tuple:
  assumes "accepted t cn"
  shows "conn_tuple cn (quad_addr (c_src t)) (quad_addr (c_dst t)) (c_sport t) (c_dport t)"
  using accepted_client [OF assms] assms
  unfolding conn_tuple_def accepted_def by (auto simp: ParseUint16_utoa)

lemma tuple_accepted:
  assumes "accepted t cn" "conn_tuple cn ip dst p q"
  shows "ip = quad_addr (c_src t) \<and> dst = quad_addr (c_dst t) \<and> p = c_sport t \<and> q = c_dport t"
  using conn_tuple_unique [OF accepted_tuple [OF assms(1)] assms(2)] .
section \<open>The identity of an attested caller\<close>

text \<open>The ServiceAccount a provider call is about.\<close>

fun call_ref :: "provider_call \<Rightarrow> Reference option" where
  "call_ref (CallGetServiceAccount ref) = Some ref"
| "call_ref (CallServiceAccountToken ref) = Some ref"
| "call_ref (CallIdentityToken ref access email aud) = Some ref"
| "call_ref _ = None"

lemma call_ref_conn: "call_ok s cn c \<Longrightarrow> call_ref c = Some ref \<Longrightarrow> conn_ref s cn ref"
  by (cases c) auto

lemma served_ref:
  assumes "server_ok s cn" "sv_calls a = []" "serve s now (incoming cn verb path query headers) (fresh a) = Ret st"
    and "c \<in> set (sv_calls (app st))" "call_ref c = Some ref"
  shows "conn_ref s cn ref"
proof -
  have "calls_ok s cn (app st)"
    using serve_answered [OF assms(1,2), of now verb path query headers] assms(3) by (simp add: endpoints.answered_def)
  then show ?thesis using assms(4,5) call_ref_conn unfolding calls_ok_def by blast
qed

locale attested_pods =
  attestation_lookuper aok path_of Lookup + pod_provider pok node ByIP ByUID
  for aok :: "'a \<Rightarrow> bool" and path_of Lookup and pok :: "'p \<Rightarrow> bool" and node ByIP ByUID
begin

text \<open>The pod of an attested connection is a running pod of the node whose UID is in the cgroup path of the
  process that opened it, at or above any cgroup that the process created itself.\<close>

lemma attested_ref:
  assumes "aok c" "pok d" "Attestation s = Some at" "at_Lookup at = Lookup c" "Pods_GetByUID s = ByUID d"
    and "accepted t cn" "attested s (quad_addr (c_src t))"
    and "path_of c t = Some (base @ nested)" "podUIDPattern base = Some u"
    and "conn_ref s cn ref"
  shows "\<exists>pod. uid_match (node d) (canonical_uid u) pod \<and> ref = ReferenceFromPod pod"
proof -
  obtain pod where pod: "conn_pod s cn pod" "ref = ReferenceFromPod pod"
    using assms(10) unfolding conn_ref_def by blast
  have "attested s ip" if "client cn ip port" for ip port
    using client_unique [OF accepted_client [OF assms(6)] that] assms(7) by simp
  then obtain uid where uid: "conn_uid s cn uid" "Pods_GetByUID s uid = Inr pod"
    using pod(1) unfolding conn_pod_def by blast
  then have "Lookup c (quad_addr (c_src t)) (quad_addr (c_dst t)) (c_sport t) (c_dport t) = Ret (Inr uid)"
    using tuple_accepted [OF assms(6)] assms(3,4) unfolding conn_uid_def by fastforce
  then have "uid = canonical_uid u" by (rule Lookup_nested [OF assms(1,8,9)])
  moreover have "uid_match (node d) uid pod" using ByUID_match [OF assms(2)] uid(2) assms(5) by simp
  ultimately show ?thesis using pod(2) by blast
qed

end

interpretation bpf_system: attested_pods bpf_ok bpf_path_of "\<lambda>c. bpf_Lookup (bw_map c) (bw_tree c)"
    source_ok fst source_GetByIP source_GetByUID
  by unfold_locales

interpretation diag_system: attested_pods diag_ok dw_path
    "\<lambda>c s d sp dp. Ret (sockdiag_Lookup (dw_get c) (dw_proc c) s d sp dp)"
    source_ok fst source_GetByIP source_GetByUID
  by unfold_locales

section \<open>The lookupers of the server\<close>

definition bpf_attestation :: "bpf_world \<Rightarrow> attestation" where
  "bpf_attestation w =
     \<lparr>at_Lookup = bpf_Lookup (bw_map w) (bw_tree w),
      at_Verify = (\<lambda>src dst p q. case (src, dst) of
          (Some s, Some d) \<Rightarrow> bpf_Verify (bw_map w) s d p q
        | _ \<Rightarrow> Panic ''As4 called on IP zero value'')\<rparr>"

definition diag_attestation :: "diag_world \<Rightarrow> attestation" where
  "diag_attestation w =
     \<lparr>at_Lookup = (\<lambda>s d p q. Ret (sockdiag_Lookup (dw_get w) (dw_proc w) s d p q)), at_Verify = (\<lambda>_ _ _ _. Ret None)\<rparr>"

lemma bpf_attestation_total:
  assumes "Is4 (Unmap ip)" "Is4 dst"
  shows "\<exists>x. at_Lookup (bpf_attestation w) ip dst p q = Ret x"
proof -
  have "Is4 (Unmap dst)" using assms(2) by (cases dst) (simp_all add: Is4_def)
  then obtain a b where "As4 ip = Ret a" "As4 dst = Ret b"
    using assms(1) panics_As4(1) by (metis go.exhaust)
  then show ?thesis by (simp add: bpf_attestation_def bpf_Lookup_def attest_lookup_key_def)
qed

lemma v4_selector_safe: "selector_safe (Addr_String (AddrV4 a b c d))"
proof -
  have "x \<noteq> CHR '','' \<and> x \<noteq> CHR ''='' \<and> x \<noteq> CHR ''!'' \<and> x \<noteq> CHR 0x5C" if "is_digit x \<or> x = CHR ''.''" for x
    using that by (auto simp: is_digit_def)
  then show ?thesis
    unfolding selector_safe_def Addr_String_v4 using v4_text_chars by (auto simp: v4_text_def)
qed

section \<open>The identity of a caller by address\<close>

text \<open>Every attempt of a lookup may see another state of the provider.\<close>

lemma ip_ref:
  assumes "\<forall>i. source_ok (NodeName s, src i) \<and> (\<forall>ip. Pods_GetByIP s ip i = source_GetByIP (NodeName s, src i) ip)"
    and "accepted t cn" "\<not> attested s (quad_addr (c_src t))" "conn_ref s cn ref"
  shows "\<exists>pod. ip_match (NodeName s) (Addr_String (quad_addr (c_src t))) pod \<and> ref = ReferenceFromPod pod"
proof -
  obtain pod where pod: "conn_pod s cn pod" "ref = ReferenceFromPod pod"
    using assms(4) unfolding conn_ref_def by blast
  have same: "ip = quad_addr (c_src t)" if "client cn ip port" for ip port
    using client_unique [OF accepted_client [OF assms(2)] that] by simp
  have "\<not> conn_uid s cn uid" for uid
    using tuple_accepted [OF assms(2)] assms(3) unfolding conn_uid_def by blast
  then obtain i where i: "Pods_GetByIP s (Addr_String (quad_addr (c_src t))) i = Inr pod"
    using pod(1) same unfolding conn_pod_def first_pod_def by blast
  obtain a b c d where "c_src t = (a, b, c, d)" by (cases "c_src t")
  then have "selector_safe (Addr_String (quad_addr (c_src t)))" by (simp add: quad_addr_def v4_selector_safe)
  then show ?thesis using source_pods.ByIP_match [of "(NodeName s, src i)"] assms(1) i pod(2) by auto
qed

section \<open>The pod of a redirected connection\<close>

lemma last_owner_append:
  "last_owner (es @ fs) t = (case last_owner fs t of Some g \<Rightarrow> Some g | None \<Rightarrow> last_owner es t)"
proof (induction es)
  case (Cons e es)
  then show ?case by (cases e) (auto split: option.split)
qed (simp split: option.split)

text \<open>The connection was opened by the cgroup \<open>g\<close>, nobody has opened it again since, and its entry is still in
  the map of the hook.\<close>

definition recorded :: "bpf_world \<Rightarrow> conn4 \<Rightarrow> 64 word \<Rightarrow> bool" where
  "recorded w t g \<longleftrightarrow>
     (\<exists>before after. bw_events w = before @ Connect t g # after \<and> last_owner after t = None) \<and>
     (\<forall>s g. OtherOp s g \<in> set (bw_events w) \<longrightarrow> other_op s) \<and>
     bw_map w (conn_key t) = Inr (map_attest (fold sock_step (bw_events w) attest_init) (conn_key t))"

lemma recorded_map:
  assumes "recorded w t g"
  shows "bw_map w (conn_key t) = Inr (Some g)"
proof -
  obtain before after where "bw_events w = before @ Connect t g # after" "last_owner after t = None"
    using assms unfolding recorded_def by blast
  then have "last_owner (bw_events w) t = Some g" by (simp add: last_owner_append)
  then show ?thesis
    using assms sock_run_map [of "bw_events w" attest_init t] unfolding recorded_def by auto
qed

lemma recorded_pod:
  assumes "recorded w t g" "PodUIDFromCgroupID (bw_tree w) g = Inr uid"
    and "RoutingMode s = RoutingModeBPF" "Attestation s = Some (bpf_attestation w)" "accepted t cn" "Pods_GetByUID s uid = Inr pod"
  shows "conn_pod s cn pod"
proof -
  have "at_Lookup (bpf_attestation w) (quad_addr (c_src t)) (quad_addr (c_dst t)) (c_sport t) (c_dport t) = Ret (Inr uid)"
    using recorded_map [OF assms(1)] assms(2) by (simp add: bpf_attestation_def bpf_Lookup_conn)
  then have "conn_uid s cn uid"
    using accepted_tuple [OF assms(5)] assms(3,4) unfolding conn_uid_def attested_def by blast
  then show ?thesis using assms(6) unfolding conn_pod_def by blast
qed

section \<open>An example system\<close>

definition sys_uid :: string where
  "sys_uid = ''12345678-1234-1234-1234-123456789abc''"

definition sys_pod :: kube_pod where
  "sys_pod = web_pod\<lparr>pod_UID := sys_uid, pod_NodeName := ''node-1''\<rparr>"

definition sys_source :: "unit pods_source" where
  "sys_source = Listing (api_list [sys_pod])"

definition sys_bpf :: bpf_world where
  "sys_bpf = \<lparr>bw_events = example_history,
     bw_map = (\<lambda>k. Inr (map_attest (fold sock_step example_history attest_init) k)), bw_tree = example_tree\<rparr>"

definition sys_server :: "string \<Rightarrow> attestation \<Rightarrow> server" where
  "sys_server mode at = web_server\<lparr>RoutingMode := mode, Attestation := Some at,
     Pods_GetByUID := source_GetByUID (''node-1'', sys_source),
     Pods_GetByIP := (\<lambda>ip i. source_GetByIP (''node-1'', sys_source) ip)\<rparr>"

definition sys_conn :: "conn4 \<Rightarrow> connection" where
  "sys_conn t = \<lparr>cn_remote = remote_text t, cn_local = Some \<lparr>tcp_IP = quad_addr (c_dst t), tcp_Port = uint (c_dport t)\<rparr>,
     cn_sel = (\<lambda>_. TimerFired)\<rparr>"

lemma sys_uid: "canonical_uid example_uid = sys_uid"
  by (simp add: canonical_uid_def ReplaceAllByte_def example_uid_def sys_uid_def)

lemma sys_accepted: "accepted t (sys_conn t)"
proof -
  obtain a b c d where "c_dst t = (a, b, c, d)" by (cases "c_dst t")
  then show ?thesis by (simp add: accepted_def sys_conn_def To4_def quad_addr_def Is4_def)
qed

lemma sys_source_ok: "source_ok (''node-1'', sys_source)"
proof -
  have "kube_list_ok [sys_pod] (api_list [sys_pod])" by (rule api_list_ok) simp
  moreover have "selector_safe ''node-1''" by (simp add: selector_safe_def)
  ultimately show ?thesis by (auto simp: sys_source_def list_ok_def)
qed

lemma sys_pod_found:
  "source_GetByUID (''node-1'', sys_source) sys_uid = Inr sys_pod"
  "source_GetByIP (''node-1'', sys_source) ''10.8.0.7'' = Inr sys_pod"
  by code_simp+

lemma sys_bpf_ok: "bpf_ok sys_bpf"
  by (simp add: bpf_ok_def sys_bpf_def example_history_def)

lemma sys_bpf_path: "bpf_path_of sys_bpf example_conn = Some (''/sys/fs/cgroup/kubepods-pod'' @ example_uid @ ''.slice'')"
  by (simp add: bpf_path_of_def sys_bpf_def example_history_def example_conn_def cgroup_path_def example_tree_def live_dir_def)

lemma sys_bpf_owner: "last_owner example_history example_conn = Some 7"
  by (simp add: example_history_def example_conn_def)

lemma sys_bpf_map: "bw_map sys_bpf (conn_key example_conn) = Inr (Some 7)"
proof -
  have "\<forall>s g. OtherOp s g \<in> set example_history \<longrightarrow> other_op s" by (simp add: example_history_def)
  from sock_run_map [OF this, of attest_init example_conn] show ?thesis
    by (simp add: sys_bpf_def sys_bpf_owner)
qed

lemma sys_lookup:
  "at_Lookup (bpf_attestation sys_bpf) (quad_addr (c_src example_conn)) (quad_addr (c_dst example_conn))
     (c_sport example_conn) (c_dport example_conn) = Ret (Inr sys_uid)"
  using sys_bpf_map example_walk sys_uid by (simp add: bpf_attestation_def bpf_Lookup_conn sys_bpf_def)

lemma sys_diag_lookup: "at_Lookup (diag_attestation example_diag) s d p q = Ret (Inr sys_uid)"
  using example_lookup sys_uid by (simp add: diag_attestation_def)

lemma sys_email: "ref_email (sys_server mode at) ref (Some ''web@proj.iam.gserviceaccount.com'')"
  using web_email by (simp add: ref_email_def sys_server_def)

lemma sys_server_ok:
  assumes "\<And>ip dst p q. Is4 (Unmap ip) \<Longrightarrow> Is4 dst \<Longrightarrow> \<exists>x. at_Lookup at ip dst p q = Ret x"
  shows "server_ok (sys_server mode at) (sys_conn t)"
proof -
  have v4: "Is4 (Unmap ip)" if "client (sys_conn t) ip port" for ip port
  proof -
    have "ip = quad_addr (c_src t)" using client_unique [OF accepted_client [OF sys_accepted] that] by simp
    then show ?thesis by (cases "c_src t") (simp add: quad_addr_def Is4_def)
  qed
  show ?thesis
    unfolding server_ok_def
  proof (intro conjI allI impI)
    show "\<exists>x. at_Lookup at' ip dst p q = Ret x"
      if "Attestation (sys_server mode at) = Some at'" "Is4 (Unmap ip)" "Is4 dst" for at' ip dst p q
      using that assms by (simp add: sys_server_def)
  qed (use v4 in \<open>simp_all add: sys_server_def web_server_def Check_def\<close>)
qed

text \<open>A request for the token of the default account of a system whose connection has a pod.\<close>

lemma sys_token_request:
  assumes "conn_pod (sys_server mode at) cn pod"
  obtains st where "serve (sys_server mode at) web_time (incoming cn ''GET'' (sa_path ''default'' ''token'') [] google_header) (fresh web_state) = Ret st"
    "CallServiceAccountToken (ReferenceFromPod pod) \<in> set (sv_calls (app st))"
proof -
  have h: "header_get google_header MetadataFlavorHeader = MetadataFlavorGoogle"
      "Check (env_preflight (sys_server mode at)) preflight_versions = Ret None"
      "Tokens_GetServiceAccountToken (sys_server mode at) (ReferenceFromPod pod) = Ret (Inr (''jwt'', web_time))"
      "Tokens_GetGoogleAccessTokens (sys_server mode at) ''jwt'' (Some ''web@proj.iam.gserviceaccount.com'') (scopes_of (header_get [] ''scopes'')) =
        Ret (Inr (\<lparr>DirectAccess = ''direct'', Impersonated = ''impersonated''\<rparr>, web_time))"
      "plain_piece ''default''"
    by (simp_all add: google_header_def header_get_def sys_server_def web_server_def Check_def plain_piece_def)
  show thesis
    using serve_token [OF assms sys_email _ h(5) h(1-4), of web_time "''GET''" web_state] that by auto
qed

definition sys_host_conn :: conn4 where
  "sys_host_conn = example_conn\<lparr>c_src := (10, 0, 0, 2)\<rparr>"

definition sys_pod_conn :: conn4 where
  "sys_pod_conn = example_conn\<lparr>c_src := (10, 8, 0, 7)\<rparr>"

lemma sys_host: "isHostSourceIP (quad_addr (c_src sys_host_conn)) ''10.0.0.2''" by code_simp

lemma sys_not_host: "\<not> isHostSourceIP (quad_addr (c_src sys_pod_conn)) ''10.0.0.2''" by code_simp

lemma sys_pod_addr: "Addr_String (quad_addr (c_src sys_pod_conn)) = ''10.8.0.7''" by code_simp

section \<open>Readiness and tokens\<close>

text \<open>Instances of what \<open>/readyz\<close> relies on: a verified connection is in the history of the hook.\<close>

lemma verified_recorded:
  assumes "bpf_ok w" "bpf_Verify (bw_map w) (quad_addr (c_src t)) (quad_addr (c_dst t)) (c_sport t) (c_dport t) = Ret None"
  shows "last_owner (bw_events w) t \<noteq> None"
proof -
  obtain g where "bw_map w (conn_key t) = Inr (Some g)"
    using assms(2) by (auto simp: bpf_Verify_def user_key split: sum.splits option.splits)
  then have "map_attest (fold sock_step (bw_events w) attest_init) (conn_key t) = Some g"
    using assms(1) by (simp add: bpf_ok_def)
  moreover have "\<forall>s g. OtherOp s g \<in> set (bw_events w) \<longrightarrow> other_op s" using assms(1) by (simp add: bpf_ok_def)
  note sock_run_map [OF this, of attest_init t]
  ultimately show ?thesis by (auto simp: attest_init_def split: option.splits)
qed

lemma readyz_200:
  assumes "readyz s e st = Ret st'" "w_sent st = None" "map_option fst (w_sent st') = Some 200"
    and "Attestation s = Some at" "rz_local e = Some l" "rz_remote e = Some r"
  shows "at_Verify at (To4 (tcp_IP l)) (To4 (tcp_IP r)) (word_of_int (tcp_Port l)) (word_of_int (tcp_Port r)) = Ret None"
  using readyz_status [OF assms(2,1)] assms(3-6) by (auto split: if_splits)

text \<open>The server without a token cache: its token provider creates every token it is asked for.\<close>

definition uncached :: "token_backend \<Rightarrow> Config \<Rightarrow> server \<Rightarrow> bool" where
  "uncached be c s \<longleftrightarrow>
     (\<forall>ref. Tokens_GetServiceAccountToken s ref = Ret (create_GetServiceAccountToken be c ref)) \<and>
     (\<forall>tok email scopes. Tokens_GetGoogleAccessTokens s tok email scopes =
        Ret (create_GetGoogleAccessTokens be c (env_now s) tok email scopes)) \<and>
     (\<forall>ref acc email aud. Tokens_GetGoogleIdentityToken s ref acc email aud =
        Ret (create_GetGoogleIdentityToken be acc email aud))"

lemma create_tokens_for:
  assumes "Exchange be (ext_config_of c jwt email scopes) = Inr tok" "AccessToken tok \<noteq> []"
    and "\<exists>direct. Exchange be (ext_config_of c jwt None scopes) = Inr direct"
  shows "\<exists>toks t. create_GetGoogleAccessTokens be c now jwt email scopes = Inr (toks, t) \<and>
    (if Impersonated toks \<noteq> [] then Impersonated toks else DirectAccess toks) = AccessToken tok"
  using assms by (cases email) (auto simp: create_GetGoogleAccessTokens_def NewToken_def Let_def ebind_Inr_iff)

lemma exchange_served:
  assumes "uncached be c s" "conn_pod s cn pod" "ref_email s (ReferenceFromPod pod) email"
    and "account = ''default'' \<or> account = (case email of Some e \<Rightarrow> e | None \<Rightarrow> WorkloadIdentityPool s)" "plain_piece account"
    and "header_get headers MetadataFlavorHeader = MetadataFlavorGoogle"
    and "Check (env_preflight s) preflight_versions = Ret None"
    and "CreateToken be (pod_Namespace pod) (pod_ServiceAccountName pod) [WorkloadIdentityProviderAudience c] = Inr (jwt, t0)"
    and "Exchange be (ext_config_of c jwt email (scopes_of (header_get query ''scopes''))) = Inr tok" "AccessToken tok \<noteq> []"
    and "\<exists>direct. Exchange be (ext_config_of c jwt None (scopes_of (header_get query ''scopes''))) = Inr direct"
  shows "\<exists>st' secs. serve s now (incoming cn verb (sa_path account ''token'') query headers) (fresh a) = Ret st' \<and>
    map_option fst (w_sent st') = Some 200 \<and>
    w_body st' = [BJSON (AMap [(''access_token'', AString (AccessToken tok)), (''expires_in'', AInt secs),
      (''token_type'', AString ''Bearer'')])]"
proof -
  let ?scopes = "scopes_of (header_get query ''scopes'')"
  have sa: "Tokens_GetServiceAccountToken s (ReferenceFromPod pod) = Ret (Inr (jwt, t0))"
    using assms(1,8) by (simp add: uncached_def create_GetServiceAccountToken_def ReferenceFromPod_def)
  obtain toks t where toks: "create_GetGoogleAccessTokens be c (env_now s) jwt email ?scopes = Inr (toks, t)"
      "(if Impersonated toks \<noteq> [] then Impersonated toks else DirectAccess toks) = AccessToken tok"
    using create_tokens_for [OF assms(9,10,11)] by blast
  then have "Tokens_GetGoogleAccessTokens s jwt email ?scopes = Ret (Inr (toks, t))" using assms(1) by (simp add: uncached_def)
  from serve_token [OF assms(2-7) sa this, of now verb a] toks(2) show ?thesis by auto
qed

definition sys_self_request :: readyz_env where
  "sys_self_request = \<lparr>rz_request = None, rz_do = Inr (200, Inr ''node-1''),
     rz_local = Some \<lparr>tcp_IP = AddrV4 10 0 0 5, tcp_Port = 40000\<rparr>,
     rz_remote = Some \<lparr>tcp_IP = AddrV4 10 0 0 1, tcp_Port = 16321\<rparr>\<rparr>"

lemma sys_readyz:
  obtains st where "readyz (sys_server mode (bpf_attestation sys_bpf)) sys_self_request (fresh ()) = Ret st"
    "map_option fst (w_sent st) = Some 200"
proof -
  have key: "attest_lookup_key (AddrV4 10 0 0 5) (AddrV4 10 0 0 1) 40000 16321 = Ret (conn_key example_conn)"
    using user_key [of example_conn] by (simp add: example_conn_def quad_addr_def)
  have "readyz (sys_server mode (bpf_attestation sys_bpf)) sys_self_request (fresh ()) = WriteHeader 200 (fresh ())"
    by (simp add: readyz_def sys_server_def web_server_def sys_self_request_def bpf_attestation_def bpf_Verify_def
        To4_def Is4_def key sys_bpf_map)
  then show thesis by (simp add: WriteHeader_def fresh_def that)
qed

text \<open>The pod of a connection from its address, and that it does not depend on the token provider.\<close>

lemma sys_conn_pod: "conn_pod (sys_server RoutingModeNone at) (sys_conn sys_pod_conn) sys_pod"
proof -
  let ?s = "sys_server RoutingModeNone at" and ?cn = "sys_conn sys_pod_conn"
  have s: "RoutingMode ?s \<noteq> RoutingModeBPF" "PodIP ?s = ''10.0.0.2''"
      "\<And>ip i. Pods_GetByIP ?s ip i = source_GetByIP (''node-1'', sys_source) ip" "1 \<le> lookup_attempts ?s"
    by (simp_all add: sys_server_def web_server_def api_defs lookup_attempts_def)
  have "\<not> attested ?s (quad_addr (c_src sys_pod_conn))" using s(1,2) sys_not_host by (simp add: attested_def)
  moreover have "first_pod ?s ?cn (Addr_String (quad_addr (c_src sys_pod_conn))) sys_pod"
    unfolding first_pod_def by (intro exI [of _ 1]) (use s(3,4) sys_pod_found(2) sys_pod_addr in auto)
  ultimately show ?thesis
    using accepted_client [OF sys_accepted, of sys_pod_conn] unfolding conn_pod_def by blast
qed

definition with_backend :: "token_backend \<Rightarrow> Config \<Rightarrow> server \<Rightarrow> server" where
  "with_backend be c s = s\<lparr>Tokens_GetServiceAccountToken := (\<lambda>ref. Ret (create_GetServiceAccountToken be c ref)),
     Tokens_GetGoogleAccessTokens := (\<lambda>tok email scopes. Ret (create_GetGoogleAccessTokens be c (env_now s) tok email scopes)),
     Tokens_GetGoogleIdentityToken := (\<lambda>ref acc email aud. Ret (create_GetGoogleIdentityToken be acc email aud))\<rparr>"

lemma with_backend_uncached: "uncached be c (with_backend be c s)"
  by (simp add: uncached_def with_backend_def)

lemma with_backend_pod: "conn_pod (with_backend be c s) cn pod \<longleftrightarrow> conn_pod s cn pod"
  by (simp add: conn_pod_def conn_uid_def attested_def first_pod_def lookup_attempts_def with_backend_def)

lemma with_backend_email: "ref_email (with_backend be c s) ref email \<longleftrightarrow> ref_email s ref email"
  by (simp add: ref_email_def with_backend_def)

text \<open>An emulator in a cgroup of its own, whose route leads to the address of the example connection.\<close>

definition sys_redirect_env :: redirect_env where
  "sys_redirect_env = example_redirect_env\<lparr>re_stat := (\<lambda>_. Inr 3)\<rparr>"

lemma sys_redirect_cgroup: "selfCgroupID sys_redirect_env = Inr 3"
  by code_simp

lemma sys_redirect_load:
  "\<exists>st'. redirect_LoadAndAttach sys_redirect_env (quad_addr (c_dst example_conn)) 16321 redirect_init = Ret (Inr CloseRedirect, st')"
  unfolding redirect_LoadAndAttach_def sys_redirect_cgroup
  by (simp add: sys_redirect_env_def example_redirect_env_def As4_quad Let_def)

lemma sys_recorded: "recorded sys_bpf example_conn 7"
proof -
  have "bw_events sys_bpf = [Connect example_conn 9, Connect (example_conn\<lparr>c_sport := 40001\<rparr>) 8] @ Connect example_conn 7 #
      [Connect (example_conn\<lparr>c_src := (10, 0, 0, 6)\<rparr>) 9]"
    by (simp add: sys_bpf_def example_history_def)
  moreover have "last_owner [Connect (example_conn\<lparr>c_src := (10, 0, 0, 6)\<rparr>) 9] example_conn = None"
    by (simp add: example_conn_def)
  moreover have "\<forall>s g. OtherOp s g \<in> set (bw_events sys_bpf) \<longrightarrow> other_op s"
    by (simp add: sys_bpf_def example_history_def)
  moreover have "bw_map sys_bpf (conn_key example_conn) =
      Inr (map_attest (fold sock_step (bw_events sys_bpf) attest_init) (conn_key example_conn))"
    by (simp add: sys_bpf_def)
  ultimately show ?thesis unfolding recorded_def by blast
qed

end
