(* ===== verification/Token_Cache.thy ===== *)
theory Token_Cache
  imports Google_Credentials Service_Accounts
begin

text \<open>
  \<open>internal/serviceaccounttokens/cache/tokens.go\<close> and the parts of \<open>cache/provider.go\<close> that do not involve
  goroutines: the expiration of a cached token on two clocks, the creation of the tokens of a service
  account, the caches of identity tokens and of tokens with custom scopes, and their garbage collection.
  One method call reads the clock at one instant \<open>now\<close>.
\<close>

section \<open>tokens.go\<close>

record 'a tokenAndExpiration =
  token :: 'a
  monotonicExpiration :: gotime
  wallClockExpiration :: gotime

definition newToken :: "gotime \<Rightarrow> 'a \<Rightarrow> gotime \<Rightarrow> duration \<Rightarrow> 'a tokenAndExpiration" where
  "newToken now tok monoExpiration maxTokenDuration =
     (let duration = Sub monoExpiration now;
          effectiveDuration = go_quot (wrap64 (duration * 8)) 10;
          maxDuration = (if maxTokenDuration > Hour then Hour else maxTokenDuration);
          effectiveDuration = (if maxDuration > 0 \<and> effectiveDuration > maxDuration then maxDuration else effectiveDuration);
          effectiveExpiration = Add now effectiveDuration
      in \<lparr>token = tok, monotonicExpiration = effectiveExpiration,
          wallClockExpiration = time_Unix (Unix effectiveExpiration)\<rparr>)"

definition expiration :: "gotime \<Rightarrow> 'a tokenAndExpiration \<Rightarrow> gotime" where
  "expiration now t =
     (if Sub (monotonicExpiration t) now < Sub (wallClockExpiration t) now
      then monotonicExpiration t else wallClockExpiration t)"

definition timeUntilExpiration :: "gotime \<Rightarrow> 'a tokenAndExpiration \<Rightarrow> duration" where
  "timeUntilExpiration now t = Sub (expiration now t) now"

definition isExpired :: "gotime \<Rightarrow> 'a tokenAndExpiration \<Rightarrow> bool" where
  "isExpired now t \<longleftrightarrow> timeUntilExpiration now t \<le> 0"

record tokens =
  serviceAccountToken :: "string tokenAndExpiration"
  googleAccessTokens :: "AccessTokens tokenAndExpiration"

definition tokens_timeUntilExpiration :: "gotime \<Rightarrow> tokens \<Rightarrow> duration" where
  "tokens_timeUntilExpiration now t =
     (let d = timeUntilExpiration now (serviceAccountToken t);
          google = timeUntilExpiration now (googleAccessTokens t)
      in if google < d then google else d)"

record googleIDTokenReference =
  id_sa :: Reference
  id_email :: string
  id_audience :: string

record googleScopedAccessTokenReference =
  sc_sa :: Reference
  sc_email :: string
  sc_scopes :: string

text \<open>The source of the tokens, an implementation of \<open>serviceaccounttokens.Provider\<close>; \<open>create_source\<close> is
  the creating provider at a given instant.\<close>

record token_source =
  src_GetServiceAccountToken :: "Reference \<Rightarrow> (string \<times> gotime) res"
  src_GetGoogleAccessTokens :: "string \<Rightarrow> string option \<Rightarrow> string list \<Rightarrow> (AccessTokens \<times> gotime) res"
  src_GetGoogleIdentityToken :: "Reference \<Rightarrow> string \<Rightarrow> string \<Rightarrow> string \<Rightarrow> (string \<times> gotime) res"

definition create_source :: "token_backend \<Rightarrow> Config \<Rightarrow> gotime \<Rightarrow> token_source" where
  "create_source be c now =
     \<lparr>src_GetServiceAccountToken = create_GetServiceAccountToken be c,
      src_GetGoogleAccessTokens = create_GetGoogleAccessTokens be c now,
      src_GetGoogleIdentityToken = (\<lambda>_. create_GetGoogleIdentityToken be)\<rparr>"

definition createTokens :: "(Reference \<Rightarrow> kube_sa res) \<Rightarrow> token_source \<Rightarrow> gotime \<Rightarrow> duration \<Rightarrow> Reference \<Rightarrow>
    (tokens \<times> string option) res" where
  "createTokens Get src now maxTokenDuration saRef =
     ebind (map_err (errorf ''error getting kubernetes service account: '') (Get saRef)) (\<lambda>sa.
     ebind (map_err (errorf ''error getting google service account email from kubernetes service account: '')
              (GoogleServiceAccountEmail sa)) (\<lambda>email.
     ebind (map_err (errorf ''error creating token for kubernetes service account: '')
              (src_GetServiceAccountToken src saRef)) (\<lambda>(saToken, saTokenExpiration).
     ebind (map_err (errorf ''error creating google access token: '')
              (src_GetGoogleAccessTokens src saToken email [])) (\<lambda>(accessTokens, accessTokenExpiration).
     Inr (\<lparr>serviceAccountToken = newToken now saToken saTokenExpiration maxTokenDuration,
           googleAccessTokens = newToken now accessTokens accessTokenExpiration maxTokenDuration\<rparr>, email)))))"

section \<open>The input-dependent caches\<close>

record token_caches =
  googleIDTokens :: "googleIDTokenReference \<Rightarrow> string tokenAndExpiration option"
  googleScopedAccessTokens :: "googleScopedAccessTokenReference \<Rightarrow> string tokenAndExpiration option"

text \<open>The garbage collector's round.\<close>

definition drop_expired :: "gotime \<Rightarrow> ('k \<Rightarrow> 'a tokenAndExpiration option) \<Rightarrow> 'k \<Rightarrow> 'a tokenAndExpiration option" where
  "drop_expired now m = (\<lambda>k. case m k of Some t \<Rightarrow> if isExpired now t then None else Some t | None \<Rightarrow> None)"

definition collect_garbage :: "gotime \<Rightarrow> token_caches \<Rightarrow> token_caches" where
  "collect_garbage now p =
     p\<lparr>googleIDTokens := drop_expired now (googleIDTokens p),
       googleScopedAccessTokens := drop_expired now (googleScopedAccessTokens p)\<rparr>"

text \<open>The outcome of acquiring the semaphore.\<close>

datatype acquire = Acquired | RequestDone goerr | ProcessDone goerr

fun acquire_error :: "acquire \<Rightarrow> goerr option" where
  "acquire_error Acquired = None"
| "acquire_error (RequestDone e) = Some (errorf ''request context done while acquiring semaphore: '' e)"
| "acquire_error (ProcessDone e) = Some (errorf ''process terminated while acquiring semaphore: '' e)"

text \<open>The part of \<open>GetGoogleAccessTokens\<close> for custom scopes, after the reference was read from the token.
  \<open>now\<close> is the instant of the cache lookup and \<open>now'\<close> the instant after the exchange.\<close>

definition scoped_ref :: "Reference \<Rightarrow> string option \<Rightarrow> string list \<Rightarrow> googleScopedAccessTokenReference" where
  "scoped_ref saRef googleEmail scopes =
     \<lparr>sc_sa = saRef, sc_email = (case googleEmail of Some e \<Rightarrow> e | None \<Rightarrow> []), sc_scopes = Join scopes '',''\<rparr>"

definition GetGoogleAccessTokens_scoped :: "token_source \<Rightarrow> duration \<Rightarrow> gotime \<Rightarrow> gotime \<Rightarrow> acquire \<Rightarrow> Reference \<Rightarrow>
    string \<Rightarrow> string option \<Rightarrow> string list \<Rightarrow> token_caches \<Rightarrow> (AccessTokens \<times> gotime) res \<times> token_caches" where
  "GetGoogleAccessTokens_scoped src maxTokenDuration now now' acq saRef saToken googleEmail scopes p =
     (let ref = scoped_ref saRef googleEmail scopes;
          hit = (case googleScopedAccessTokens p ref of
                   Some t \<Rightarrow> if isExpired now t then None else Some t | None \<Rightarrow> None)
      in case hit of
           Some t \<Rightarrow> (Inr (\<lparr>DirectAccess = token t, Impersonated = []\<rparr>, expiration now t), p)
         | None \<Rightarrow>
             (case acquire_error acq of
                Some err \<Rightarrow> (Inl err, p)
              | None \<Rightarrow>
                  (case src_GetGoogleAccessTokens src saToken googleEmail scopes of
                     Inl err \<Rightarrow> (Inl err, p)
                   | Inr (tokens, exp) \<Rightarrow>
                       (let tokenString = (if DirectAccess tokens = [] then Impersonated tokens else DirectAccess tokens);
                            t = newToken now' tokenString exp maxTokenDuration
                        in (Inr (\<lparr>DirectAccess = token t, Impersonated = []\<rparr>, expiration now' t),
                            p\<lparr>googleScopedAccessTokens := (googleScopedAccessTokens p)(ref \<mapsto> t)\<rparr>)))))"

definition cache_GetGoogleIdentityToken :: "token_source \<Rightarrow> duration \<Rightarrow> gotime \<Rightarrow> gotime \<Rightarrow> acquire \<Rightarrow> Reference \<Rightarrow>
    string \<Rightarrow> string \<Rightarrow> string \<Rightarrow> token_caches \<Rightarrow> (string \<times> gotime) res \<times> token_caches" where
  "cache_GetGoogleIdentityToken src maxTokenDuration now now' acq saRef accessToken googleEmail audience p =
     (let ref = \<lparr>id_sa = saRef, id_email = googleEmail, id_audience = audience\<rparr>;
          hit = (case googleIDTokens p ref of
                   Some t \<Rightarrow> if isExpired now t then None else Some t | None \<Rightarrow> None)
      in case hit of
           Some t \<Rightarrow> (Inr (token t, expiration now t), p)
         | None \<Rightarrow>
             (case acquire_error acq of
                Some err \<Rightarrow> (Inl err, p)
              | None \<Rightarrow>
                  (case src_GetGoogleIdentityToken src saRef accessToken googleEmail audience of
                     Inl err \<Rightarrow> (Inl err, p)
                   | Inr (tokenString, exp) \<Rightarrow>
                       (let t = newToken now' tokenString exp maxTokenDuration
                        in (Inr (token t, expiration now' t), p\<lparr>googleIDTokens := (googleIDTokens p)(ref \<mapsto> t)\<rparr>)))))"

section \<open>Laws of the expiration\<close>

lemma isExpired_either: "isExpired now t \<longleftrightarrow> Sub (monotonicExpiration t) now \<le> 0 \<or> Sub (wallClockExpiration t) now \<le> 0"
  by (auto simp: isExpired_def timeUntilExpiration_def expiration_def)

lemma expiration_future: "\<not> isExpired now t \<Longrightarrow> 0 < Sub (expiration now t) now"
  by (simp add: isExpired_def timeUntilExpiration_def)

text \<open>The lifetime a token of duration \<open>d\<close> gets.\<close>

definition effective :: "duration \<Rightarrow> duration \<Rightarrow> duration" where
  "effective maxTokenDuration d =
     (let cap = min maxTokenDuration Hour; e = d * 8 div 10 in if 0 < cap \<and> cap < e then cap else e)"

lemma newToken_effective:
  assumes "0 \<le> Sub e now" "in64 (Sub e now * 8)"
  shows "monotonicExpiration (newToken now tok e maxDur) = Add now (effective maxDur (Sub e now))"
    and "wallClockExpiration (newToken now tok e maxDur) = time_Unix (Unix (Add now (effective maxDur (Sub e now))))"
    and "token (newToken now tok e maxDur) = tok"
  using assms by (auto simp: newToken_def effective_def go_quot_nonneg Let_def min_def)

lemma effective_bounds:
  assumes "0 \<le> d"
  shows "0 \<le> effective maxDur d" "10 * effective maxDur d \<le> 8 * d" "0 < maxDur \<Longrightarrow> effective maxDur d \<le> min maxDur Hour"
  using assms by (auto simp: effective_def Let_def min_def duration_defs)

section \<open>Runs of the input-dependent caches\<close>

record cache_call =
  cc_src :: token_source
  cc_max :: duration
  cc_now :: gotime
  cc_now' :: gotime
  cc_acq :: acquire
  cc_ref :: Reference

datatype cache_op =
    OpScoped cache_call string "string option" "string list"
  | OpID cache_call string string string
  | OpGC gotime

definition scoped_call :: "cache_call \<Rightarrow> string \<Rightarrow> string option \<Rightarrow> string list \<Rightarrow> token_caches \<Rightarrow>
    (AccessTokens \<times> gotime) res \<times> token_caches" where
  "scoped_call cc = GetGoogleAccessTokens_scoped (cc_src cc) (cc_max cc) (cc_now cc) (cc_now' cc) (cc_acq cc) (cc_ref cc)"

definition id_call :: "cache_call \<Rightarrow> string \<Rightarrow> string \<Rightarrow> string \<Rightarrow> token_caches \<Rightarrow> (string \<times> gotime) res \<times> token_caches" where
  "id_call cc = cache_GetGoogleIdentityToken (cc_src cc) (cc_max cc) (cc_now cc) (cc_now' cc) (cc_acq cc) (cc_ref cc)"

fun cache_step :: "cache_op \<Rightarrow> token_caches \<Rightarrow> token_caches" where
  "cache_step (OpScoped cc saToken email scopes) p = snd (scoped_call cc saToken email scopes p)"
| "cache_step (OpID cc accessToken email audience) p = snd (id_call cc accessToken email audience p)"
| "cache_step (OpGC now) p = collect_garbage now p"

definition no_tokens :: token_caches where
  "no_tokens = \<lparr>googleIDTokens = Map.empty, googleScopedAccessTokens = Map.empty\<rparr>"

definition chosen :: "AccessTokens \<Rightarrow> string" where
  "chosen t = (if DirectAccess t = [] then Impersonated t else DirectAccess t)"

text \<open>The calls of a run in which the source issued a token.\<close>

fun scoped_by :: "googleScopedAccessTokenReference \<Rightarrow> string \<Rightarrow> cache_op \<Rightarrow> bool" where
  "scoped_by ref tok (OpScoped cc saToken email scopes) \<longleftrightarrow>
     ref = scoped_ref (cc_ref cc) email scopes \<and>
     (\<exists>tokens e. src_GetGoogleAccessTokens (cc_src cc) saToken email scopes = Inr (tokens, e) \<and> tok = chosen tokens)"
| "scoped_by ref tok _ \<longleftrightarrow> False"

fun id_by :: "googleIDTokenReference \<Rightarrow> string \<Rightarrow> cache_op \<Rightarrow> bool" where
  "id_by ref tok (OpID cc accessToken email audience) \<longleftrightarrow>
     ref = \<lparr>id_sa = cc_ref cc, id_email = email, id_audience = audience\<rparr> \<and>
     (\<exists>e. src_GetGoogleIdentityToken (cc_src cc) (cc_ref cc) accessToken email audience = Inr (tok, e))"
| "id_by ref tok _ \<longleftrightarrow> False"

abbreviation scoped_issued :: "cache_op list \<Rightarrow> googleScopedAccessTokenReference \<Rightarrow> string \<Rightarrow> bool" where
  "scoped_issued ops ref tok \<equiv> list_ex (scoped_by ref tok) ops"

abbreviation id_issued :: "cache_op list \<Rightarrow> googleIDTokenReference \<Rightarrow> string \<Rightarrow> bool" where
  "id_issued ops ref tok \<equiv> list_ex (id_by ref tok) ops"

lemma token_newToken [simp]: "token (newToken now tok e m) = tok"
  by (simp add: newToken_def Let_def)

lemma scoped_call_cache:
  assumes "scoped_call cc saToken email scopes p = (res, p')"
  shows "googleIDTokens p' = googleIDTokens p"
    and "googleScopedAccessTokens p' k = Some t \<Longrightarrow>
      googleScopedAccessTokens p k = Some t \<or> scoped_issued [OpScoped cc saToken email scopes] k (token t)"
    and "res = Inr (tok, e) \<Longrightarrow> Impersonated tok = [] \<and>
      ((\<exists>t. googleScopedAccessTokens p (scoped_ref (cc_ref cc) email scopes) = Some t \<and> \<not> isExpired (cc_now cc) t \<and>
          DirectAccess tok = token t \<and> e = expiration (cc_now cc) t) \<or>
       scoped_issued [OpScoped cc saToken email scopes] (scoped_ref (cc_ref cc) email scopes) (DirectAccess tok))"
  using assms
  by (auto simp: scoped_call_def GetGoogleAccessTokens_scoped_def chosen_def [symmetric] Let_def
      split: option.splits sum.splits if_splits)

lemma id_call_cache:
  assumes "id_call cc accessToken email audience p = (res, p')"
  shows "googleScopedAccessTokens p' = googleScopedAccessTokens p"
    and "googleIDTokens p' k = Some t \<Longrightarrow>
      googleIDTokens p k = Some t \<or> id_issued [OpID cc accessToken email audience] k (token t)"
    and "res = Inr (tok, e) \<Longrightarrow>
      (\<exists>t. googleIDTokens p \<lparr>id_sa = cc_ref cc, id_email = email, id_audience = audience\<rparr> = Some t \<and>
          \<not> isExpired (cc_now cc) t \<and> tok = token t \<and> e = expiration (cc_now cc) t) \<or>
      id_issued [OpID cc accessToken email audience] \<lparr>id_sa = cc_ref cc, id_email = email, id_audience = audience\<rparr> tok"
  using assms
  by (auto simp: id_call_def cache_GetGoogleIdentityToken_def Let_def
      split: option.splits sum.splits if_splits)

lemma cached_issued:
  "googleScopedAccessTokens (fold cache_step ops no_tokens) k = Some t \<Longrightarrow> scoped_issued ops k (token t)"
  "googleIDTokens (fold cache_step ops no_tokens) k' = Some t \<Longrightarrow> id_issued ops k' (token t)"
proof (induction ops arbitrary: k k' t rule: rev_induct)
  case (snoc op ops)
  let ?p = "fold cache_step ops no_tokens"
  { case 1
    show ?case
    proof (cases op)
      case (OpScoped cc saToken email scopes)
      then show ?thesis using 1 snoc.IH scoped_call_cache(2) [of cc saToken email scopes ?p, OF surjective_pairing, of k t]
        by auto
    next
      case (OpID cc accessToken email audience)
      then show ?thesis using 1 snoc id_call_cache(1) [of cc accessToken email audience ?p, OF surjective_pairing]
        by auto
    next
      case (OpGC now)
      then show ?thesis using 1 snoc
        by (auto simp: collect_garbage_def drop_expired_def split: option.splits if_splits)
    qed
  next
    case 2
    show ?case
    proof (cases op)
      case (OpScoped cc saToken email scopes)
      then show ?thesis using 2 snoc scoped_call_cache(1) [of cc saToken email scopes ?p, OF surjective_pairing]
        by auto
    next
      case (OpID cc accessToken email audience)
      then show ?thesis using 2 snoc.IH id_call_cache(2) [of cc accessToken email audience ?p, OF surjective_pairing, of k' t]
        by auto
    next
      case (OpGC now)
      then show ?thesis using 2 snoc
        by (auto simp: collect_garbage_def drop_expired_def split: option.splits if_splits)
    qed
  }
qed (simp_all add: no_tokens_def)


text \<open>Scopes as the server passes them: the non-empty pieces of a comma-separated list.\<close>

definition scopes_ok :: "string list \<Rightarrow> bool" where
  "scopes_ok scopes \<longleftrightarrow> scopes \<noteq> [] \<and> (\<forall>s\<in>set scopes. CHR '','' \<notin> set s)"

lemma scoped_ref_inj:
  assumes "scoped_ref r email scopes = scoped_ref r' email' scopes'" "scopes_ok scopes" "scopes_ok scopes'"
    and "email \<noteq> Some []" "email' \<noteq> Some []"
  shows "r = r' \<and> email = email' \<and> scopes = scopes'"
proof -
  have "Join scopes [CHR '',''] = Join scopes' [CHR '','']" "r = r'"
      "(case email of Some e \<Rightarrow> e | None \<Rightarrow> []) = (case email' of Some e \<Rightarrow> e | None \<Rightarrow> [])"
    using assms(1) by (auto simp: scoped_ref_def)
  then show ?thesis
    using Join_inj [of scopes scopes' "CHR '',''"] assms(2-5) by (auto simp: scopes_ok_def split: option.splits)
qed

fun op_ok :: "cache_op \<Rightarrow> bool" where
  "op_ok (OpScoped cc saToken email scopes) \<longleftrightarrow> scopes_ok scopes \<and> email \<noteq> Some []"
| "op_ok _ \<longleftrightarrow> True"

section \<open>Properties\<close>

text \<open>C26. A cached token lives for 80% of its remaining validity, at most the configured duration and at most
  one hour. It counts as expired exactly when that time has passed on the monotonic clock or when the wall
  clock has reached the expiration rounded down to a second, so a jump of either clock can only shorten
  its life.\<close>

theorem cached_token_lifetime:
  assumes "mono now = Some m" "mono later = Some l" "0 \<le> Sub e now" "in64 (Sub e now * 8)"
    and "in64 (m + effective maxDur (Sub e now))"
  shows "(isExpired later (newToken now tok e maxDur) \<longleftrightarrow>
      m + effective maxDur (Sub e now) \<le> l \<or>
      (wall now + effective maxDur (Sub e now)) div Second * Second \<le> wall later) \<and>
    0 \<le> effective maxDur (Sub e now) \<and> 10 * effective maxDur (Sub e now) \<le> 8 * Sub e now \<and>
    (0 < maxDur \<longrightarrow> effective maxDur (Sub e now) \<le> min maxDur Hour)"
  using effective_bounds [OF assms(3), of maxDur] newToken_effective [OF assms(3,4), of tok maxDur] assms(1,2,5)
  by (auto simp: isExpired_either Sub_def Add_def time_Unix_def Unix_def sat64_le_0_iff)

theorem cached_token_lifetime_witness:
  "isExpired \<lparr>wall = 2000 * Second, mono = Some (5000 * Second)\<rparr>
     (newToken \<lparr>wall = 1000 * Second, mono = Some (50 * Second)\<rparr> ''tok'' (time_Unix 1100) 0)"
  using cached_token_lifetime [of "\<lparr>wall = 1000 * Second, mono = Some (50 * Second)\<rparr>" "50 * Second"
      "\<lparr>wall = 2000 * Second, mono = Some (5000 * Second)\<rparr>" "5000 * Second" "time_Unix 1100" 0 "''tok''"]
  by (simp add: Sub_def time_Unix_def sat64_def int64_defs effective_def duration_defs)

text \<open>C27. A token with custom scopes comes from the cache only for the same service account, the same
  impersonated account and the same list of scopes: whatever calls and garbage collections came before, the
  token returned was issued by the source for exactly these, by this call or an earlier one.\<close>

theorem scoped_tokens_sound:
  assumes "\<forall>op\<in>set ops. op_ok op" "scopes_ok scopes" "email \<noteq> Some []"
    and "scoped_call cc saToken email scopes (fold cache_step ops no_tokens) = (Inr (tok, e), p')"
  shows "\<exists>cc' saToken' tokens e'. OpScoped cc' saToken' email scopes \<in> set (ops @ [OpScoped cc saToken email scopes]) \<and>
    cc_ref cc' = cc_ref cc \<and>
    src_GetGoogleAccessTokens (cc_src cc') saToken' email scopes = Inr (tokens, e') \<and>
    DirectAccess tok = chosen tokens"
proof -
  let ?k = "scoped_ref (cc_ref cc) email scopes"
  have "scoped_issued ops ?k (DirectAccess tok) \<or> scoped_by ?k (DirectAccess tok) (OpScoped cc saToken email scopes)"
    using scoped_call_cache(3) [OF assms(4) refl] cached_issued(1) [of ops ?k] by auto
  then obtain op where op: "op \<in> set (ops @ [OpScoped cc saToken email scopes])" "scoped_by ?k (DirectAccess tok) op"
    by (auto simp: list_ex_iff simp del: scoped_by.simps)
  from op(2) obtain cc' saToken' email' scopes' where o: "op = OpScoped cc' saToken' email' scopes'"
    by (cases op) auto
  have "scopes_ok scopes'" "email' \<noteq> Some []" using assms(1-3) op(1) o by auto
  then have "cc_ref cc = cc_ref cc' \<and> email = email' \<and> scopes = scopes'"
    using scoped_ref_inj [of "cc_ref cc" email scopes "cc_ref cc'" email' scopes'] op(2) o assms(2,3) by simp
  then show ?thesis using op o by auto
qed

definition example_source :: token_source where
  "example_source = \<lparr>src_GetServiceAccountToken = (\<lambda>ref. Inr (ref_Name ref, time_Unix 5000)),
     src_GetGoogleAccessTokens = (\<lambda>saToken email scopes. Inr (\<lparr>DirectAccess = saToken @ concat scopes, Impersonated = []\<rparr>, time_Unix 5000)),
     src_GetGoogleIdentityToken = (\<lambda>ref tok email aud. Inr (aud, time_Unix 5000))\<rparr>"

definition example_call :: cache_call where
  "example_call = \<lparr>cc_src = example_source, cc_max = Hour, cc_now = time_Unix 1000, cc_now' = time_Unix 1000,
     cc_acq = Acquired, cc_ref = \<lparr>ref_Name = ''sa'', ref_Namespace = ''ns''\<rparr>\<rparr>"

theorem scoped_tokens_sound_witness:
  "\<exists>cc' saToken' tokens e'. OpScoped cc' saToken' None [''a'', ''b''] \<in>
      set ([OpScoped example_call ''t1'' None [''a'', ''b'']] @ [OpScoped example_call ''t2'' None [''a'', ''b'']]) \<and>
    cc_ref cc' = cc_ref example_call \<and>
    src_GetGoogleAccessTokens (cc_src cc') saToken' None [''a'', ''b''] = Inr (tokens, e') \<and> ''t1ab'' = chosen tokens"
proof -
  let ?t = "newToken (time_Unix 1000) ''t1ab'' (time_Unix 5000) Hour"
  have t: "\<not> isExpired (time_Unix 1000) ?t"
    by code_simp
  obtain p1 where p1: "fold cache_step [OpScoped example_call ''t1'' None [''a'', ''b'']] no_tokens = p1"
      "googleScopedAccessTokens p1 (scoped_ref (cc_ref example_call) None [''a'', ''b'']) = Some ?t"
    by (simp add: scoped_call_def GetGoogleAccessTokens_scoped_def no_tokens_def example_call_def example_source_def Let_def)
  have "scoped_call example_call ''t2'' None [''a'', ''b''] p1 =
      (Inr (\<lparr>DirectAccess = ''t1ab'', Impersonated = []\<rparr>, expiration (time_Unix 1000) ?t), p1)"
    using p1(2) t by (simp add: scoped_call_def GetGoogleAccessTokens_scoped_def example_call_def)
  then show ?thesis
    using scoped_tokens_sound [of "[OpScoped example_call ''t1'' None [''a'', ''b'']]" "[''a'', ''b'']" None example_call "''t2''"
        "\<lparr>DirectAccess = ''t1ab'', Impersonated = []\<rparr>"] p1(1)
    by (simp add: scopes_ok_def)
qed


text \<open>An identity token comes from the cache only for the same service account, Google account and
  audience: the token returned was issued by the source for exactly these, by this call or an earlier one,
  and an unexpired token in the cache is always used, with an expiration in the future.\<close>

lemma identity_tokens_sound:
  assumes "id_call cc accessToken email audience (fold cache_step ops no_tokens) = (Inr (tok, e), p')"
  shows "(\<exists>cc' accessToken' e'. OpID cc' accessToken' email audience \<in> set (ops @ [OpID cc accessToken email audience]) \<and>
      cc_ref cc' = cc_ref cc \<and>
      src_GetGoogleIdentityToken (cc_src cc') (cc_ref cc) accessToken' email audience = Inr (tok, e')) \<and>
    (\<forall>t. googleIDTokens (fold cache_step ops no_tokens) \<lparr>id_sa = cc_ref cc, id_email = email, id_audience = audience\<rparr> = Some t \<longrightarrow>
      \<not> isExpired (cc_now cc) t \<longrightarrow>
      tok = token t \<and> 0 < Sub e (cc_now cc) \<and> p' = fold cache_step ops no_tokens)"
proof -
  let ?k = "\<lparr>id_sa = cc_ref cc, id_email = email, id_audience = audience\<rparr>"
  have "id_issued ops ?k tok \<or> id_by ?k tok (OpID cc accessToken email audience)"
    using id_call_cache(3) [OF assms refl] cached_issued(2) [of ops ?k] by auto
  then obtain op where op: "op \<in> set (ops @ [OpID cc accessToken email audience])" "id_by ?k tok op"
    by (auto simp: list_ex_iff simp del: id_by.simps)
  from op(2) obtain cc' a' email' audience' where "op = OpID cc' a' email' audience'"
    by (cases op) auto
  moreover have "tok = token t \<and> 0 < Sub e (cc_now cc) \<and> p' = fold cache_step ops no_tokens"
    if "googleIDTokens (fold cache_step ops no_tokens) ?k = Some t" "\<not> isExpired (cc_now cc) t" for t
    using assms that expiration_future [OF that(2)] by (simp add: id_call_def cache_GetGoogleIdentityToken_def)
  ultimately show ?thesis using op by auto
qed


lemma identity_tokens_sound_example:
  "\<exists>cc' accessToken' e'. OpID cc' accessToken' ''g@p'' ''aud'' \<in> set ([] @ [OpID example_call ''tok'' ''g@p'' ''aud'']) \<and>
     cc_ref cc' = cc_ref example_call \<and>
     src_GetGoogleIdentityToken (cc_src cc') (cc_ref example_call) accessToken' ''g@p'' ''aud'' = Inr (''aud'', e')"
proof -
  obtain e p' where "id_call example_call ''tok'' ''g@p'' ''aud'' (fold cache_step [] no_tokens) = (Inr (''aud'', e), p')"
    by (simp add: id_call_def cache_GetGoogleIdentityToken_def no_tokens_def example_call_def example_source_def Let_def)
  from identity_tokens_sound [OF this] show ?thesis by blast
qed

end
