(* ===== verification/Token_Cache_Machine.thy ===== *)
theory Token_Cache_Machine
  imports Token_Cache
begin

text \<open>
  \<open>internal/serviceaccounttokens/cache/service_accounts.go\<close> and the goroutines of \<open>cache/provider.go\<close>: the
  map of service accounts, one goroutine \<open>cacheTokens\<close> per service account, the requests of the metadata
  server, and the semaphore, as a step relation whose steps are the critical sections and channel
  operations of the source. A service account object and its goroutine are one cell, addressed by a number
  as a pointer; the map holds the address, and an object outlives its entry in the map.
\<close>

section \<open>State\<close>

definition errServiceAccountDeleted :: goerr where
  "errServiceAccountDeleted = Sentinel ''service account was deleted''"

text \<open>A \<open>tokensAndError\<close>: tokens, an error, or neither.\<close>

datatype response = RespTokens tokens | RespErr goerr | RespNothing

text \<open>Where \<open>cacheTokens\<close> is: at the first check of the loop, acquiring the semaphore, creating tokens,
  with the result before the second check, asleep, returning before the deferred call, or gone.\<close>

datatype gphase =
    GCheck
  | GAcquire
  | GCreate
  | GCreated "(tokens \<times> string option) res"
  | GSleep duration
  | GReturn
  | GExit

text \<open>The object with its channel (of capacity one; \<open>None\<close> is a nil request) and the local variables of
  its goroutine.\<close>

record serviceAccount =
  sa_Reference :: Reference
  podCount :: int
  sa_deleted :: bool
  sa_tokens :: "tokens option"
  externalRequests :: "nat option list"
  g_phase :: gphase
  g_retries :: nat
  g_pending :: "nat option list"

text \<open>A caller of \<open>getTokens\<close>: before reading \<open>sa.tokens\<close>, sending its request, waiting for the response,
  or returned, with \<open>Inr None\<close> for a nil pointer and a nil error.\<close>

datatype rphase =
    RRead nat
  | RDispatch nat
  | RWait nat
  | RDone "tokens option res"

record requester =
  r_ref :: Reference
  r_phase :: rphase

record tcache =
  tc_sas :: "Reference \<Rightarrow> nat option"
  tc_cells :: "nat \<Rightarrow> serviceAccount option"
  tc_req :: "nat \<Rightarrow> requester option"
  tc_chan :: "nat \<Rightarrow> response list"
  tc_numTokens :: int
  tc_cacheMisses :: nat
  tc_others :: nat
  tc_done :: bool

definition NewProvider :: tcache where
  "NewProvider = \<lparr>tc_sas = Map.empty, tc_cells = Map.empty, tc_req = Map.empty, tc_chan = (\<lambda>_. []),
     tc_numTokens = 0, tc_cacheMisses = 0, tc_others = 0, tc_done = False\<rparr>"

definition upd :: "nat \<Rightarrow> (serviceAccount \<Rightarrow> serviceAccount) \<Rightarrow> tcache \<Rightarrow> tcache" where
  "upd i f st = st\<lparr>tc_cells := (tc_cells st)(i := map_option f (tc_cells st i))\<rparr>"

section \<open>service\_accounts.go\<close>

definition addServiceAccount :: "nat \<Rightarrow> Reference \<Rightarrow> int \<Rightarrow> tcache \<Rightarrow> tcache" where
  "addServiceAccount i ref count st =
     st\<lparr>tc_cells := (tc_cells st)(i \<mapsto> \<lparr>sa_Reference = ref, podCount = count, sa_deleted = False, sa_tokens = None,
          externalRequests = [], g_phase = GCheck, g_retries = 0, g_pending = []\<rparr>),
        tc_sas := (tc_sas st)(ref \<mapsto> i), tc_numTokens := tc_numTokens st + 1\<rparr>"

text \<open>\<open>i\<close> is the address of the object that is allocated if one is needed.\<close>

definition AddPodServiceAccount :: "nat \<Rightarrow> Reference \<Rightarrow> tcache \<Rightarrow> tcache" where
  "AddPodServiceAccount i ref st =
     (case tc_sas st ref of
        Some j \<Rightarrow> upd j (\<lambda>sa. sa\<lparr>podCount := podCount sa + 1\<rparr>) st
      | None \<Rightarrow> addServiceAccount i ref 1 st)"

definition remove_pod :: "serviceAccount \<Rightarrow> serviceAccount" where
  "remove_pod sa = (if podCount sa > 0 then sa\<lparr>podCount := podCount sa - 1\<rparr> else sa)"

definition DeletePodServiceAccount :: "Reference \<Rightarrow> tcache \<Rightarrow> tcache" where
  "DeletePodServiceAccount ref st =
     (case tc_sas st ref of
        Some j \<Rightarrow> upd j remove_pod st
      | None \<Rightarrow> st)"

text \<open>The select with a default: a nil request if the channel has room.\<close>

definition notify :: "serviceAccount \<Rightarrow> serviceAccount" where
  "notify sa = (if externalRequests sa = [] then sa\<lparr>externalRequests := [None]\<rparr> else sa)"

definition UpdateServiceAccount :: "Reference \<Rightarrow> tcache \<Rightarrow> tcache" where
  "UpdateServiceAccount ref st =
     (case tc_sas st ref of
        Some j \<Rightarrow> upd j (\<lambda>sa. notify (sa\<lparr>sa_deleted := False\<rparr>)) st
      | None \<Rightarrow> st)"

definition DeleteServiceAccount :: "Reference \<Rightarrow> tcache \<Rightarrow> tcache" where
  "DeleteServiceAccount ref st =
     (case tc_sas st ref of
        Some j \<Rightarrow> upd j (\<lambda>sa. notify (sa\<lparr>sa_deleted := True\<rparr>)) st
      | None \<Rightarrow> st)"

definition mustDelete :: "serviceAccount \<Rightarrow> bool" where
  "mustDelete sa \<longleftrightarrow> podCount sa = 0 \<or> sa_deleted sa"

text \<open>\<open>checkIfMustDeleteAndDelete\<close> of the object \<open>sa\<close>, with its result.\<close>

definition checkIfMustDeleteAndDelete :: "serviceAccount \<Rightarrow> tcache \<Rightarrow> tcache \<times> bool" where
  "checkIfMustDeleteAndDelete sa st =
     (if mustDelete sa
      then (st\<lparr>tc_sas := (tc_sas st)(sa_Reference sa := None), tc_numTokens := tc_numTokens st - 1\<rparr>, True)
      else (st, False))"

definition set_req :: "nat \<Rightarrow> Reference \<Rightarrow> rphase \<Rightarrow> tcache \<Rightarrow> tcache" where
  "set_req q ref ph st = st\<lparr>tc_req := (tc_req st)(q \<mapsto> \<lparr>r_ref = ref, r_phase = ph\<rparr>)\<rparr>"

text \<open>\<open>getTokens\<close> under the mutex, and the read of \<open>sa.tokens\<close> after it.\<close>

definition getTokens_lookup :: "nat \<Rightarrow> nat \<Rightarrow> Reference \<Rightarrow> tcache \<Rightarrow> tcache" where
  "getTokens_lookup i q ref st =
     (case tc_sas st ref of
        None \<Rightarrow> set_req q ref (RRead i) (addServiceAccount i ref 0 st)
      | Some j \<Rightarrow>
          (case tc_cells st j of
             Some sa \<Rightarrow> if sa_deleted sa then set_req q ref (RDone (Inl errServiceAccountDeleted)) st
                        else set_req q ref (RRead j) st
           | None \<Rightarrow> st))"

definition usable :: "gotime \<Rightarrow> tokens option \<Rightarrow> bool" where
  "usable now t = (case t of
      None \<Rightarrow> False
    | Some t \<Rightarrow> \<not> isExpired now (serviceAccountToken t) \<and> \<not> isExpired now (googleAccessTokens t))"

definition getTokens_read :: "gotime \<Rightarrow> nat \<Rightarrow> Reference \<Rightarrow> nat \<Rightarrow> serviceAccount \<Rightarrow> tcache \<Rightarrow> tcache" where
  "getTokens_read now q ref i sa st =
     (if usable now (sa_tokens sa) then set_req q ref (RDone (Inr (sa_tokens sa))) st
      else set_req q ref (RDispatch i) (st\<lparr>tc_cacheMisses := Suc (tc_cacheMisses st)\<rparr>))"

text \<open>What \<open>requestTokens\<close> returns for a response.\<close>

fun response_result :: "response \<Rightarrow> tokens option res" where
  "response_result (RespErr e) = Inl e"
| "response_result (RespTokens t) = Inr (Some t)"
| "response_result RespNothing = Inr None"

text \<open>\<open>GetServiceAccountToken\<close> and the case of \<open>GetGoogleAccessTokens\<close> without scopes, on the result of
  \<open>getTokens\<close>.\<close>

definition cache_GetServiceAccountToken :: "gotime \<Rightarrow> tokens option res \<Rightarrow> (string \<times> gotime) res go" where
  "cache_GetServiceAccountToken now result =
     (case result of
        Inl err \<Rightarrow> Ret (Inl err)
      | Inr None \<Rightarrow> Panic ''invalid memory address or nil pointer dereference''
      | Inr (Some t) \<Rightarrow> Ret (Inr (token (serviceAccountToken t), expiration now (serviceAccountToken t))))"

definition cache_GetGoogleAccessTokens :: "gotime \<Rightarrow> tokens option res \<Rightarrow> (AccessTokens \<times> gotime) res go" where
  "cache_GetGoogleAccessTokens now result =
     (case result of
        Inl err \<Rightarrow> Ret (Inl err)
      | Inr None \<Rightarrow> Panic ''invalid memory address or nil pointer dereference''
      | Inr (Some t) \<Rightarrow> Ret (Inr (token (googleAccessTokens t), expiration now (googleAccessTokens t))))"

section \<open>cacheTokens\<close>

definition answer :: "nat option list \<Rightarrow> response \<Rightarrow> (nat \<Rightarrow> response list) \<Rightarrow> nat \<Rightarrow> response list" where
  "answer reqs resp ch = fold (\<lambda>req ch. case req of None \<Rightarrow> ch | Some q \<Rightarrow> ch(q := ch q @ [resp])) reqs ch"

text \<open>\<open>sendResponse\<close>: drain the channel, answer every request that is not nil, forget the requests.\<close>

definition sendResponse :: "nat \<Rightarrow> serviceAccount \<Rightarrow> response \<Rightarrow> tcache \<Rightarrow> tcache" where
  "sendResponse i sa resp st =
     (upd i (\<lambda>sa. sa\<lparr>externalRequests := [], g_pending := []\<rparr>) st)
       \<lparr>tc_chan := answer (g_pending sa @ externalRequests sa) resp (tc_chan st)\<rparr>"

definition safeDistance :: duration where "safeDistance = Minute"

definition refresh_sleep :: "gotime \<Rightarrow> tokens \<Rightarrow> duration" where
  "refresh_sleep now t =
     (let d = tokens_timeUntilExpiration now t in if d \<ge> safeDistance then d - safeDistance else d)"

definition backoff :: "nat \<Rightarrow> duration" where
  "backoff retries = 2 ^ retries * Second"

text \<open>The rest of the loop's body after the second check: the response, the stored tokens and the
  timer.\<close>

definition settle :: "gotime \<Rightarrow> nat \<Rightarrow> serviceAccount \<Rightarrow> (tokens \<times> string option) res \<Rightarrow> tcache \<Rightarrow> tcache" where
  "settle now i sa created st =
     (case created of
        Inl err \<Rightarrow>
          if errors_Is err ErrGKEAnnotationInvalid then
            upd i (\<lambda>sa. sa\<lparr>g_retries := 0, sa_tokens := None, g_phase := GSleep (10 * 365 * 24 * Hour)\<rparr>)
              (sendResponse i sa (RespErr err) st)
          else
            upd i (\<lambda>sa. sa\<lparr>g_retries := (if g_retries sa < 5 then Suc (g_retries sa) else g_retries sa),
                sa_tokens := None, g_phase := GSleep (backoff (g_retries sa))\<rparr>) st
      | Inr (toks, _) \<Rightarrow>
          upd i (\<lambda>sa. sa\<lparr>g_retries := 0, sa_tokens := Some toks, g_phase := GSleep (refresh_sleep now toks)\<rparr>)
            (sendResponse i sa (RespTokens toks) st))"

text \<open>A check of the loop: leave the loop or go on to the next phase.\<close>

definition check_then :: "gphase \<Rightarrow> nat \<Rightarrow> serviceAccount \<Rightarrow> tcache \<Rightarrow> tcache" where
  "check_then ph i sa st =
     (case checkIfMustDeleteAndDelete sa st of
        (st, deleted) \<Rightarrow> upd i (\<lambda>sa. sa\<lparr>g_phase := (if deleted then GReturn else ph)\<rparr>) st)"

definition creating :: "tcache \<Rightarrow> nat set" where
  "creating st = {i. \<exists>sa. tc_cells st i = Some sa \<and> g_phase sa = GCreate}"

text \<open>The semaphore is held by the goroutines that create tokens and by the calls of the input-dependent
  caches, counted by \<open>tc_others\<close>.\<close>

definition held :: "tcache \<Rightarrow> nat" where
  "held st = card (creating st) + tc_others st"

section \<open>Steps\<close>

text \<open>\<open>issued ref t\<close> says that the source created the tokens \<open>t\<close> for the service account \<open>ref\<close>.\<close>

inductive tc_step :: "(Reference \<Rightarrow> tokens \<Rightarrow> bool) \<Rightarrow> nat \<Rightarrow> tcache \<Rightarrow> tcache \<Rightarrow> bool" for issued concurrency where
  add_pod: "tc_cells st i = None \<Longrightarrow> tc_step issued concurrency st (AddPodServiceAccount i ref st)"
| delete_pod: "tc_step issued concurrency st (DeletePodServiceAccount ref st)"
| update_sa: "tc_step issued concurrency st (UpdateServiceAccount ref st)"
| delete_sa: "tc_step issued concurrency st (DeleteServiceAccount ref st)"
| close: "tc_step issued concurrency st (st\<lparr>tc_done := True\<rparr>)"
| other_acquire: "held st < concurrency \<Longrightarrow> tc_step issued concurrency st (st\<lparr>tc_others := Suc (tc_others st)\<rparr>)"
| other_release: "0 < tc_others st \<Longrightarrow> tc_step issued concurrency st (st\<lparr>tc_others := tc_others st - 1\<rparr>)"
| get_lookup: "tc_cells st i = None \<Longrightarrow> tc_req st q = None \<Longrightarrow> tc_step issued concurrency st (getTokens_lookup i q ref st)"
| get_read: "tc_req st q = Some \<lparr>r_ref = ref, r_phase = RRead i\<rparr> \<Longrightarrow> tc_cells st i = Some sa \<Longrightarrow>
    tc_step issued concurrency st (getTokens_read now q ref i sa st)"
| req_dispatch: "tc_req st q = Some \<lparr>r_ref = ref, r_phase = RDispatch i\<rparr> \<Longrightarrow> tc_cells st i = Some sa \<Longrightarrow>
    externalRequests sa = [] \<Longrightarrow>
    tc_step issued concurrency st (upd i (\<lambda>sa. sa\<lparr>externalRequests := [Some q]\<rparr>) (set_req q ref (RWait i) st))"
| req_receive: "tc_req st q = Some \<lparr>r_ref = ref, r_phase = RWait i\<rparr> \<Longrightarrow> tc_chan st q = resp # resps \<Longrightarrow>
    tc_step issued concurrency st (set_req q ref (RDone (response_result resp)) st)"
| req_give_up: "tc_req st q = Some \<lparr>r_ref = ref, r_phase = ph\<rparr> \<Longrightarrow> ph = RDispatch i \<or> ph = RWait i \<Longrightarrow>
    tc_step issued concurrency st (set_req q ref (RDone (Inl err)) st)"
| go_check: "tc_cells st i = Some sa \<Longrightarrow> g_phase sa = GCheck \<Longrightarrow> tc_step issued concurrency st (check_then GAcquire i sa st)"
| go_acquire: "tc_cells st i = Some sa \<Longrightarrow> g_phase sa = GAcquire \<Longrightarrow> held st < concurrency \<Longrightarrow>
    tc_step issued concurrency st (upd i (\<lambda>sa. sa\<lparr>g_phase := GCreate\<rparr>) st)"
| go_acquire_done: "tc_cells st i = Some sa \<Longrightarrow> g_phase sa = GAcquire \<Longrightarrow> tc_done st \<Longrightarrow>
    tc_step issued concurrency st (upd i (\<lambda>sa. sa\<lparr>g_phase := GReturn\<rparr>) st)"
| go_create: "tc_cells st i = Some sa \<Longrightarrow> g_phase sa = GCreate \<Longrightarrow>
    (\<forall>t email. res = Inr (t, email) \<longrightarrow> issued (sa_Reference sa) t) \<Longrightarrow>
    tc_step issued concurrency st (upd i (\<lambda>sa. sa\<lparr>g_phase := GCreated res\<rparr>) st)"
| go_delete: "tc_cells st i = Some sa \<Longrightarrow> g_phase sa = GCreated res \<Longrightarrow> mustDelete sa \<Longrightarrow>
    tc_step issued concurrency st (check_then GCheck i sa st)"
| go_settle: "tc_cells st i = Some sa \<Longrightarrow> g_phase sa = GCreated res \<Longrightarrow> \<not> mustDelete sa \<Longrightarrow>
    tc_step issued concurrency st (settle now i sa res st)"
| go_timer: "tc_cells st i = Some sa \<Longrightarrow> g_phase sa = GSleep d \<Longrightarrow>
    tc_step issued concurrency st (upd i (\<lambda>sa. sa\<lparr>g_phase := GCheck\<rparr>) st)"
| go_request: "tc_cells st i = Some sa \<Longrightarrow> g_phase sa = GSleep d \<Longrightarrow> externalRequests sa = req # reqs \<Longrightarrow>
    tc_step issued concurrency st
      (upd i (\<lambda>sa. sa\<lparr>g_phase := GCheck, g_pending := g_pending sa @ [req], externalRequests := reqs\<rparr>) st)"
| go_sleep_done: "tc_cells st i = Some sa \<Longrightarrow> g_phase sa = GSleep d \<Longrightarrow> tc_done st \<Longrightarrow>
    tc_step issued concurrency st (upd i (\<lambda>sa. sa\<lparr>g_phase := GReturn\<rparr>) st)"
| go_exit: "tc_cells st i = Some sa \<Longrightarrow> g_phase sa = GReturn \<Longrightarrow>
    tc_step issued concurrency st (upd i (\<lambda>sa. sa\<lparr>g_phase := GExit\<rparr>) (sendResponse i sa RespNothing st))"

section \<open>Updates of one cell\<close>

lemma upd_simps [simp]:
  "tc_sas (upd i f st) = tc_sas st" "tc_req (upd i f st) = tc_req st" "tc_chan (upd i f st) = tc_chan st"
  "tc_numTokens (upd i f st) = tc_numTokens st" "tc_others (upd i f st) = tc_others st" "tc_done (upd i f st) = tc_done st"
  "tc_cells (upd i f st) j = (if j = i then map_option f (tc_cells st i) else tc_cells st j)"
  by (simp_all add: upd_def)

lemma set_req_simps [simp]:
  "tc_sas (set_req q ref ph st) = tc_sas st" "tc_cells (set_req q ref ph st) = tc_cells st"
  "tc_chan (set_req q ref ph st) = tc_chan st" "tc_numTokens (set_req q ref ph st) = tc_numTokens st"
  "tc_others (set_req q ref ph st) = tc_others st" "tc_done (set_req q ref ph st) = tc_done st"
  "tc_req (set_req q ref ph st) = (tc_req st)(q \<mapsto> \<lparr>r_ref = ref, r_phase = ph\<rparr>)"
  by (simp_all add: set_req_def)

lemma sendResponse_simps [simp]:
  "tc_sas (sendResponse i sa resp st) = tc_sas st" "tc_req (sendResponse i sa resp st) = tc_req st"
  "tc_numTokens (sendResponse i sa resp st) = tc_numTokens st" "tc_others (sendResponse i sa resp st) = tc_others st"
  "tc_done (sendResponse i sa resp st) = tc_done st"
  "tc_chan (sendResponse i sa resp st) = answer (g_pending sa @ externalRequests sa) resp (tc_chan st)"
  "tc_cells (sendResponse i sa resp st) j =
     (if j = i then map_option (\<lambda>sa. sa\<lparr>externalRequests := [], g_pending := []\<rparr>) (tc_cells st i) else tc_cells st j)"
  by (simp_all add: sendResponse_def)

lemma add_simps [simp]:
  "tc_req (addServiceAccount i ref n st) = tc_req st" "tc_chan (addServiceAccount i ref n st) = tc_chan st"
  "tc_others (addServiceAccount i ref n st) = tc_others st" "tc_done (addServiceAccount i ref n st) = tc_done st"
  "tc_numTokens (addServiceAccount i ref n st) = tc_numTokens st + 1"
  "tc_sas (addServiceAccount i ref n st) = (tc_sas st)(ref \<mapsto> i)"
  "tc_cells (addServiceAccount i ref n st) = (tc_cells st)(i \<mapsto> \<lparr>sa_Reference = ref, podCount = n, sa_deleted = False,
     sa_tokens = None, externalRequests = [], g_phase = GCheck, g_retries = 0, g_pending = []\<rparr>)"
  by (simp_all add: addServiceAccount_def)

lemma notify_simps [simp]:
  "sa_Reference (notify sa) = sa_Reference sa" "g_phase (notify sa) = g_phase sa" "g_pending (notify sa) = g_pending sa"
  "g_retries (notify sa) = g_retries sa" "sa_tokens (notify sa) = sa_tokens sa" "podCount (notify sa) = podCount sa"
  by (simp_all add: notify_def)

lemma remove_pod_simps [simp]:
  "sa_Reference (remove_pod sa) = sa_Reference sa" "g_phase (remove_pod sa) = g_phase sa"
  "g_pending (remove_pod sa) = g_pending sa" "externalRequests (remove_pod sa) = externalRequests sa"
  "g_retries (remove_pod sa) = g_retries sa" "sa_tokens (remove_pod sa) = sa_tokens sa"
  by (simp_all add: remove_pod_def)

section \<open>The map, the gauge and the goroutines\<close>

definition live :: "serviceAccount \<Rightarrow> bool" where
  "live sa \<longleftrightarrow> g_phase sa \<noteq> GReturn \<and> g_phase sa \<noteq> GExit"

definition inv_map :: "tcache \<Rightarrow> bool" where
  "inv_map st \<longleftrightarrow>
     finite (dom (tc_sas st)) \<and> tc_numTokens st = int (card (dom (tc_sas st))) \<and>
     (\<forall>ref i. tc_sas st ref = Some i \<longrightarrow>
        (\<exists>sa. tc_cells st i = Some sa \<and> sa_Reference sa = ref \<and> (live sa \<or> tc_done st))) \<and>
     (\<forall>i sa. tc_cells st i = Some sa \<longrightarrow> live sa \<longrightarrow> tc_sas st (sa_Reference sa) = Some i)"

lemma inv_mapD:
  assumes "inv_map st"
  shows "finite (dom (tc_sas st))" "tc_numTokens st = int (card (dom (tc_sas st)))"
    "tc_sas st ref = Some i \<Longrightarrow> \<exists>sa. tc_cells st i = Some sa \<and> sa_Reference sa = ref \<and> (live sa \<or> tc_done st)"
    "tc_cells st i = Some sa \<Longrightarrow> live sa \<Longrightarrow> tc_sas st (sa_Reference sa) = Some i"
  using assms unfolding inv_map_def by blast+

lemma inv_mapI:
  assumes "finite (dom (tc_sas st))" "tc_numTokens st = int (card (dom (tc_sas st)))"
    "\<And>ref i. tc_sas st ref = Some i \<Longrightarrow> \<exists>sa. tc_cells st i = Some sa \<and> sa_Reference sa = ref \<and> (live sa \<or> tc_done st)"
    "\<And>i sa. tc_cells st i = Some sa \<Longrightarrow> live sa \<Longrightarrow> tc_sas st (sa_Reference sa) = Some i"
  shows "inv_map st"
  using assms unfolding inv_map_def by blast

text \<open>Updates that keep the reference and do not end the goroutine, or end it after \<open>Close\<close>.\<close>

lemma inv_map_upd:
  assumes st: "inv_map st" and ref: "\<And>sa. tc_cells st i = Some sa \<Longrightarrow> sa_Reference (f sa) = sa_Reference sa"
    and live: "\<And>sa. tc_cells st i = Some sa \<Longrightarrow> live (f sa) = live sa \<or> tc_done st \<and> live sa"
  shows "inv_map (upd i f st)"
proof (rule inv_mapI)
  fix r j assume "tc_sas (upd i f st) r = Some j"
  then obtain sa where "tc_cells st j = Some sa" "sa_Reference sa = r" "live sa \<or> tc_done st"
    using inv_mapD(3) [OF st] by auto
  then show "\<exists>sa. tc_cells (upd i f st) j = Some sa \<and> sa_Reference sa = r \<and> (live sa \<or> tc_done (upd i f st))"
    using ref [of sa] live [of sa] by auto
next
  fix j sb assume "tc_cells (upd i f st) j = Some sb" "live sb"
  then show "tc_sas (upd i f st) (sa_Reference sb) = Some j"
    using inv_mapD(4) [OF st] ref live by (auto split: if_splits)
qed (use inv_mapD [OF st] in simp_all)

lemma inv_map_same:
  assumes "inv_map st" "tc_sas st' = tc_sas st" "tc_cells st' = tc_cells st" "tc_numTokens st' = tc_numTokens st"
    and "tc_done st \<longrightarrow> tc_done st'"
  shows "inv_map st'"
  using inv_mapD [OF assms(1)] assms(2-5) by (intro inv_mapI) (simp_all, blast)

lemma inv_map_add:
  assumes st: "inv_map st" and i: "tc_cells st i = None" "tc_sas st ref = None"
  shows "inv_map (addServiceAccount i ref n st)"
proof (rule inv_mapI)
  fix r j assume r: "tc_sas (addServiceAccount i ref n st) r = Some j"
  show "\<exists>sa. tc_cells (addServiceAccount i ref n st) j = Some sa \<and> sa_Reference sa = r \<and>
      (live sa \<or> tc_done (addServiceAccount i ref n st))"
  proof (cases "r = ref")
    case True
    then show ?thesis using r by (auto simp: live_def)
  next
    case False
    then have "tc_sas st r = Some j" using r by simp
    then show ?thesis using inv_mapD(3) [OF st] i(1) by fastforce
  qed
next
  fix j sb assume sb: "tc_cells (addServiceAccount i ref n st) j = Some sb" "live sb"
  show "tc_sas (addServiceAccount i ref n st) (sa_Reference sb) = Some j"
  proof (cases "j = i")
    case True
    then show ?thesis using sb by auto
  next
    case False
    then have "tc_sas st (sa_Reference sb) = Some j" using inv_mapD(4) [OF st] sb by simp
    then show ?thesis using i(2) by auto
  qed
qed (use inv_mapD [OF st] i(2) in \<open>auto simp: card_insert_if\<close>)

lemma inv_map_delete:
  assumes st: "inv_map st" and sa: "tc_cells st i = Some sa" "live sa"
  shows "inv_map (upd i (\<lambda>sa. sa\<lparr>g_phase := GReturn\<rparr>)
    (st\<lparr>tc_sas := (tc_sas st)(sa_Reference sa := None), tc_numTokens := tc_numTokens st - 1\<rparr>))" (is "inv_map ?st'")
proof (rule inv_mapI)
  have m: "tc_sas st (sa_Reference sa) = Some i" by (rule inv_mapD(4) [OF st sa])
  have "sa_Reference sa \<in> dom (tc_sas st)" using m by auto
  then have "card (dom (tc_sas st) - {sa_Reference sa}) = card (dom (tc_sas st)) - 1" "0 < card (dom (tc_sas st))"
    using inv_mapD(1) [OF st] by (auto simp: card_gt_0_iff)
  then show "tc_numTokens ?st' = int (card (dom (tc_sas ?st')))"
    using inv_mapD(2) [OF st] by simp
  show "finite (dom (tc_sas ?st'))" using inv_mapD(1) [OF st] by simp
  {
    fix r j assume r: "tc_sas ?st' r = Some j"
    then have r': "r \<noteq> sa_Reference sa" "tc_sas st r = Some j" by (auto split: if_splits)
    then obtain sb where sb: "tc_cells st j = Some sb" "sa_Reference sb = r" "live sb \<or> tc_done st"
      using inv_mapD(3) [OF st] by blast
    then have "j \<noteq> i" using r'(1) sa(1) by auto
    then show "\<exists>sa. tc_cells ?st' j = Some sa \<and> sa_Reference sa = r \<and> (live sa \<or> tc_done ?st')"
      using sb by simp
  next
    fix j sb assume sb: "tc_cells ?st' j = Some sb" "live sb"
    then have j: "j \<noteq> i" "tc_cells st j = Some sb" using sa(1) by (auto simp: live_def split: if_splits)
    then have "tc_sas st (sa_Reference sb) = Some j" using inv_mapD(4) [OF st] sb(2) by blast
    then show "tc_sas ?st' (sa_Reference sb) = Some j" using m j(1) by auto
  }
qed

lemma inv_map_check:
  assumes "inv_map st" "tc_cells st i = Some sa" "live sa" "ph \<noteq> GReturn" "ph \<noteq> GExit"
  shows "inv_map (check_then ph i sa st)"
  using assms inv_map_delete [OF assms(1-3)]
  by (cases "mustDelete sa")
    (auto simp: check_then_def checkIfMustDeleteAndDelete_def live_def intro!: inv_map_upd)

lemma inv_map_other [simp]:
  "inv_map (set_req q ref ph st) = inv_map st" "inv_map (st\<lparr>tc_cacheMisses := n\<rparr>) = inv_map st"
  "inv_map (st\<lparr>tc_others := n\<rparr>) = inv_map st" "inv_map (st\<lparr>tc_chan := ch\<rparr>) = inv_map st"
  by (simp_all add: inv_map_def)

lemma inv_map_close: "inv_map st \<Longrightarrow> inv_map (st\<lparr>tc_done := True\<rparr>)"
  by (rule inv_map_same) simp_all

lemma inv_map_send: "inv_map st \<Longrightarrow> inv_map (sendResponse i sa resp st)"
  unfolding sendResponse_def inv_map_other by (rule inv_map_upd) (simp_all add: live_def)

lemma inv_map_settle:
  assumes "inv_map st" "tc_cells st i = Some sa" "g_phase sa = GCreated res"
  shows "inv_map (settle now i sa res st)"
  using assms
  by (auto simp: settle_def live_def split: sum.split prod.split intro!: inv_map_upd inv_map_send)

lemma inv_map_lookup:
  assumes "inv_map st" "tc_cells st i = None"
  shows "inv_map (getTokens_lookup i q ref st)"
  using assms inv_map_add [of st i ref 0] by (simp add: getTokens_lookup_def split: option.split)

lemma inv_map_events:
  assumes "inv_map st"
  shows "tc_cells st i = None \<Longrightarrow> inv_map (AddPodServiceAccount i ref st)"
    "inv_map (DeletePodServiceAccount ref st)" "inv_map (UpdateServiceAccount ref st)" "inv_map (DeleteServiceAccount ref st)"
  using assms inv_map_add [of st i ref 1]
  by (auto simp: AddPodServiceAccount_def DeletePodServiceAccount_def UpdateServiceAccount_def DeleteServiceAccount_def
      live_def split: option.split intro!: inv_map_upd)

lemma inv_map_step: "tc_step issued concurrency st st' \<Longrightarrow> inv_map st \<Longrightarrow> inv_map st'"
proof (induction rule: tc_step.induct)
  case (go_check st i sa)
  then show ?case by (simp add: inv_map_check live_def)
next
  case (go_delete st i sa res)
  then show ?case by (simp add: inv_map_check live_def)
next
  case (go_exit st i sa)
  then show ?case by (intro inv_map_upd inv_map_send) (auto simp: live_def)
next
  case (get_read st q ref i sa now)
  then show ?case by (simp add: getTokens_read_def)
qed (simp_all add: inv_map_lookup inv_map_events inv_map_close inv_map_settle,
    auto intro!: inv_map_upd simp: live_def)

section \<open>The cells\<close>

definition cell_ok :: "(Reference \<Rightarrow> tokens \<Rightarrow> bool) \<Rightarrow> serviceAccount \<Rightarrow> bool" where
  "cell_ok issued sa \<longleftrightarrow>
     g_retries sa \<le> 5 \<and> length (externalRequests sa) \<le> 1 \<and>
     (\<forall>t. sa_tokens sa = Some t \<longrightarrow> issued (sa_Reference sa) t) \<and>
     (\<forall>t email. g_phase sa = GCreated (Inr (t, email)) \<longrightarrow> issued (sa_Reference sa) t)"

definition inv_cells :: "(Reference \<Rightarrow> tokens \<Rightarrow> bool) \<Rightarrow> tcache \<Rightarrow> bool" where
  "inv_cells issued st \<longleftrightarrow> (\<forall>i sa. tc_cells st i = Some sa \<longrightarrow> cell_ok issued sa)"

lemma inv_cells_upd:
  assumes "inv_cells issued st" "\<And>sa. tc_cells st i = Some sa \<Longrightarrow> cell_ok issued sa \<Longrightarrow> cell_ok issued (f sa)"
  shows "inv_cells issued (upd i f st)"
  using assms by (auto simp: inv_cells_def split: if_splits)

lemma inv_cells_other [simp]:
  "inv_cells issued (set_req q ref ph st) = inv_cells issued st" "inv_cells issued (st\<lparr>tc_cacheMisses := n\<rparr>) = inv_cells issued st"
  "inv_cells issued (st\<lparr>tc_others := n\<rparr>) = inv_cells issued st" "inv_cells issued (st\<lparr>tc_chan := ch\<rparr>) = inv_cells issued st"
  "inv_cells issued (st\<lparr>tc_done := d\<rparr>) = inv_cells issued st" "inv_cells issued (st\<lparr>tc_sas := m, tc_numTokens := z\<rparr>) = inv_cells issued st"
  by (simp_all add: inv_cells_def)

lemma inv_cells_add: "inv_cells issued st \<Longrightarrow> inv_cells issued (addServiceAccount i ref n st)"
  by (auto simp: inv_cells_def cell_ok_def)

lemma cell_ok_notify: "cell_ok issued sa \<Longrightarrow> cell_ok issued (notify sa)"
  by (auto simp: cell_ok_def notify_def)

lemma inv_cells_send: "inv_cells issued st \<Longrightarrow> inv_cells issued (sendResponse i sa resp st)"
  unfolding sendResponse_def inv_cells_other by (rule inv_cells_upd) (simp_all add: cell_ok_def)

lemma inv_cells_settle:
  assumes "inv_cells issued st" "tc_cells st i = Some sa" "g_phase sa = GCreated res"
  shows "inv_cells issued (settle now i sa res st)"
proof -
  have "cell_ok issued sa" using assms(1,2) by (simp add: inv_cells_def)
  then show ?thesis
    using assms
    by (auto simp: settle_def cell_ok_def split: sum.split prod.split intro!: inv_cells_upd inv_cells_send)
qed

lemma inv_cells_step: "tc_step issued concurrency st st' \<Longrightarrow> inv_cells issued st \<Longrightarrow> inv_cells issued st'"
proof (induction rule: tc_step.induct)
  case (go_settle st i sa res now)
  then show ?case by (simp add: inv_cells_settle)
next
  case (go_exit st i sa)
  then show ?case by (intro inv_cells_upd inv_cells_send) (auto simp: cell_ok_def)
next
  case (go_request st i sa d req reqs)
  then show ?case by (intro inv_cells_upd) (auto simp: cell_ok_def)
next
  case (get_lookup st i q ref)
  then show ?case by (simp add: getTokens_lookup_def inv_cells_add split: option.split)
next
  case (delete_pod st ref)
  then show ?case
    by (auto simp: DeletePodServiceAccount_def cell_ok_def intro!: inv_cells_upd split: option.split)
next
  case (update_sa st ref)
  then show ?case
    by (auto simp: UpdateServiceAccount_def intro!: inv_cells_upd cell_ok_notify split: option.split) (simp add: cell_ok_def)
next
  case (delete_sa st ref)
  then show ?case
    by (auto simp: DeleteServiceAccount_def intro!: inv_cells_upd cell_ok_notify split: option.split) (simp add: cell_ok_def)
next
  case (go_check st i sa)
  then show ?case
    by (auto simp: check_then_def checkIfMustDeleteAndDelete_def cell_ok_def intro!: inv_cells_upd)
next
  case (go_delete st i sa res)
  then show ?case
    by (auto simp: check_then_def checkIfMustDeleteAndDelete_def cell_ok_def intro!: inv_cells_upd)
next
  case (add_pod st i ref)
  then show ?case
    by (auto simp: AddPodServiceAccount_def cell_ok_def inv_cells_add intro!: inv_cells_upd split: option.split)
qed (auto simp: getTokens_read_def cell_ok_def intro!: inv_cells_upd)

section \<open>The semaphore\<close>

definition inv_sem :: "nat \<Rightarrow> tcache \<Rightarrow> bool" where
  "inv_sem concurrency st \<longleftrightarrow> finite (dom (tc_cells st)) \<and> held st \<le> concurrency"

lemma creating_upd:
  "tc_cells st i = Some sa \<Longrightarrow>
     creating (upd i f st) = (if g_phase (f sa) = GCreate then insert i (creating st) else creating st - {i})"
  by (auto simp: creating_def split: if_splits)

lemma finite_creating: "inv_sem concurrency st \<Longrightarrow> finite (creating st)"
  unfolding inv_sem_def by (rule finite_subset [of _ "dom (tc_cells st)"]) (auto simp: creating_def)

lemma dom_upd: "dom (tc_cells (upd i f st)) = dom (tc_cells st)"
  by (auto split: if_splits)

text \<open>An update that does not enter the phase that holds the semaphore.\<close>

lemma inv_sem_upd:
  assumes "inv_sem concurrency st" "\<And>sa. tc_cells st i = Some sa \<Longrightarrow> g_phase (f sa) = GCreate \<Longrightarrow> g_phase sa = GCreate"
  shows "inv_sem concurrency (upd i f st)"
proof -
  have "creating (upd i f st) \<subseteq> creating st"
    using assms(2) by (auto simp: creating_def split: if_splits)
  then have "card (creating (upd i f st)) \<le> card (creating st)"
    by (rule card_mono [OF finite_creating [OF assms(1)]])
  then show ?thesis using assms(1) by (simp add: inv_sem_def held_def dom_upd)
qed

lemma inv_sem_other [simp]:
  "inv_sem concurrency (set_req q ref ph st) = inv_sem concurrency st" "inv_sem concurrency (st\<lparr>tc_cacheMisses := n\<rparr>) = inv_sem concurrency st"
  "inv_sem concurrency (st\<lparr>tc_chan := ch\<rparr>) = inv_sem concurrency st"
  "inv_sem concurrency (st\<lparr>tc_done := d\<rparr>) = inv_sem concurrency st"
  "inv_sem concurrency (st\<lparr>tc_sas := m, tc_numTokens := z\<rparr>) = inv_sem concurrency st"
  by (simp_all add: inv_sem_def held_def creating_def)

lemma inv_sem_add: "inv_sem concurrency st \<Longrightarrow> tc_cells st i = None \<Longrightarrow> inv_sem concurrency (addServiceAccount i ref n st)"
proof -
  assume "inv_sem concurrency st" "tc_cells st i = None"
  moreover from this(2) have "creating (addServiceAccount i ref n st) = creating st"
    by (auto simp: creating_def)
  ultimately show ?thesis by (simp add: inv_sem_def held_def)
qed

lemma inv_sem_send: "inv_sem concurrency st \<Longrightarrow> inv_sem concurrency (sendResponse i sa resp st)"
  unfolding sendResponse_def inv_sem_other by (rule inv_sem_upd) simp_all

lemma inv_sem_step: "tc_step issued concurrency st st' \<Longrightarrow> inv_sem concurrency st \<Longrightarrow> inv_sem concurrency st'"
proof (induction rule: tc_step.induct)
  case (go_acquire st i sa)
  have "card (insert i (creating st)) \<le> Suc (card (creating st))"
    by (rule card_insert_le_m1) simp_all
  then show ?case using go_acquire creating_upd [OF go_acquire(1), of "\<lambda>sa. sa\<lparr>g_phase := GCreate\<rparr>"]
    by (simp add: inv_sem_def held_def dom_upd)
next
  case (other_acquire st)
  then show ?case by (simp add: inv_sem_def held_def creating_def)
next
  case (other_release st)
  then show ?case by (auto simp: inv_sem_def held_def creating_def)
next
  case (go_settle st i sa res now)
  then show ?case
    by (auto simp: settle_def intro!: inv_sem_upd inv_sem_send split: sum.split prod.split)
next
  case (go_exit st i sa)
  then show ?case by (intro inv_sem_upd inv_sem_send) auto
next
  case (get_lookup st i q ref)
  then show ?case by (simp add: getTokens_lookup_def inv_sem_add split: option.split)
next
  case (add_pod st i ref)
  then show ?case
    by (auto simp: AddPodServiceAccount_def inv_sem_add intro!: inv_sem_upd split: option.split)
qed (auto simp: getTokens_read_def check_then_def checkIfMustDeleteAndDelete_def DeletePodServiceAccount_def
    UpdateServiceAccount_def DeleteServiceAccount_def intro!: inv_sem_upd split: option.split)

section \<open>Requests and responses\<close>

text \<open>The requests a cell has to answer.\<close>

definition outstanding :: "serviceAccount \<Rightarrow> nat list" where
  "outstanding sa = List.map_filter id (g_pending sa @ externalRequests sa)"

definition returned_or_waits :: "nat \<Rightarrow> rphase \<Rightarrow> bool" where
  "returned_or_waits i ph \<longleftrightarrow> ph = RWait i \<or> (\<exists>x. ph = RDone x)"

text \<open>A request is at most once in the hands of a goroutine, of the one its caller waits for, and then has
  no response; a response with tokens has tokens of the account that was asked for.\<close>

definition out_ok :: "tcache \<Rightarrow> nat \<Rightarrow> serviceAccount \<Rightarrow> bool" where
  "out_ok st i sa \<longleftrightarrow> distinct (outstanding sa) \<and>
     (\<forall>q\<in>set (outstanding sa). tc_chan st q = [] \<and>
        (\<exists>r. tc_req st q = Some r \<and> r_ref r = sa_Reference sa \<and> returned_or_waits i (r_phase r)))"

definition chan_ok :: "(Reference \<Rightarrow> tokens \<Rightarrow> bool) \<Rightarrow> tcache \<Rightarrow> nat \<Rightarrow> bool" where
  "chan_ok issued st q \<longleftrightarrow> length (tc_chan st q) \<le> 1 \<and>
     (tc_chan st q \<noteq> [] \<longrightarrow> (\<exists>r i. tc_req st q = Some r \<and> returned_or_waits i (r_phase r) \<and>
        (\<forall>t. RespTokens t \<in> set (tc_chan st q) \<longrightarrow> issued (r_ref r) t)))"

definition req_ok :: "(Reference \<Rightarrow> tokens \<Rightarrow> bool) \<Rightarrow> tcache \<Rightarrow> requester \<Rightarrow> bool" where
  "req_ok issued st r \<longleftrightarrow> (case r_phase r of
      RDone res \<Rightarrow> (\<forall>t. res = Inr (Some t) \<longrightarrow> issued (r_ref r) t)
    | RRead i \<Rightarrow> (\<exists>sa. tc_cells st i = Some sa \<and> sa_Reference sa = r_ref r)
    | RDispatch i \<Rightarrow> (\<exists>sa. tc_cells st i = Some sa \<and> sa_Reference sa = r_ref r)
    | RWait i \<Rightarrow> (\<exists>sa. tc_cells st i = Some sa \<and> sa_Reference sa = r_ref r))"

definition inv_req :: "(Reference \<Rightarrow> tokens \<Rightarrow> bool) \<Rightarrow> tcache \<Rightarrow> bool" where
  "inv_req issued st \<longleftrightarrow>
     (\<forall>i sa. tc_cells st i = Some sa \<longrightarrow> out_ok st i sa) \<and>
     (\<forall>i j sa sb. tc_cells st i = Some sa \<longrightarrow> tc_cells st j = Some sb \<longrightarrow> i \<noteq> j \<longrightarrow>
        set (outstanding sa) \<inter> set (outstanding sb) = {}) \<and>
     (\<forall>q. chan_ok issued st q) \<and> (\<forall>q r. tc_req st q = Some r \<longrightarrow> req_ok issued st r)"

lemma inv_reqI:
  assumes "\<And>i sa. tc_cells st i = Some sa \<Longrightarrow> out_ok st i sa"
    and "\<And>i j sa sb. tc_cells st i = Some sa \<Longrightarrow> tc_cells st j = Some sb \<Longrightarrow> i \<noteq> j \<Longrightarrow>
        set (outstanding sa) \<inter> set (outstanding sb) = {}"
    and "\<And>q. chan_ok issued st q" "\<And>q r. tc_req st q = Some r \<Longrightarrow> req_ok issued st r"
  shows "inv_req issued st"
  using assms unfolding inv_req_def by blast

lemma inv_reqD:
  assumes "inv_req issued st"
  shows "tc_cells st i = Some sa \<Longrightarrow> out_ok st i sa"
    and "tc_cells st i = Some sa \<Longrightarrow> tc_cells st j = Some sb \<Longrightarrow> i \<noteq> j \<Longrightarrow> set (outstanding sa) \<inter> set (outstanding sb) = {}"
    and "chan_ok issued st q" and "tc_req st q = Some r \<Longrightarrow> req_ok issued st r"
  using assms unfolding inv_req_def by blast+

text \<open>Updates of a cell that keep its reference and do not add requests.\<close>

lemma inv_req_upd:
  assumes st: "inv_req issued st"
    and f: "\<And>sa. tc_cells st i = Some sa \<Longrightarrow> sa_Reference (f sa) = sa_Reference sa"
    and out: "\<And>sa. tc_cells st i = Some sa \<Longrightarrow> distinct (outstanding sa) \<Longrightarrow> distinct (outstanding (f sa)) \<and> set (outstanding (f sa)) \<subseteq> set (outstanding sa)"
  shows "inv_req issued (upd i f st)"
proof (rule inv_reqI)
  fix j sb assume sb: "tc_cells (upd i f st) j = Some sb"
  show "out_ok (upd i f st) j sb"
  proof (cases "j = i")
    case True
    then obtain sa where sa: "tc_cells st i = Some sa" "sb = f sa" using sb by auto
    then show ?thesis using inv_reqD(1) [OF st sa(1)] f [OF sa(1)] out [OF sa(1)] True unfolding out_ok_def by auto
  next
    case False
    then show ?thesis using sb inv_reqD(1) [OF st] unfolding out_ok_def by auto
  qed
next
  fix j k sb sc assume "tc_cells (upd i f st) j = Some sb" "tc_cells (upd i f st) k = Some sc" "j \<noteq> k"
  moreover have sub: "\<exists>sa. tc_cells st j = Some sa \<and> set (outstanding sb) \<subseteq> set (outstanding sa)"
    if "tc_cells (upd i f st) j = Some sb" for j sb
    using that out inv_reqD(1) [OF st] unfolding out_ok_def by (auto split: if_splits)
  ultimately show "set (outstanding sb) \<inter> set (outstanding sc) = {}"
    using inv_reqD(2) [OF st] by (meson disjoint_iff subsetD)
next
  fix q show "chan_ok issued (upd i f st) q" using inv_reqD(3) [OF st] by (simp add: chan_ok_def)
next
  fix q r assume "tc_req (upd i f st) q = Some r"
  then have "req_ok issued st r" using inv_reqD(4) [OF st] by simp
  then show "req_ok issued (upd i f st) r" using f by (auto simp: req_ok_def split: rphase.splits)
qed

lemma outstanding_same: "g_pending sb @ externalRequests sb = g_pending sa @ externalRequests sa \<Longrightarrow> outstanding sb = outstanding sa"
  by (simp add: outstanding_def)

lemma outstanding_notify [simp]: "outstanding (notify sa) = outstanding sa"
  by (simp add: outstanding_def notify_def map_filter_def)

text \<open>Changes of a caller's phase.\<close>

lemma inv_req_caller:
  assumes st: "inv_req issued st" and q: "tc_req st q = Some \<lparr>r_ref = ref, r_phase = ph\<rparr> \<or> tc_req st q = None"
    and ok: "req_ok issued st \<lparr>r_ref = ref, r_phase = ph'\<rparr>"
    and keep: "\<And>i. tc_req st q \<noteq> None \<Longrightarrow> returned_or_waits i ph \<Longrightarrow> returned_or_waits i ph'"
  shows "inv_req issued (set_req q ref ph' st)"
proof (rule inv_reqI)
  fix j sb assume "tc_cells (set_req q ref ph' st) j = Some sb"
  then have "out_ok st j sb" using inv_reqD(1) [OF st] by simp
  then show "out_ok (set_req q ref ph' st) j sb" using q keep [of j] unfolding out_ok_def by fastforce
next
  fix q' show "chan_ok issued (set_req q ref ph' st) q'"
    using inv_reqD(3) [OF st, of q'] q keep unfolding chan_ok_def by fastforce
next
  fix q' r assume "tc_req (set_req q ref ph' st) q' = Some r"
  then have "req_ok issued st r" using ok inv_reqD(4) [OF st] by (auto split: if_splits)
  then show "req_ok issued (set_req q ref ph' st) r" by (simp add: req_ok_def split: rphase.splits)
qed (use inv_reqD(2) [OF st] in simp)

lemma inv_req_other [simp]:
  "inv_req issued (st\<lparr>tc_cacheMisses := n\<rparr>) = inv_req issued st" "inv_req issued (st\<lparr>tc_others := n\<rparr>) = inv_req issued st"
  "inv_req issued (st\<lparr>tc_done := d\<rparr>) = inv_req issued st" "inv_req issued (st\<lparr>tc_sas := m, tc_numTokens := z\<rparr>) = inv_req issued st"
  by (simp_all add: inv_req_def out_ok_def chan_ok_def req_ok_def cong: rphase.case_cong)

lemma inv_req_add:
  assumes st: "inv_req issued st" and i: "tc_cells st i = None"
  shows "inv_req issued (addServiceAccount i ref n st)"
proof (rule inv_reqI)
  fix j sb assume "tc_cells (addServiceAccount i ref n st) j = Some sb"
  then show "out_ok (addServiceAccount i ref n st) j sb"
    using inv_reqD(1) [OF st] by (auto simp: out_ok_def outstanding_def map_filter_def split: if_splits)
next
  fix j k sb sc assume "tc_cells (addServiceAccount i ref n st) j = Some sb" "tc_cells (addServiceAccount i ref n st) k = Some sc" "j \<noteq> k"
  then show "set (outstanding sb) \<inter> set (outstanding sc) = {}"
    using inv_reqD(2) [OF st] by (auto simp: outstanding_def map_filter_def split: if_splits)
next
  fix q show "chan_ok issued (addServiceAccount i ref n st) q" using inv_reqD(3) [OF st] by (simp add: chan_ok_def)
next
  fix q r assume "tc_req (addServiceAccount i ref n st) q = Some r"
  then have "req_ok issued st r" using inv_reqD(4) [OF st] by simp
  then show "req_ok issued (addServiceAccount i ref n st) r" using i by (auto simp: req_ok_def split: rphase.splits)
qed

lemma answer_at:
  "distinct (List.map_filter id reqs) \<Longrightarrow>
     answer reqs resp ch q = (if q \<in> set (List.map_filter id reqs) then ch q @ [resp] else ch q)"
proof (induction reqs arbitrary: ch)
  case (Cons req reqs)
  then show ?case by (cases req) (auto simp: answer_def map_filter_simps)
qed (simp add: answer_def map_filter_def)

lemma inv_req_send:
  assumes st: "inv_req issued st" and sa: "tc_cells st i = Some sa"
    and resp: "\<And>t. resp = RespTokens t \<Longrightarrow> issued (sa_Reference sa) t"
  shows "inv_req issued (sendResponse i sa resp st)"
proof (rule inv_reqI)
  let ?st = "sendResponse i sa resp st"
  have out: "out_ok st i sa" by (rule inv_reqD(1) [OF st sa])
  then have chan: "tc_chan ?st q = (if q \<in> set (outstanding sa) then [resp] else tc_chan st q)" for q
    using answer_at [of "g_pending sa @ externalRequests sa" resp "tc_chan st" q]
    by (auto simp: out_ok_def outstanding_def)
  have cell: "(j = i \<and> outstanding sb = []) \<or> (j \<noteq> i \<and> tc_cells st j = Some sb)" if "tc_cells ?st j = Some sb" for j sb
    using that sa by (auto simp: outstanding_def map_filter_def split: if_splits)
  {
    fix j sb assume j: "tc_cells ?st j = Some sb"
    show "out_ok ?st j sb"
    proof (cases "j = i")
      case True
      then show ?thesis using cell [OF j] by (simp add: out_ok_def)
    next
      case False
      then have sb: "tc_cells st j = Some sb" "set (outstanding sb) \<inter> set (outstanding sa) = {}"
        using cell [OF j] inv_reqD(2) [OF st _ sa] by auto
      then show ?thesis using inv_reqD(1) [OF st sb(1)] chan unfolding out_ok_def by auto
    qed
  next
    fix j k sb sc assume "tc_cells ?st j = Some sb" "tc_cells ?st k = Some sc" "j \<noteq> k"
    then show "set (outstanding sb) \<inter> set (outstanding sc) = {}"
      using cell inv_reqD(2) [OF st] by (metis Int_empty_left Int_empty_right list.set(1))
  next
    fix q show "chan_ok issued ?st q"
    proof (cases "q \<in> set (outstanding sa)")
      case True
      then obtain r where "tc_req st q = Some r" "r_ref r = sa_Reference sa" "returned_or_waits i (r_phase r)"
        using out by (auto simp: out_ok_def)
      then show ?thesis using True resp unfolding chan_ok_def chan by auto
    next
      case False
      then show ?thesis using inv_reqD(3) [OF st, of q] unfolding chan_ok_def chan by simp
    qed
  next
    fix q r assume "tc_req ?st q = Some r"
    then have "req_ok issued st r" using inv_reqD(4) [OF st] by simp
    then show "req_ok issued ?st r" using sa by (auto simp: req_ok_def split: rphase.splits)
  }
qed

lemma inv_req_dispatch:
  assumes st: "inv_req issued st" and q: "tc_req st q = Some \<lparr>r_ref = ref, r_phase = RDispatch i\<rparr>"
    and sa: "tc_cells st i = Some sa" "externalRequests sa = []"
  shows "inv_req issued (upd i (\<lambda>sa. sa\<lparr>externalRequests := [Some q]\<rparr>) (set_req q ref (RWait i) st))" (is "inv_req _ ?st")
proof (rule inv_reqI)
  have fresh: "q \<notin> set (outstanding sb)" if "tc_cells st j = Some sb" for j sb
    using inv_reqD(1) [OF st that] q by (auto simp: out_ok_def returned_or_waits_def)
  have empty: "tc_chan st q = []"
    using inv_reqD(3) [OF st, of q] q by (auto simp: chan_ok_def returned_or_waits_def)
  have ref: "sa_Reference sa = ref" using inv_reqD(4) [OF st q] sa by (simp add: req_ok_def)
  have new: "outstanding (sa\<lparr>externalRequests := [Some q]\<rparr>) = outstanding sa @ [q]"
    using sa(2) by (simp add: outstanding_def map_filter_def)
  have cell: "\<exists>sb'. tc_cells st j = Some sb' \<and> set (outstanding sb) \<subseteq> insert q (set (outstanding sb')) \<and>
      (q \<in> set (outstanding sb) \<longrightarrow> j = i)" if "tc_cells ?st j = Some sb" for j sb
    using that sa(1) new fresh by (auto split: if_splits)
  {
    fix j sb assume j: "tc_cells ?st j = Some sb"
    show "out_ok ?st j sb"
    proof (cases "j = i")
      case True
      then have "sb = sa\<lparr>externalRequests := [Some q]\<rparr>" using j sa(1) by simp
      then show ?thesis
        using inv_reqD(1) [OF st sa(1)] fresh [OF sa(1)] new empty ref True
        by (auto simp: out_ok_def returned_or_waits_def)
    next
      case False
      then have sb: "tc_cells st j = Some sb" using j by simp
      then show ?thesis using inv_reqD(1) [OF st sb] fresh [OF sb] by (auto simp: out_ok_def)
    qed
  next
    fix j k sb sc assume jk: "tc_cells ?st j = Some sb" "tc_cells ?st k = Some sc" "j \<noteq> k"
    obtain sb' sc' where "tc_cells st j = Some sb'" "set (outstanding sb) \<subseteq> insert q (set (outstanding sb'))"
        "tc_cells st k = Some sc'" "set (outstanding sc) \<subseteq> insert q (set (outstanding sc'))"
        "q \<in> set (outstanding sb) \<longrightarrow> j = i" "q \<in> set (outstanding sc) \<longrightarrow> k = i"
      using cell [OF jk(1)] cell [OF jk(2)] by auto
    then show "set (outstanding sb) \<inter> set (outstanding sc) = {}"
      using inv_reqD(2) [OF st] jk(3) by blast
  next
    fix q' show "chan_ok issued ?st q'"
      using inv_reqD(3) [OF st, of q'] empty by (auto simp: chan_ok_def)
  next
    fix q' r assume "tc_req ?st q' = Some r"
    then have "req_ok issued st r \<or> r = \<lparr>r_ref = ref, r_phase = RWait i\<rparr>"
      using inv_reqD(4) [OF st] by (auto split: if_splits)
    then show "req_ok issued ?st r"
      using sa(1) ref by (auto simp: req_ok_def split: rphase.splits)
  }
qed

lemma inv_req_settle:
  assumes "inv_req issued st" "inv_cells issued st" "tc_cells st i = Some sa" "g_phase sa = GCreated res"
  shows "inv_req issued (settle now i sa res st)"
proof -
  have "cell_ok issued sa" using assms(2,3) by (simp add: inv_cells_def)
  then have "inv_req issued (sendResponse i sa (RespTokens t) st)" if "res = Inr (t, e)" for t e
    using inv_req_send [OF assms(1,3)] assms(4) that by (auto simp: cell_ok_def)
  moreover have "inv_req issued (sendResponse i sa (RespErr e) st)" for e
    by (rule inv_req_send [OF assms(1,3)]) simp
  moreover have "inv_req issued (upd i f st')"
    if "inv_req issued st'" "\<And>sa. sa_Reference (f sa) = sa_Reference sa" "\<And>sa. outstanding (f sa) = outstanding sa" for f st'
    using that by (intro inv_req_upd) auto
  ultimately show ?thesis
    using assms(1) by (auto simp: settle_def outstanding_def split: sum.split prod.split)
qed

lemma inv_req_lookup:
  assumes st: "inv_req issued st" and m: "inv_map st" and i: "tc_cells st i = None" and q: "tc_req st q = None"
  shows "inv_req issued (getTokens_lookup i q ref st)"
proof (cases "tc_sas st ref")
  case None
  have "inv_req issued (set_req q ref (RRead i) (addServiceAccount i ref 0 st))"
    using inv_req_add [OF st i, of ref 0] q by (rule_tac inv_req_caller) (auto simp: req_ok_def)
  then show ?thesis using None by (simp add: getTokens_lookup_def)
next
  case (Some j)
  then obtain sa where sa: "tc_cells st j = Some sa" "sa_Reference sa = ref" using inv_mapD(3) [OF m] by blast
  have "inv_req issued (set_req q ref ph st)" if "req_ok issued st \<lparr>r_ref = ref, r_phase = ph\<rparr>" for ph
    by (rule inv_req_caller [OF st _ that]) (use q in auto)
  then show ?thesis using Some sa by (simp add: getTokens_lookup_def req_ok_def)
qed

lemma inv_req_read:
  assumes st: "inv_req issued st" and c: "inv_cells issued st" and q: "tc_req st q = Some \<lparr>r_ref = ref, r_phase = RRead i\<rparr>"
    and sa: "tc_cells st i = Some sa"
  shows "inv_req issued (getTokens_read now q ref i sa st)"
proof -
  have ref: "sa_Reference sa = ref" using inv_reqD(4) [OF st q] sa by (simp add: req_ok_def)
  then have "issued ref t" if "sa_tokens sa = Some t" for t
    using c sa that by (auto simp: inv_cells_def cell_ok_def)
  then have "inv_req issued (set_req q ref (RDone (Inr (sa_tokens sa))) st)"
    using st q by (rule_tac inv_req_caller) (auto simp: req_ok_def returned_or_waits_def)
  moreover have "inv_req issued (set_req q ref (RDispatch i) (st\<lparr>tc_cacheMisses := n\<rparr>))" for n
    using st q sa ref by (rule_tac inv_req_caller) (auto simp: req_ok_def returned_or_waits_def)
  ultimately show ?thesis by (simp add: getTokens_read_def)
qed

lemma inv_req_receive:
  assumes st: "inv_req issued st" and q: "tc_req st q = Some \<lparr>r_ref = ref, r_phase = RWait i\<rparr>"
    and resp: "tc_chan st q = resp # resps"
  shows "inv_req issued (set_req q ref (RDone (response_result resp)) st)"
proof -
  have "issued ref t" if "resp = RespTokens t" for t
    using inv_reqD(3) [OF st, of q] q resp that by (auto simp: chan_ok_def)
  then have "req_ok issued st \<lparr>r_ref = ref, r_phase = RDone (response_result resp)\<rparr>"
    by (cases resp) (auto simp: req_ok_def)
  then show ?thesis by (rule inv_req_caller [OF st disjI1 [OF q]]) (simp add: returned_or_waits_def)
qed

lemma inv_req_step:
  "tc_step issued concurrency st st' \<Longrightarrow> inv_map st \<Longrightarrow> inv_cells issued st \<Longrightarrow> inv_req issued st \<Longrightarrow> inv_req issued st'"
proof (induction rule: tc_step.induct)
  case (get_lookup st i q ref)
  then show ?case by (simp add: inv_req_lookup)
next
  case (get_read st q ref i sa now)
  then show ?case by (simp add: inv_req_read)
next
  case (req_dispatch st q ref i sa)
  then show ?case by (simp add: inv_req_dispatch)
next
  case (req_receive st q ref i resp resps)
  then show ?case by (simp add: inv_req_receive)
next
  case (req_give_up st q ref ph i err)
  then show ?case by (intro inv_req_caller [of issued st q ref ph]) (auto simp: req_ok_def returned_or_waits_def)
next
  case (go_settle st i sa res now)
  then show ?case by (simp add: inv_req_settle)
next
  case (go_exit st i sa)
  then show ?case
    using inv_req_send [OF go_exit(5,1), of RespNothing] by (intro inv_req_upd) (auto simp: outstanding_def)
next
  case (add_pod st i ref)
  then show ?case
    by (auto simp: AddPodServiceAccount_def outstanding_def inv_req_add intro!: inv_req_upd split: option.split)
next
  case (go_request st i sa d req reqs)
  then show ?case by (intro inv_req_upd) (auto simp: outstanding_def)
next
  case (update_sa st ref)
  then show ?case
    by (auto simp: UpdateServiceAccount_def intro!: inv_req_upd split: option.split) (simp_all add: outstanding_def)
next
  case (delete_sa st ref)
  then show ?case
    by (auto simp: DeleteServiceAccount_def intro!: inv_req_upd split: option.split) (simp_all add: outstanding_def)
qed (auto simp: check_then_def checkIfMustDeleteAndDelete_def DeletePodServiceAccount_def outstanding_def
    intro!: inv_req_upd split: option.split)


lemma inv_initial: "inv_map NewProvider" "inv_cells issued NewProvider" "inv_sem concurrency NewProvider" "inv_req issued NewProvider"
  by (simp_all add: NewProvider_def inv_map_def inv_cells_def inv_sem_def held_def creating_def inv_req_def chan_ok_def)

lemma tc_reachable:
  assumes "(tc_step issued concurrency)\<^sup>*\<^sup>* NewProvider st"
  shows "inv_map st \<and> inv_cells issued st \<and> inv_sem concurrency st \<and> inv_req issued st"
  using assms
  by (induction rule: rtranclp_induct)
    (auto intro: inv_initial inv_map_step inv_cells_step inv_sem_step inv_req_step)

lemma answer_set: "set (answer reqs resp ch q) \<subseteq> insert resp (set (ch q))"
proof (induction reqs arbitrary: ch)
  case (Cons req reqs)
  show ?case
  proof (cases req)
    case None
    then show ?thesis using Cons [of ch] by (simp add: answer_def)
  next
    case (Some q')
    then have "answer (req # reqs) resp ch = answer reqs resp (ch(q' := ch q' @ [resp]))" by (simp add: answer_def)
    moreover have "insert resp (set ((ch(q' := ch q' @ [resp])) q)) = insert resp (set (ch q))" by auto
    ultimately show ?thesis using Cons [of "ch(q' := ch q' @ [resp])"] by (simp only:)
  qed
qed (auto simp: answer_def)

section \<open>Properties\<close>

text \<open>C10. In every reachable state of the cache a call of \<open>getTokens\<close> that returned tokens got tokens the
  source created for the service account it asked for, however pods, service accounts, requests and
  goroutines interleave; and no request is answered twice, so the goroutines never send on a closed
  channel.\<close>

theorem cache_right_account:
  assumes "(tc_step issued concurrency)\<^sup>*\<^sup>* NewProvider st"
  shows "(\<forall>q ref t. tc_req st q = Some \<lparr>r_ref = ref, r_phase = RDone (Inr (Some t))\<rparr> \<longrightarrow> issued ref t) \<and>
    (\<forall>q. length (tc_chan st q) \<le> 1) \<and>
    (\<forall>i j sa sb q. tc_cells st i = Some sa \<longrightarrow> tc_cells st j = Some sb \<longrightarrow>
       q \<in> set (outstanding sa) \<longrightarrow> q \<in> set (outstanding sb) \<longrightarrow> i = j \<and> tc_chan st q = [] \<and> distinct (outstanding sa))"
proof -
  have inv: "inv_req issued st" using tc_reachable [OF assms] by simp
  have "issued ref t" if "tc_req st q = Some \<lparr>r_ref = ref, r_phase = RDone (Inr (Some t))\<rparr>" for q ref t
    using inv_reqD(4) [OF inv that] by (simp add: req_ok_def)
  moreover have "length (tc_chan st q) \<le> 1" for q using inv_reqD(3) [OF inv, of q] by (simp add: chan_ok_def)
  moreover have "i = j \<and> tc_chan st q = [] \<and> distinct (outstanding sa)"
    if "tc_cells st i = Some sa" "tc_cells st j = Some sb" "q \<in> set (outstanding sa)" "q \<in> set (outstanding sb)" for i j sa sb q
    using inv_reqD(1) [OF inv that(1)] inv_reqD(2) [OF inv that(1,2)] that(3,4) unfolding out_ok_def by blast
  ultimately show ?thesis by blast
qed

definition example_ref :: Reference where
  "example_ref = \<lparr>ref_Name = ''sa'', ref_Namespace = ''ns''\<rparr>"

definition example_tokens :: tokens where
  "example_tokens = \<lparr>serviceAccountToken = newToken (time_Unix 1000) ''ns/sa'' (time_Unix 5000) Hour,
     googleAccessTokens = newToken (time_Unix 1000) \<lparr>DirectAccess = ''tok'', Impersonated = []\<rparr> (time_Unix 5000) Hour\<rparr>"

definition example_issued :: "Reference \<Rightarrow> tokens \<Rightarrow> bool" where
  "example_issued ref t \<longleftrightarrow> token (serviceAccountToken t) = ref_Namespace ref @ ''/'' @ ref_Name ref"

definition example_added :: tcache where
  "example_added = AddPodServiceAccount 0 example_ref NewProvider"

lemma example_added_cell:
  "tc_cells example_added = [0 \<mapsto> \<lparr>sa_Reference = example_ref, podCount = 1, sa_deleted = False, sa_tokens = None,
     externalRequests = [], g_phase = GCheck, g_retries = 0, g_pending = []\<rparr>]"
  "tc_sas example_added = [example_ref \<mapsto> 0]" "tc_req example_added = Map.empty" "tc_others example_added = 0"
  "tc_numTokens example_added = 1"
  by (simp_all add: example_added_def AddPodServiceAccount_def NewProvider_def)

lemma example_added_reachable: "(tc_step issued concurrency)\<^sup>*\<^sup>* NewProvider example_added"
  unfolding example_added_def by (rule r_into_rtranclp, rule tc_step.add_pod) (simp add: NewProvider_def)

definition example_settled :: tcache where
  "example_settled = settle (time_Unix 1000) 0
     (the (tc_cells example_added 0)\<lparr>g_phase := GCreated (Inr (example_tokens, None))\<rparr>) (Inr (example_tokens, None))
     (upd 0 (\<lambda>sa. sa\<lparr>g_phase := GCreated (Inr (example_tokens, None))\<rparr>)
       (upd 0 (\<lambda>sa. sa\<lparr>g_phase := GCreate\<rparr>) (upd 0 (\<lambda>sa. sa\<lparr>g_phase := GAcquire\<rparr>) example_added)))"

lemma example_settled_reachable:
  assumes "issued example_ref example_tokens"
  shows "(tc_step issued 1)\<^sup>*\<^sup>* NewProvider example_settled"
proof -
  let ?a = "upd 0 (\<lambda>sa. sa\<lparr>g_phase := GAcquire\<rparr>) example_added"
  let ?b = "upd 0 (\<lambda>sa. sa\<lparr>g_phase := GCreate\<rparr>) ?a"
  let ?c = "upd 0 (\<lambda>sa. sa\<lparr>g_phase := GCreated (Inr (example_tokens, None))\<rparr>) ?b"
  have "tc_step issued 1 example_added ?a"
    using tc_step.go_check [of example_added 0 "the (tc_cells example_added 0)" issued 1]
    by (simp add: example_added_cell check_then_def checkIfMustDeleteAndDelete_def mustDelete_def)
  moreover have "creating ?a = {}" by (auto simp: creating_def example_added_cell)
  then have "tc_step issued 1 ?a ?b"
    by (intro tc_step.go_acquire [where sa = "the (tc_cells ?a 0)"]) (simp_all add: example_added_cell held_def)
  moreover have "tc_step issued 1 ?b ?c"
    by (intro tc_step.go_create [where sa = "the (tc_cells ?b 0)"])
      (use assms in \<open>simp_all add: example_added_cell\<close>)
  moreover have "tc_step issued 1 ?c example_settled"
    unfolding example_settled_def
    by (intro tc_step.go_settle) (simp_all add: example_added_cell mustDelete_def)
  ultimately show ?thesis using example_added_reachable
    by (meson rtranclp.rtrancl_into_rtrancl)
qed

lemma example_settled_cell:
  "tc_sas example_settled = [example_ref \<mapsto> 0]" "tc_req example_settled = Map.empty"
  "tc_cells example_settled 1 = None"
  "\<exists>sa. tc_cells example_settled 0 = Some sa \<and> sa_tokens sa = Some example_tokens \<and> \<not> sa_deleted sa"
  by (simp_all add: example_settled_def settle_def example_added_cell)

lemma example_usable: "usable (time_Unix 1000) (Some example_tokens)"
  by code_simp

text \<open>A call that finds the tokens of the account in the cache.\<close>

lemma example_got:
  assumes "issued example_ref example_tokens"
  shows "\<exists>st. (tc_step issued 1)\<^sup>*\<^sup>* NewProvider st \<and>
    tc_req st 5 = Some \<lparr>r_ref = example_ref, r_phase = RDone (Inr (Some example_tokens))\<rparr>"
proof -
  obtain sa where sa: "tc_cells example_settled 0 = Some sa" "sa_tokens sa = Some example_tokens" "\<not> sa_deleted sa"
    using example_settled_cell(4) by blast
  let ?a = "set_req 5 example_ref (RRead 0) example_settled"
  let ?b = "set_req 5 example_ref (RDone (Inr (Some example_tokens))) ?a"
  have "tc_step issued 1 example_settled ?a"
    using tc_step.get_lookup [of example_settled 1 5 issued 1 example_ref] sa example_settled_cell
    by (simp add: getTokens_lookup_def)
  moreover have "tc_step issued 1 ?a ?b"
    using tc_step.get_read [of ?a 5 example_ref 0 sa issued 1 "time_Unix 1000"] sa example_usable
    by (simp add: getTokens_read_def)
  ultimately have "(tc_step issued 1)\<^sup>*\<^sup>* NewProvider ?b"
    using example_settled_reachable [of issued, OF assms] by (meson rtranclp.rtrancl_into_rtrancl)
  moreover have "tc_req ?b 5 = Some \<lparr>r_ref = example_ref, r_phase = RDone (Inr (Some example_tokens))\<rparr>" by simp
  ultimately show ?thesis by blast
qed

lemma example_tokens_issued: "example_issued example_ref example_tokens"
  by (simp add: example_issued_def example_tokens_def example_ref_def newToken_def Let_def)

theorem cache_right_account_witness:
  "\<exists>st. (tc_step example_issued 1)\<^sup>*\<^sup>* NewProvider st \<and>
     tc_req st 5 = Some \<lparr>r_ref = example_ref, r_phase = RDone (Inr (Some example_tokens))\<rparr> \<and>
     example_issued example_ref example_tokens"
proof -
  obtain st where st: "(tc_step example_issued 1)\<^sup>*\<^sup>* NewProvider st"
      "tc_req st 5 = Some \<lparr>r_ref = example_ref, r_phase = RDone (Inr (Some example_tokens))\<rparr>"
    using example_got [of example_issued] example_tokens_issued by blast
  with conjunct1 [OF cache_right_account [OF st(1)]] show ?thesis by blast
qed

text \<open>C13. The gauge of cached tokens is the number of service accounts in the map; until \<open>Close\<close> every one of
  them has its goroutine running, and a running goroutine's account is in the map, so an account never
  has two goroutines.\<close>

theorem cache_goroutines:
  assumes "(tc_step issued concurrency)\<^sup>*\<^sup>* NewProvider st"
  shows "tc_numTokens st = int (card (dom (tc_sas st))) \<and>
    (\<forall>ref i. tc_sas st ref = Some i \<longrightarrow> (\<exists>sa. tc_cells st i = Some sa \<and> sa_Reference sa = ref \<and> (tc_done st \<or> live sa))) \<and>
    (\<forall>i j sa sb. tc_cells st i = Some sa \<longrightarrow> tc_cells st j = Some sb \<longrightarrow> live sa \<longrightarrow> live sb \<longrightarrow>
       sa_Reference sa = sa_Reference sb \<longrightarrow> i = j)"
proof -
  have inv: "inv_map st" using tc_reachable [OF assms] by simp
  have "i = j" if "tc_cells st i = Some sa" "tc_cells st j = Some sb" "live sa" "live sb" "sa_Reference sa = sa_Reference sb"
    for i j sa sb
    using inv_mapD(4) [OF inv that(1,3)] inv_mapD(4) [OF inv that(2,4)] that(5) by simp
  then show ?thesis using inv_mapD(2,3) [OF inv] by blast
qed

theorem cache_goroutines_witness:
  "card (dom (tc_sas example_added)) = 1 \<and> (\<exists>sa. tc_cells example_added 0 = Some sa \<and> live sa)"
proof -
  have "\<not> tc_done example_added" by (simp add: example_added_def AddPodServiceAccount_def NewProvider_def)
  moreover have "tc_sas example_added example_ref = Some 0" by (simp add: example_added_cell)
  ultimately have "\<exists>sa. tc_cells example_added 0 = Some sa \<and> live sa"
    using cache_goroutines [OF example_added_reachable [of example_issued 1]] by blast
  then show ?thesis
    using conjunct1 [OF cache_goroutines [OF example_added_reachable [of example_issued 1]]] example_added_cell(5) by simp
qed

text \<open>C34. The semaphore bounds the concurrent creation of tokens by the configured concurrency, and a
  goroutine whose creations keep failing waits 1, 2, 4, 8, 16 and then always 32 seconds between attempts.\<close>

theorem cache_bounds:
  assumes "(tc_step issued concurrency)\<^sup>*\<^sup>* NewProvider st"
  shows "card (creating st) + tc_others st \<le> concurrency \<and>
    (\<forall>i sa err now sa'. tc_cells st i = Some sa \<longrightarrow> \<not> errors_Is err ErrGKEAnnotationInvalid \<longrightarrow>
       tc_cells (settle now i sa (Inl err) st) i = Some sa' \<longrightarrow>
       g_phase sa' = GSleep (2 ^ g_retries sa * Second) \<and> 2 ^ g_retries sa * Second \<le> 32 * Second \<and>
       g_retries sa' = min 5 (Suc (g_retries sa)))"
proof -
  have sem: "held st \<le> concurrency" using tc_reachable [OF assms] by (simp add: inv_sem_def)
  have ret: "g_retries sa \<le> 5" if "tc_cells st i = Some sa" for i sa
    using tc_reachable [OF assms] that by (auto simp: inv_cells_def cell_ok_def)
  have "(2 :: int) ^ g_retries sa \<le> 2 ^ 5" if "tc_cells st i = Some sa" for i sa
    using ret [OF that] by (intro power_increasing) auto
  then show ?thesis
    using sem ret by (auto simp: held_def settle_def backoff_def Second_def not_less intro: le_antisym)
qed

theorem cache_bounds_witness:
  "\<exists>sa. tc_cells (settle (time_Unix 1000) 0 (the (tc_cells example_added 0)) (Inl ctxCanceled) example_added) 0 = Some sa \<and>
     g_phase sa = GSleep Second \<and> g_retries sa = 1"
proof -
  have e: "\<not> errors_Is ctxCanceled ErrGKEAnnotationInvalid"
    by (simp add: errors_Is_def ctxCanceled_def ErrGKEAnnotationInvalid_def)
  then obtain sa where sa: "tc_cells (settle (time_Unix 1000) 0 (the (tc_cells example_added 0)) (Inl ctxCanceled) example_added) 0 = Some sa"
    by (simp add: settle_def example_added_cell)
  have "tc_cells example_added 0 = Some (the (tc_cells example_added 0))" "g_retries (the (tc_cells example_added 0)) = 0"
    by (simp_all add: example_added_cell)
  moreover from this(1) e sa have "g_phase sa = GSleep (2 ^ g_retries (the (tc_cells example_added 0)) * Second) \<and>
      g_retries sa = min 5 (Suc (g_retries (the (tc_cells example_added 0))))"
    using conjunct2 [OF cache_bounds [OF example_added_reachable [of example_issued 1]]] by blast
  ultimately show ?thesis using sa by simp
qed

end
