(* ===== verification/Token_Cache_Liveness.thy ===== *)
theory Token_Cache_Liveness
  imports Token_Cache_Machine
begin

text \<open>
  What becomes of a request that waits for tokens: in every reachable state it can still be answered as
  long as the goroutine of its service account runs, whatever holds the semaphore; and a request that is
  sent to a goroutine after its end is answered by nobody, so that its caller waits until it gives up.
\<close>

section \<open>A waiting request is in somebody's hands\<close>

text \<open>A caller that waits has a response in its channel, or its request is with the goroutine it waits for.\<close>

definition inv_wait :: "tcache \<Rightarrow> bool" where
  "inv_wait st \<longleftrightarrow> (\<forall>q ref i. tc_req st q = Some \<lparr>r_ref = ref, r_phase = RWait i\<rparr> \<longrightarrow>
     tc_chan st q \<noteq> [] \<or> (\<exists>sa. tc_cells st i = Some sa \<and> q \<in> set (outstanding sa)))"

lemma inv_waitD:
  assumes "inv_wait st" "tc_req st q = Some \<lparr>r_ref = ref, r_phase = RWait i\<rparr>" "tc_chan st q = []"
  obtains sa where "tc_cells st i = Some sa" "q \<in> set (outstanding sa)"
  using assms unfolding inv_wait_def by blast

lemma inv_waitI:
  assumes "\<And>q ref i. tc_req st q = Some \<lparr>r_ref = ref, r_phase = RWait i\<rparr> \<Longrightarrow> tc_chan st q = [] \<Longrightarrow>
    \<exists>sa. tc_cells st i = Some sa \<and> q \<in> set (outstanding sa)"
  shows "inv_wait st"
  using assms unfolding inv_wait_def by blast

lemma inv_wait_upd:
  assumes "inv_wait st" "\<And>sa. tc_cells st i = Some sa \<Longrightarrow> set (outstanding sa) \<subseteq> set (outstanding (f sa))"
  shows "inv_wait (upd i f st)"
proof (rule inv_waitI)
  fix q ref j assume "tc_req (upd i f st) q = Some \<lparr>r_ref = ref, r_phase = RWait j\<rparr>" "tc_chan (upd i f st) q = []"
  then obtain sa where sa: "tc_cells st j = Some sa" "q \<in> set (outstanding sa)"
    using inv_waitD [OF assms(1), of q ref j] by auto
  then show "\<exists>sa. tc_cells (upd i f st) j = Some sa \<and> q \<in> set (outstanding sa)"
    using assms(2) by (cases "j = i") auto
qed

lemma inv_wait_other [simp]:
  "inv_wait (st\<lparr>tc_cacheMisses := n\<rparr>) = inv_wait st" "inv_wait (st\<lparr>tc_others := n\<rparr>) = inv_wait st"
  "inv_wait (st\<lparr>tc_done := d\<rparr>) = inv_wait st" "inv_wait (st\<lparr>tc_sas := m, tc_numTokens := z\<rparr>) = inv_wait st"
  by (simp_all add: inv_wait_def)

lemma inv_wait_caller: "inv_wait st \<Longrightarrow> (\<And>i. ph \<noteq> RWait i) \<Longrightarrow> inv_wait (set_req q ref ph st)"
  by (auto simp: inv_wait_def)

lemma inv_wait_add:
  assumes "inv_wait st" "tc_cells st i = None"
  shows "inv_wait (addServiceAccount i ref n st)"
proof (rule inv_waitI)
  fix q r j assume "tc_req (addServiceAccount i ref n st) q = Some \<lparr>r_ref = r, r_phase = RWait j\<rparr>"
      "tc_chan (addServiceAccount i ref n st) q = []"
  then obtain sa where "tc_cells st j = Some sa" "q \<in> set (outstanding sa)"
    using inv_waitD [OF assms(1), of q r j] by auto
  then show "\<exists>sa. tc_cells (addServiceAccount i ref n st) j = Some sa \<and> q \<in> set (outstanding sa)"
    using assms(2) by auto
qed

lemma answer_Cons: "answer (req # reqs) resp ch = answer reqs resp (case req of None \<Rightarrow> ch | Some q \<Rightarrow> ch(q := ch q @ [resp]))"
  by (simp add: answer_def)

lemma answer_keeps: "ch q \<noteq> [] \<Longrightarrow> answer reqs resp ch q \<noteq> []"
proof (induction reqs arbitrary: ch)
  case (Cons req reqs)
  then show ?case by (simp add: answer_Cons split: option.split)
qed (simp add: answer_def)

lemma answer_answers: "Some q \<in> set reqs \<Longrightarrow> answer reqs resp ch q \<noteq> []"
proof (induction reqs arbitrary: ch)
  case (Cons req reqs)
  then show ?case by (cases "req = Some q") (auto simp: answer_Cons answer_keeps)
qed simp

lemma outstanding_iff: "q \<in> set (outstanding sa) \<longleftrightarrow> Some q \<in> set (g_pending sa) \<or> Some q \<in> set (externalRequests sa)"
  by (force simp: outstanding_def List.map_filter_def image_iff)

lemma inv_wait_send:
  assumes "inv_wait st" "tc_cells st i = Some sa"
  shows "inv_wait (sendResponse i sa resp st)"
proof (rule inv_waitI)
  fix q ref j assume q: "tc_req (sendResponse i sa resp st) q = Some \<lparr>r_ref = ref, r_phase = RWait j\<rparr>"
      "tc_chan (sendResponse i sa resp st) q = []"
  then have "tc_chan st q = []" using answer_keeps by fastforce
  then obtain sb where sb: "tc_cells st j = Some sb" "q \<in> set (outstanding sb)"
    using inv_waitD [OF assms(1), of q ref j] q(1) by auto
  have "\<not> (Some q \<in> set (g_pending sa @ externalRequests sa))" using q(2) answer_answers by fastforce
  then have "j \<noteq> i" using sb assms(2) by (auto simp: outstanding_iff)
  then show "\<exists>sb. tc_cells (sendResponse i sa resp st) j = Some sb \<and> q \<in> set (outstanding sb)" using sb by simp
qed

lemma inv_wait_settle: "inv_wait st \<Longrightarrow> tc_cells st i = Some sa \<Longrightarrow> inv_wait (settle now i sa res st)"
  by (auto simp: settle_def outstanding_iff split: sum.split prod.split intro!: inv_wait_upd inv_wait_send)

lemma inv_wait_dispatch:
  assumes "inv_wait st" "tc_cells st i = Some sa" "externalRequests sa = []"
  shows "inv_wait (upd i (\<lambda>sa. sa\<lparr>externalRequests := [Some q]\<rparr>) (set_req q ref (RWait i) st))"
proof (rule inv_waitI)
  let ?st = "upd i (\<lambda>sa. sa\<lparr>externalRequests := [Some q]\<rparr>) (set_req q ref (RWait i) st)"
  fix p r j assume p: "tc_req ?st p = Some \<lparr>r_ref = r, r_phase = RWait j\<rparr>" "tc_chan ?st p = []"
  show "\<exists>sb. tc_cells ?st j = Some sb \<and> p \<in> set (outstanding sb)"
  proof (cases "p = q")
    case True
    then show ?thesis using p assms(2) by (auto simp: outstanding_iff)
  next
    case False
    then obtain sb where "tc_cells st j = Some sb" "p \<in> set (outstanding sb)"
      using p inv_waitD [OF assms(1), of p r j] by auto
    then show ?thesis using assms(2,3) by (cases "j = i") (auto simp: outstanding_iff)
  qed
qed

lemma inv_wait_step: "tc_step issued concurrency st st' \<Longrightarrow> inv_wait st \<Longrightarrow> inv_wait st'"
proof (induction rule: tc_step.induct)
  case (add_pod st i ref)
  then show ?case
    by (auto simp: AddPodServiceAccount_def outstanding_iff intro!: inv_wait_upd inv_wait_add split: option.split)
next
  case (get_lookup st i q ref)
  then show ?case
    by (auto simp: getTokens_lookup_def intro!: inv_wait_caller inv_wait_add split: option.split)
next
  case (req_dispatch st q ref i sa)
  then show ?case by (intro inv_wait_dispatch) auto
next
  case (go_settle st i sa res now)
  then show ?case by (intro inv_wait_settle)
next
  case (go_exit st i sa)
  then show ?case by (intro inv_wait_upd inv_wait_send) (auto simp: outstanding_iff)
qed (auto simp: DeletePodServiceAccount_def UpdateServiceAccount_def DeleteServiceAccount_def notify_def getTokens_read_def
    check_then_def checkIfMustDeleteAndDelete_def outstanding_iff intro!: inv_wait_upd inv_wait_caller split: option.split)

lemma inv_wait_initial: "inv_wait NewProvider"
  by (simp add: inv_wait_def NewProvider_def)

lemma reachable_wait: "(tc_step issued concurrency)\<^sup>*\<^sup>* NewProvider st \<Longrightarrow> inv_wait st"
  by (induction rule: rtranclp_induct) (auto intro: inv_wait_initial inv_wait_step)

section \<open>A running goroutine can answer\<close>

text \<open>The request \<open>q\<close> for the account \<open>ref\<close> is with the goroutine of the object \<open>i\<close>, which is at \<open>ph\<close>.\<close>

definition serving :: "nat \<Rightarrow> Reference \<Rightarrow> nat \<Rightarrow> gphase \<Rightarrow> tcache \<Rightarrow> bool" where
  "serving q ref i ph st \<longleftrightarrow> tc_req st q = Some \<lparr>r_ref = ref, r_phase = RWait i\<rparr> \<and> tc_chan st q = [] \<and>
     (\<exists>sa. tc_cells st i = Some sa \<and> sa_Reference sa = ref \<and> \<not> mustDelete sa \<and> g_phase sa = ph \<and>
        q \<in> set (outstanding sa) \<and> distinct (outstanding sa))"

lemma serving_upd: "serving q ref i ph st \<Longrightarrow> serving q ref i ph' (upd i (\<lambda>sa. sa\<lparr>g_phase := ph'\<rparr>) st)"
  by (auto simp: serving_def mustDelete_def outstanding_def)

abbreviation runs :: "(Reference \<Rightarrow> tokens \<Rightarrow> bool) \<Rightarrow> nat \<Rightarrow> tcache \<Rightarrow> tcache \<Rightarrow> bool" where
  "runs issued concurrency \<equiv> (tc_step issued concurrency)\<^sup>*\<^sup>*"

definition answerable :: "(Reference \<Rightarrow> tokens \<Rightarrow> bool) \<Rightarrow> nat \<Rightarrow> nat \<Rightarrow> Reference \<Rightarrow> tcache \<Rightarrow> bool" where
  "answerable issued concurrency q ref st \<longleftrightarrow>
     (\<exists>st' t. runs issued concurrency st st' \<and> issued ref t \<and> tc_req st' q = Some \<lparr>r_ref = ref, r_phase = RDone (Inr (Some t))\<rparr>)"

lemma answerable_step: "tc_step issued concurrency st st' \<Longrightarrow> answerable issued concurrency q ref st' \<Longrightarrow> answerable issued concurrency q ref st"
  unfolding answerable_def by (meson converse_rtranclp_into_rtranclp)

text \<open>From the created tokens to the answer: the goroutine sends them to every request it has.\<close>

lemma answer_created:
  assumes "serving q ref i (GCreated (Inr (t, email))) st" "issued ref t"
  shows "answerable issued concurrency q ref st"
proof -
  obtain sa where sa: "tc_cells st i = Some sa" "\<not> mustDelete sa" "g_phase sa = GCreated (Inr (t, email))"
      "q \<in> set (outstanding sa)" "distinct (outstanding sa)"
    and q: "tc_req st q = Some \<lparr>r_ref = ref, r_phase = RWait i\<rparr>" "tc_chan st q = []"
    using assms(1) unfolding serving_def by blast
  let ?st = "settle (time_Unix 0) i sa (Inr (t, email)) st"
  have "tc_req ?st q = Some \<lparr>r_ref = ref, r_phase = RWait i\<rparr>" "tc_chan ?st q = [RespTokens t]"
    using q sa(4,5) answer_at [of "g_pending sa @ externalRequests sa" "RespTokens t" "tc_chan st" q]
    by (simp_all add: settle_def outstanding_def)
  then have "tc_step issued concurrency ?st (set_req q ref (RDone (response_result (RespTokens t))) ?st)"
    by (rule tc_step.req_receive)
  moreover have "tc_step issued concurrency st ?st" by (rule tc_step.go_settle [OF sa(1,3,2)])
  ultimately have "runs issued concurrency st (set_req q ref (RDone (response_result (RespTokens t))) ?st)" by simp
  moreover have "tc_req (set_req q ref (RDone (response_result (RespTokens t))) ?st) q =
      Some \<lparr>r_ref = ref, r_phase = RDone (Inr (Some t))\<rparr>" by simp
  ultimately show ?thesis using assms(2) unfolding answerable_def by blast
qed

lemma answer_create:
  assumes "serving q ref i GCreate st" "issued ref t"
  shows "answerable issued concurrency q ref st"
proof -
  obtain sa where sa: "tc_cells st i = Some sa" "g_phase sa = GCreate" "sa_Reference sa = ref"
    using assms(1) unfolding serving_def by blast
  have "tc_step issued concurrency st (upd i (\<lambda>sa. sa\<lparr>g_phase := GCreated (Inr (t, None))\<rparr>) st)"
    using assms(2) sa by (intro tc_step.go_create [OF sa(1,2)]) simp
  moreover have "answerable issued concurrency q ref (upd i (\<lambda>sa. sa\<lparr>g_phase := GCreated (Inr (t, None))\<rparr>) st)"
    by (rule answer_created [where issued = issued and t = t]) (rule serving_upd [OF assms(1)], rule assms(2))
  ultimately show ?thesis by (rule answerable_step)
qed

text \<open>Whoever holds the semaphore can release it: a call of the input-dependent caches returns, and so does
  the creation of another goroutine, if only with an error.\<close>

lemma semaphore_free:
  assumes "inv_sem concurrency st" "0 < concurrency" "serving q ref i GAcquire st"
  shows "\<exists>st'. runs issued concurrency st st' \<and> serving q ref i GAcquire st' \<and> held st' < concurrency"
proof (cases "held st < concurrency")
  case True
  then show ?thesis using assms(3) by blast
next
  case False
  then have held: "held st = concurrency" using assms(1) by (simp add: inv_sem_def)
  show ?thesis
  proof (cases "0 < tc_others st")
    case True
    let ?st = "st\<lparr>tc_others := tc_others st - 1\<rparr>"
    have "tc_step issued concurrency st ?st" by (rule tc_step.other_release [OF True])
    moreover have "held ?st < concurrency" using held True assms(2) by (simp add: held_def creating_def)
    moreover have "serving q ref i GAcquire ?st" using assms(3) by (simp add: serving_def)
    ultimately show ?thesis by blast
  next
    case False
    then have "creating st \<noteq> {}" using held assms(2) by (auto simp: held_def)
    then obtain j sb where sb: "tc_cells st j = Some sb" "g_phase sb = GCreate" by (auto simp: creating_def)
    let ?st = "upd j (\<lambda>sa. sa\<lparr>g_phase := GCreated (Inl ctxCanceled)\<rparr>) st"
    have "tc_step issued concurrency st ?st" by (rule tc_step.go_create [OF sb]) simp
    moreover have "j \<noteq> i" using assms(3) sb by (auto simp: serving_def)
    then have "serving q ref i GAcquire ?st" using assms(3) by (simp add: serving_def)
    moreover have "creating ?st = creating st - {j}" using creating_upd [OF sb(1)] by simp
    then have "card (creating ?st) < card (creating st)"
      using finite_creating [OF assms(1)] sb by (intro psubset_card_mono) (auto simp: creating_def)
    then have "held ?st < concurrency" using held by (simp add: held_def)
    ultimately show ?thesis by blast
  qed
qed

lemma answer_acquire:
  assumes "inv_sem concurrency st" "0 < concurrency" "serving q ref i GAcquire st" "issued ref t"
  shows "answerable issued concurrency q ref st"
proof -
  obtain st1 where st1: "runs issued concurrency st st1" "serving q ref i GAcquire st1" "held st1 < concurrency"
    using semaphore_free [OF assms(1-3)] by blast
  obtain sa where sa: "tc_cells st1 i = Some sa" "g_phase sa = GAcquire" using st1(2) unfolding serving_def by blast
  have "answerable issued concurrency q ref (upd i (\<lambda>sa. sa\<lparr>g_phase := GCreate\<rparr>) st1)"
    by (rule answer_create [where issued = issued and t = t]) (rule serving_upd [OF st1(2)], rule assms(4))
  then have "answerable issued concurrency q ref st1" using answerable_step tc_step.go_acquire [OF sa st1(3)] by blast
  then show ?thesis using st1(1) unfolding answerable_def by (meson rtranclp_trans)
qed

lemma answer_check:
  assumes "inv_sem concurrency st" "0 < concurrency" "serving q ref i GCheck st" "issued ref t"
  shows "answerable issued concurrency q ref st"
proof -
  obtain sa where sa: "tc_cells st i = Some sa" "g_phase sa = GCheck" "\<not> mustDelete sa"
    using assms(3) unfolding serving_def by blast
  let ?st = "upd i (\<lambda>sa. sa\<lparr>g_phase := GAcquire\<rparr>) st"
  have "check_then GAcquire i sa st = ?st" using sa(3) by (simp add: check_then_def checkIfMustDeleteAndDelete_def)
  then have step: "tc_step issued concurrency st ?st" using tc_step.go_check [OF sa(1,2)] by metis
  have "inv_sem concurrency ?st" using assms(1) by (rule inv_sem_upd) simp
  then have "answerable issued concurrency q ref ?st"
    by (rule answer_acquire [where issued = issued and t = t]) (rule assms(2) serving_upd [OF assms(3)] assms(4))+
  with step show ?thesis by (rule answerable_step)
qed

lemma answer_sleep:
  assumes "inv_sem concurrency st" "0 < concurrency" "serving q ref i (GSleep d) st" "issued ref t"
  shows "answerable issued concurrency q ref st"
proof -
  obtain sa where sa: "tc_cells st i = Some sa" "g_phase sa = GSleep d" using assms(3) unfolding serving_def by blast
  let ?st = "upd i (\<lambda>sa. sa\<lparr>g_phase := GCheck\<rparr>) st"
  have step: "tc_step issued concurrency st ?st" by (rule tc_step.go_timer [OF sa])
  have "inv_sem concurrency ?st" using assms(1) by (rule inv_sem_upd) simp
  then have "answerable issued concurrency q ref ?st"
    by (rule answer_check [where issued = issued and t = t]) (rule assms(2) serving_upd [OF assms(3)] assms(4))+
  with step show ?thesis by (rule answerable_step)
qed

text \<open>A failed creation that is retried keeps its requests.\<close>

lemma answer_failed:
  assumes "inv_sem concurrency st" "0 < concurrency" "serving q ref i (GCreated (Inl err)) st" "issued ref t"
    and "\<not> errors_Is err ErrGKEAnnotationInvalid"
  shows "answerable issued concurrency q ref st"
proof -
  obtain sa where sa: "tc_cells st i = Some sa" "g_phase sa = GCreated (Inl err)" "\<not> mustDelete sa"
    using assms(3) unfolding serving_def by blast
  let ?st = "settle (time_Unix 0) i sa (Inl err) st"
  have step: "tc_step issued concurrency st ?st" by (rule tc_step.go_settle [OF sa])
  have sem: "inv_sem concurrency ?st" using assms(1,5) by (auto simp: settle_def intro!: inv_sem_upd)
  have "serving q ref i (GSleep (backoff (g_retries sa))) ?st"
    using assms(3,5) sa(1) by (auto simp: serving_def settle_def mustDelete_def outstanding_def)
  then have "answerable issued concurrency q ref ?st"
    by (rule answer_sleep [where issued = issued and t = t, OF sem assms(2)]) (rule assms(4))
  with step show ?thesis by (rule answerable_step)
qed

section \<open>Properties\<close>

text \<open>C15. No request is ever blocked for good by the semaphore or by the other accounts: in every reachable state, a
  request that waits for a running goroutine can still be answered with tokens of its account, unless the
  account is to be deleted or its annotation was just found invalid.\<close>

theorem cache_answerable:
  assumes "(tc_step issued concurrency)\<^sup>*\<^sup>* NewProvider st" "0 < concurrency" "issued ref t"
    and "tc_req st q = Some \<lparr>r_ref = ref, r_phase = RWait i\<rparr>" "tc_chan st q = []"
    and "tc_cells st i = Some sa" "live sa" "\<not> mustDelete sa"
    and "\<forall>err. g_phase sa = GCreated (Inl err) \<longrightarrow> \<not> errors_Is err ErrGKEAnnotationInvalid"
  shows "\<exists>st' t'. (tc_step issued concurrency)\<^sup>*\<^sup>* st st' \<and> issued ref t' \<and>
    tc_req st' q = Some \<lparr>r_ref = ref, r_phase = RDone (Inr (Some t'))\<rparr>"
proof -
  have inv: "inv_cells issued st" "inv_sem concurrency st" "inv_req issued st" using tc_reachable [OF assms(1)] by simp_all
  have "q \<in> set (outstanding sa)" using inv_waitD [OF reachable_wait [OF assms(1)] assms(4,5)] assms(6) by auto
  moreover have "distinct (outstanding sa)" "sa_Reference sa = ref"
    using inv_reqD(1) [OF inv(3) assms(6)] inv_reqD(4) [OF inv(3) assms(4)] assms(6) by (simp_all add: out_ok_def req_ok_def)
  ultimately have serving: "serving q ref i (g_phase sa) st" using assms(4-6,8) by (simp add: serving_def)
  have created: "issued ref t'" if "g_phase sa = GCreated (Inr (t', email))" for t' email
    using inv(1) assms(6) that \<open>sa_Reference sa = ref\<close> by (auto simp: inv_cells_def cell_ok_def)
  note go_on = answer_check answer_acquire answer_sleep answer_failed
  note go_on = go_on [where issued = issued and t = t, OF inv(2) assms(2)]
  have "answerable issued concurrency q ref st"
  proof (cases "g_phase sa")
    case (GCreated res)
    show ?thesis
    proof (cases res)
      case (Inl err)
      then show ?thesis using go_on(4) serving GCreated assms(3,9) by simp
    next
      case (Inr x)
      obtain t' email where "x = (t', email)" by (cases x)
      then show ?thesis using answer_created [where issued = issued and t = t'] serving created GCreated Inr by simp
    qed
  qed (use serving assms(3,7) go_on(1-3) answer_create [where issued = issued and t = t] in \<open>auto simp: live_def\<close>)
  then show ?thesis unfolding answerable_def by blast
qed

section \<open>A request after the end of its goroutine\<close>

text \<open>The caller waits, and its request is in the channel of a goroutine that has ended.\<close>

definition lost :: "nat \<Rightarrow> Reference \<Rightarrow> nat \<Rightarrow> tcache \<Rightarrow> bool" where
  "lost q ref i st \<longleftrightarrow> tc_req st q = Some \<lparr>r_ref = ref, r_phase = RWait i\<rparr> \<and> tc_chan st q = [] \<and>
     (\<exists>sa. tc_cells st i = Some sa \<and> g_phase sa = GExit \<and> externalRequests sa = [Some q])"

lemma lost_dispatch:
  "tc_cells st i = Some sa \<Longrightarrow> g_phase sa = GExit \<Longrightarrow> tc_chan st q = [] \<Longrightarrow>
     lost q ref i (upd i (\<lambda>sa. sa\<lparr>externalRequests := [Some q]\<rparr>) (set_req q ref (RWait i) st))"
  by (simp add: lost_def)

lemma lost_upd:
  assumes "lost q ref i st"
    and "\<And>sa. tc_cells st j = Some sa \<Longrightarrow> j = i \<Longrightarrow> externalRequests sa = [Some q] \<Longrightarrow>
      g_phase (f sa) = g_phase sa \<and> externalRequests (f sa) = externalRequests sa"
  shows "lost q ref i (upd j f st)"
  using assms by (auto simp: lost_def)

lemma lost_live: "lost q ref i st \<Longrightarrow> tc_cells st j = Some sa \<Longrightarrow> g_phase sa \<noteq> GExit \<Longrightarrow> j \<noteq> i"
  by (auto simp: lost_def)

lemma lost_other [simp]:
  "lost q ref i (st\<lparr>tc_cacheMisses := n\<rparr>) = lost q ref i st" "lost q ref i (st\<lparr>tc_others := n\<rparr>) = lost q ref i st"
  "lost q ref i (st\<lparr>tc_done := d\<rparr>) = lost q ref i st" "lost q ref i (st\<lparr>tc_sas := m, tc_numTokens := z\<rparr>) = lost q ref i st"
  by (simp_all add: lost_def)

lemma lost_caller: "lost q ref i st \<Longrightarrow> p \<noteq> q \<Longrightarrow> lost q ref i (set_req p r ph st)"
  by (simp add: lost_def)

lemma lost_phase: "lost q ref i st \<Longrightarrow> tc_req st p = Some \<lparr>r_ref = r, r_phase = ph\<rparr> \<Longrightarrow> \<forall>k. ph \<noteq> RWait k \<Longrightarrow> p \<noteq> q"
  by (auto simp: lost_def)

lemma lost_add: "lost q ref i st \<Longrightarrow> tc_cells st j = None \<Longrightarrow> lost q ref i (addServiceAccount j r n st)"
  by (auto simp: lost_def)

text \<open>Another goroutine does not have the request, and so does not answer it.\<close>

lemma lost_send:
  assumes "lost q ref i st" "inv_req issued st" "tc_cells st j = Some sa" "g_phase sa \<noteq> GExit"
  shows "lost q ref i (sendResponse j sa resp st)"
proof -
  obtain sb where sb: "tc_cells st i = Some sb" "externalRequests sb = [Some q]" using assms(1) by (auto simp: lost_def)
  have ji: "j \<noteq> i" by (rule lost_live [OF assms(1,3,4)])
  then have "q \<notin> set (outstanding sa)"
    using inv_reqD(2) [OF assms(2,3) sb(1)] sb(2) outstanding_iff [of q sb] by auto
  then have "tc_chan (sendResponse j sa resp st) q = tc_chan st q"
    using inv_reqD(1) [OF assms(2,3)] answer_at [of "g_pending sa @ externalRequests sa" resp "tc_chan st" q]
    by (simp add: out_ok_def outstanding_def)
  then show ?thesis using assms(1) ji by (auto simp: lost_def)
qed

lemma lost_settle:
  assumes "lost q ref i st" "inv_req issued st" "tc_cells st j = Some sa" "g_phase sa \<noteq> GExit"
  shows "lost q ref i (settle now j sa res st)"
  using lost_live [OF assms(1,3,4)] lost_send [OF assms] assms(1)
  by (auto simp: settle_def split: sum.split intro!: lost_upd)

definition given_up :: "nat \<Rightarrow> Reference \<Rightarrow> tcache \<Rightarrow> bool" where
  "given_up q ref st \<longleftrightarrow> (\<exists>err. tc_req st q = Some \<lparr>r_ref = ref, r_phase = RDone (Inl err)\<rparr>)"

lemma lost_step:
  assumes "tc_step issued concurrency st st'" "inv_req issued st" "lost q ref i st"
  shows "lost q ref i st' \<or> given_up q ref st'"
  using assms
proof (induction rule: tc_step.induct)
  case (add_pod st j r)
  then show ?case by (auto simp: AddPodServiceAccount_def lost_add intro!: lost_upd split: option.split)
next
  case (get_lookup st j p r)
  then have "p \<noteq> q" by (auto simp: lost_def)
  then show ?case using get_lookup lost_add lost_caller by (auto simp: getTokens_lookup_def split: option.split)
next
  case (get_read st p r j sa now)
  then have "p \<noteq> q" using lost_phase by blast
  then show ?case using get_read lost_caller by (auto simp: getTokens_read_def)
next
  case (req_dispatch st p r j sa)
  then have "p \<noteq> q" using lost_phase by blast
  then have "lost q ref i (set_req p r (RWait j) st)" using req_dispatch lost_caller by blast
  then show ?case using req_dispatch(2,3) by (auto intro!: lost_upd)
next
  case (req_receive st p r j resp resps)
  then have "p \<noteq> q" by (auto simp: lost_def)
  then show ?case using req_receive lost_caller by blast
next
  case (req_give_up st p r ph j err)
  then show ?case using lost_caller by (cases "p = q") (auto simp: given_up_def lost_def)
next
  case (go_settle st j sa res now)
  then show ?case using lost_settle by fastforce
next
  case (go_exit st j sa)
  then have "j \<noteq> i" "lost q ref i (sendResponse j sa RespNothing st)" using lost_live lost_send by fastforce+
  then show ?case by (auto intro!: lost_upd)
qed (auto simp: DeletePodServiceAccount_def UpdateServiceAccount_def DeleteServiceAccount_def notify_def remove_pod_def
    check_then_def checkIfMustDeleteAndDelete_def dest: lost_live intro!: lost_upd split: option.split)

lemma given_up_step:
  assumes "tc_step issued concurrency st st'" "given_up q ref st"
  shows "given_up q ref st'"
  using assms
proof (induction rule: tc_step.induct)
  case (add_pod st j r)
  then show ?case by (auto simp: AddPodServiceAccount_def given_up_def split: option.split)
next
  case (get_lookup st j p r)
  then show ?case by (auto simp: getTokens_lookup_def given_up_def split: option.split)
next
  case (go_settle st j sa res now)
  then show ?case by (auto simp: settle_def given_up_def split: sum.split)
qed (auto simp: given_up_def DeletePodServiceAccount_def UpdateServiceAccount_def DeleteServiceAccount_def getTokens_read_def
    check_then_def checkIfMustDeleteAndDelete_def split: option.split)

text \<open>C36. A request that reaches the channel of a goroutine after the goroutine has returned is never answered: the
  account was looked up before it was deleted, and nobody reads that channel again. In every run from such
  a state the caller still waits, or has given up with an error because its own context or the process
  ended.\<close>

theorem cache_lost:
  assumes "(tc_step issued concurrency)\<^sup>*\<^sup>* NewProvider st" "lost q ref i st" "(tc_step issued concurrency)\<^sup>*\<^sup>* st st'"
  shows "tc_req st' q = Some \<lparr>r_ref = ref, r_phase = RWait i\<rparr> \<or> (\<exists>err. tc_req st' q = Some \<lparr>r_ref = ref, r_phase = RDone (Inl err)\<rparr>)"
proof -
  have "(tc_step issued concurrency)\<^sup>*\<^sup>* NewProvider st' \<and> (lost q ref i st' \<or> given_up q ref st')"
    using assms(3)
  proof (induction rule: rtranclp_induct)
    case base
    then show ?case using assms(1,2) by blast
  next
    case (step a b)
    have "inv_req issued a" using tc_reachable step.IH by blast
    then have "lost q ref i b \<or> given_up q ref b"
      using step.IH lost_step [OF step.hyps(2)] given_up_step [OF step.hyps(2)] by blast
    then show ?case using step by (meson rtranclp.rtrancl_into_rtrancl)
  qed
  then show ?thesis by (auto simp: lost_def given_up_def)
qed

section \<open>Examples\<close>

text \<open>A request that has found no tokens and is about to be sent.\<close>

definition example_asking :: tcache where
  "example_asking = set_req 5 example_ref (RDispatch 0)
     ((set_req 5 example_ref (RRead 0) example_added)\<lparr>tc_cacheMisses := Suc (tc_cacheMisses example_added)\<rparr>)"

lemma example_asking_fields:
  "tc_cells example_asking = tc_cells example_added" "tc_req example_asking 5 = Some \<lparr>r_ref = example_ref, r_phase = RDispatch 0\<rparr>"
  "tc_sas example_asking = tc_sas example_added" "tc_chan example_asking = (\<lambda>_. [])"
  by (simp_all add: example_asking_def) (simp add: example_added_def AddPodServiceAccount_def NewProvider_def)

lemma example_asking_reachable: "(tc_step example_issued 1)\<^sup>*\<^sup>* NewProvider example_asking"
proof -
  let ?sa = "the (tc_cells example_added 0)"
  let ?a = "set_req 5 example_ref (RRead 0) example_added"
  have cell: "tc_cells example_added 0 = Some ?sa" "\<not> sa_deleted ?sa" "sa_tokens ?sa = None"
    by (simp_all add: example_added_cell)
  have "tc_step example_issued 1 example_added ?a"
    using tc_step.get_lookup [of example_added 1 5 example_issued 1 example_ref] cell
    by (simp add: getTokens_lookup_def example_added_cell)
  moreover have "tc_step example_issued 1 ?a example_asking"
    using tc_step.get_read [of ?a 5 example_ref 0 ?sa example_issued 1 "time_Unix 1000"] cell
    by (simp add: getTokens_read_def usable_def example_asking_def set_req_def)
  ultimately show ?thesis
    using example_added_reachable [of example_issued 1] by (meson rtranclp.rtrancl_into_rtrancl)
qed

theorem cache_answerable_witness:
  "\<exists>st st' t. (tc_step example_issued 1)\<^sup>*\<^sup>* NewProvider st \<and> tc_req st 5 = Some \<lparr>r_ref = example_ref, r_phase = RWait 0\<rparr> \<and>
     (tc_step example_issued 1)\<^sup>*\<^sup>* st st' \<and> tc_req st' 5 = Some \<lparr>r_ref = example_ref, r_phase = RDone (Inr (Some t))\<rparr>"
proof -
  let ?st = "upd 0 (\<lambda>sa. sa\<lparr>externalRequests := [Some 5]\<rparr>) (set_req 5 example_ref (RWait 0) example_asking)"
  let ?sa = "(the (tc_cells example_added 0))\<lparr>externalRequests := [Some 5]\<rparr>"
  have step: "tc_step example_issued 1 example_asking ?st"
    by (rule tc_step.req_dispatch [where sa = "the (tc_cells example_added 0)"])
      (simp_all add: example_asking_fields example_added_cell)
  have reach: "(tc_step example_issued 1)\<^sup>*\<^sup>* NewProvider ?st"
    by (rule rtranclp.rtrancl_into_rtrancl [OF example_asking_reachable step])
  have req: "tc_req ?st 5 = Some \<lparr>r_ref = example_ref, r_phase = RWait 0\<rparr>" "tc_chan ?st 5 = []"
    by (simp_all add: example_asking_fields)
  have cell: "tc_cells ?st 0 = Some ?sa" "live ?sa" "\<not> mustDelete ?sa" "g_phase ?sa = GCheck"
    by (simp_all add: example_asking_fields example_added_cell live_def mustDelete_def)
  have "\<exists>st' t'. (tc_step example_issued 1)\<^sup>*\<^sup>* ?st st' \<and> example_issued example_ref t' \<and>
      tc_req st' 5 = Some \<lparr>r_ref = example_ref, r_phase = RDone (Inr (Some t'))\<rparr>"
    by (rule cache_answerable [where issued = example_issued and t = example_tokens, OF reach _ example_tokens_issued req cell(1-3)])
      (simp_all add: cell(4))
  then show ?thesis using reach req(1) by blast
qed

theorem cache_lost_witness:
  "\<exists>st. (tc_step example_issued 1)\<^sup>*\<^sup>* NewProvider st \<and> lost 5 example_ref 0 st \<and>
     (\<forall>st'. (tc_step example_issued 1)\<^sup>*\<^sup>* st st' \<longrightarrow> tc_req st' 5 \<noteq> Some \<lparr>r_ref = example_ref, r_phase = RDone (Inr (Some example_tokens))\<rparr>)"
proof -
  let ?sa = "\<lparr>sa_Reference = example_ref, podCount = 0, sa_deleted = False, sa_tokens = None,
     externalRequests = [], g_phase = GCheck, g_retries = 0, g_pending = []\<rparr>"
  let ?a = "DeletePodServiceAccount example_ref example_asking"
  let ?b = "check_then GAcquire 0 ?sa ?a"
  let ?c = "upd 0 (\<lambda>sa. sa\<lparr>g_phase := GExit\<rparr>) (sendResponse 0 (?sa\<lparr>g_phase := GReturn\<rparr>) RespNothing ?b)"
  let ?d = "upd 0 (\<lambda>sa. sa\<lparr>externalRequests := [Some 5]\<rparr>) (set_req 5 example_ref (RWait 0) ?c)"
  have a: "?a = upd 0 remove_pod example_asking"
    by (simp add: DeletePodServiceAccount_def example_asking_fields example_added_cell)
  have cell: "tc_cells ?a 0 = Some ?sa" unfolding a by (simp add: example_asking_fields example_added_cell remove_pod_def)
  have b: "tc_cells ?b 0 = Some (?sa\<lparr>g_phase := GReturn\<rparr>)" "tc_req ?b = tc_req example_asking" "tc_chan ?b = tc_chan example_asking"
    using cell by (simp_all add: check_then_def checkIfMustDeleteAndDelete_def mustDelete_def) (simp_all add: a)
  have c: "tc_cells ?c 0 = Some (?sa\<lparr>g_phase := GExit\<rparr>)" "tc_req ?c 5 = Some \<lparr>r_ref = example_ref, r_phase = RDispatch 0\<rparr>"
      "tc_chan ?c 5 = []"
    using b by (simp_all add: example_asking_fields answer_def)
  have "tc_step example_issued 1 example_asking ?a" by (rule tc_step.delete_pod)
  moreover have "tc_step example_issued 1 ?a ?b" by (rule tc_step.go_check [OF cell]) simp
  moreover have "tc_step example_issued 1 ?b ?c" by (rule tc_step.go_exit [OF b(1)]) simp
  moreover have "tc_step example_issued 1 ?c ?d" by (rule tc_step.req_dispatch [OF c(2,1)]) simp
  ultimately have reach: "(tc_step example_issued 1)\<^sup>*\<^sup>* NewProvider ?d"
    using example_asking_reachable by (meson rtranclp.rtrancl_into_rtrancl)
  have lost: "lost 5 example_ref 0 ?d" by (rule lost_dispatch [OF c(1) _ c(3)]) simp
  show ?thesis using reach lost cache_lost [OF reach lost] by fastforce
qed

end
