(* ===== verification/Cached_System.thy ===== *)
theory Cached_System
  imports System Token_Cache_Liveness
begin

text \<open>
  The server with the token cache as its token provider, as \<open>main\<close> wires them with \<open>--cache-tokens\<close>: a call of
  the provider is a run of the cache, in any interleaving with pods, service accounts, goroutines and
  other calls.
\<close>

section \<open>The cache as the provider of the server\<close>

text \<open>A call of \<open>getTokens\<close> for the account \<open>ref\<close> can return \<open>result\<close>.\<close>

definition got :: "(Reference \<Rightarrow> tokens \<Rightarrow> bool) \<Rightarrow> nat \<Rightarrow> Reference \<Rightarrow> tokens option res \<Rightarrow> bool" where
  "got issued concurrency ref result \<longleftrightarrow>
     (\<exists>st q. runs issued concurrency NewProvider st \<and> tc_req st q = Some \<lparr>r_ref = ref, r_phase = RDone result\<rparr>)"

definition cached :: "(string \<Rightarrow> string option) \<Rightarrow> (Reference \<Rightarrow> tokens \<Rightarrow> bool) \<Rightarrow> nat \<Rightarrow> server \<Rightarrow> bool" where
  "cached jwt_sub issued concurrency s \<longleftrightarrow>
     (\<forall>ref. \<exists>now result. got issued concurrency ref result \<and>
        Tokens_GetServiceAccountToken s ref = cache_GetServiceAccountToken now result) \<and>
     (\<forall>tok email. case ReferenceFromToken jwt_sub tok of
        Panic m \<Rightarrow> Tokens_GetGoogleAccessTokens s tok email [] = Panic m
      | Ret ref \<Rightarrow> \<exists>now result. got issued concurrency ref result \<and>
          Tokens_GetGoogleAccessTokens s tok email [] = cache_GetGoogleAccessTokens now result)"

lemma got_issued: "got issued concurrency ref (Inr (Some t)) \<Longrightarrow> issued ref t"
  unfolding got_def using tc_reachable inv_reqD(4) by (fastforce simp: req_ok_def)

text \<open>A token of the cache names the account it was issued for, so the access tokens that are looked up by it
  are those of the same account.\<close>

lemma cached_account:
  assumes "cached jwt_sub issued concurrency s"
    and "\<forall>ref t. issued ref t \<longrightarrow>
      jwt_sub (token (serviceAccountToken t)) = Some (''system:serviceaccount:'' @ ref_Namespace ref @ '':'' @ ref_Name ref)"
    and "CHR '':'' \<notin> set (ref_Namespace ref)" "CHR '':'' \<notin> set (ref_Name ref)"
    and "Tokens_GetServiceAccountToken s ref = Ret (Inr (tok, t0))"
    and "Tokens_GetGoogleAccessTokens s tok email [] = Ret (Inr (toks, t1))"
  shows "\<exists>t. issued ref t \<and> toks = token (googleAccessTokens t)"
proof -
  obtain now result where sa: "got issued concurrency ref result"
      "Tokens_GetServiceAccountToken s ref = cache_GetServiceAccountToken now result"
    using assms(1) unfolding cached_def by blast
  then obtain t where "result = Inr (Some t)" "tok = token (serviceAccountToken t)"
    using assms(5) by (auto simp: cache_GetServiceAccountToken_def split: sum.splits option.splits)
  then have "jwt_sub tok = Some (''system:serviceaccount:'' @ ref_Namespace ref @ '':'' @ ref_Name ref)"
    using got_issued sa(1) assms(2) by blast
  then have "ReferenceFromToken jwt_sub tok = Ret ref" using ReferenceFromToken_subject assms(3,4) by blast
  moreover have "case ReferenceFromToken jwt_sub tok of Panic m \<Rightarrow> Tokens_GetGoogleAccessTokens s tok email [] = Panic m
      | Ret ref \<Rightarrow> \<exists>now result. got issued concurrency ref result \<and>
          Tokens_GetGoogleAccessTokens s tok email [] = cache_GetGoogleAccessTokens now result"
    using assms(1) unfolding cached_def by blast
  ultimately obtain now' result' where "got issued concurrency ref result'"
      "Tokens_GetGoogleAccessTokens s tok email [] = cache_GetGoogleAccessTokens now' result'"
    by auto
  then show ?thesis
    using assms(6) got_issued by (fastforce simp: cache_GetGoogleAccessTokens_def split: sum.splits option.splits)
qed

section \<open>The tokens that are created\<close>

text \<open>What the APIs and the ServiceAccounts answer changes in the course of time: \<open>W\<close> has every behaviour they have.
  A goroutine of the cache creates its tokens with one of them.\<close>

definition created :: "(token_backend \<times> (Reference \<Rightarrow> kube_sa res)) set \<Rightarrow> Config \<Rightarrow> duration \<Rightarrow> Reference \<Rightarrow> tokens \<Rightarrow> bool" where
  "created W c maxTokenDuration ref t \<longleftrightarrow> (\<exists>(be, Get)\<in>W. \<exists>now now' email.
     createTokens Get (create_source be c now) now' maxTokenDuration ref = Inr (t, email))"

text \<open>The documented behaviour of the APIs: a ServiceAccount token names its account as its subject, and an
  exchange that succeeds returns a token.\<close>

definition apis_ok :: "(string \<Rightarrow> string option) \<Rightarrow> token_backend \<Rightarrow> bool" where
  "apis_ok jwt_sub be \<longleftrightarrow>
     (\<forall>ns name aud jwt e. CreateToken be ns name aud = Inr (jwt, e) \<longrightarrow>
        jwt_sub jwt = Some (''system:serviceaccount:'' @ ns @ '':'' @ name)) \<and>
     (\<forall>conf tok. Exchange be conf = Inr tok \<longrightarrow> AccessToken tok \<noteq> [])"

text \<open>The access token the server hands out: the impersonated one if there is one.\<close>

definition handed :: "AccessTokens \<Rightarrow> string" where
  "handed toks = (if Impersonated toks \<noteq> [] then Impersonated toks else DirectAccess toks)"

text \<open>The tokens of a creation: the account's own token, and the access token exchanged for it, of the Google
  account that the ServiceAccount is annotated with.\<close>

lemma created_exchanged:
  assumes "created W c maxTokenDuration ref t" "\<forall>(be, Get)\<in>W. apis_ok jwt_sub be"
  shows "\<exists>be Get sa email jwt e tok. (be, Get) \<in> W \<and> Get ref = Inr sa \<and> GoogleServiceAccountEmail sa = Inr email \<and>
    CreateToken be (ref_Namespace ref) (ref_Name ref) [WorkloadIdentityProviderAudience c] = Inr (jwt, e) \<and>
    token (serviceAccountToken t) = jwt \<and>
    Exchange be (ext_config_of c jwt email []) = Inr tok \<and> handed (token (googleAccessTokens t)) = AccessToken tok"
proof -
  obtain be Get now now' email where w: "(be, Get) \<in> W" "createTokens Get (create_source be c now) now' maxTokenDuration ref = Inr (t, email)"
    using assms(1) unfolding created_def by blast
  then obtain sa jwt e toks e' where t: "Get ref = Inr sa" "GoogleServiceAccountEmail sa = Inr email"
      "CreateToken be (ref_Namespace ref) (ref_Name ref) [WorkloadIdentityProviderAudience c] = Inr (jwt, e)"
      "create_GetGoogleAccessTokens be c now jwt email [] = Inr (toks, e')"
      "token (serviceAccountToken t) = jwt" "token (googleAccessTokens t) = toks"
    by (auto simp: createTokens_def create_source_def create_GetServiceAccountToken_def ebind_Inr_iff map_err_Inr_iff)
  have apis: "Exchange be conf = Inr tok \<Longrightarrow> AccessToken tok \<noteq> []" for conf tok
    using assms(2) w(1) unfolding apis_ok_def by blast
  have "\<exists>tok. Exchange be (ext_config_of c jwt email []) = Inr tok \<and> handed toks = AccessToken tok"
  proof (cases email)
    case None
    then show ?thesis using exchanged_tokens(1,2) [OF t(4)] by (auto simp: handed_def)
  next
    case (Some a)
    from exchanged_tokens(3) [OF t(4) this] obtain tok where
      "Exchange be (ext_config_of c jwt email []) = Inr tok" "Impersonated toks = AccessToken tok" using Some by blast
    then show ?thesis using apis unfolding handed_def by auto
  qed
  then show ?thesis using w(1) t by blast
qed

lemma created_subject:
  assumes "\<forall>(be, Get)\<in>W. apis_ok jwt_sub be"
  shows "\<forall>ref t. created W c maxTokenDuration ref t \<longrightarrow>
    jwt_sub (token (serviceAccountToken t)) = Some (''system:serviceaccount:'' @ ref_Namespace ref @ '':'' @ ref_Name ref)"
proof (intro allI impI)
  fix ref t assume "created W c maxTokenDuration ref t"
  from created_exchanged [OF this assms] obtain be Get jwt e where
    "(be, Get) \<in> W" "CreateToken be (ref_Namespace ref) (ref_Name ref) [WorkloadIdentityProviderAudience c] = Inr (jwt, e)"
    "token (serviceAccountToken t) = jwt" by blast
  then show "jwt_sub (token (serviceAccountToken t)) = Some (''system:serviceaccount:'' @ ref_Namespace ref @ '':'' @ ref_Name ref)"
    using assms unfolding apis_ok_def by blast
qed

section \<open>The token a caller gets\<close>

text \<open>C12. With the token cache, a request for a token without scopes is answered with an access token of the
  connection's pod and no other, however the calls of the cache interleave with pods, service accounts and
  other requests: the token exchange has issued it for a token of the pod's ServiceAccount and for the Google
  account that this ServiceAccount is annotated with.\<close>

theorem cached_token:
  assumes "cached jwt_sub (created W c maxTokenDuration) concurrency s" "\<forall>(be, Get)\<in>W. apis_ok jwt_sub be"
    and "conn_pod s cn pod" "CHR '':'' \<notin> set (pod_Namespace pod)" "CHR '':'' \<notin> set (pod_ServiceAccountName pod)"
    and "ref_email s (ReferenceFromPod pod) email"
    and "header_get headers MetadataFlavorHeader = MetadataFlavorGoogle"
    and "Check (env_preflight s) preflight_versions = Ret None" "scopes_of (header_get query ''scopes'') = []"
    and "Tokens_GetServiceAccountToken s (ReferenceFromPod pod) = Ret (Inr (tok, t0))"
    and "Tokens_GetGoogleAccessTokens s tok email [] = Ret (Inr (toks, t1))"
  shows "\<exists>st' secs be Get sa email' jwt e token.
    serve s now (incoming cn verb (sa_path ''default'' ''token'') query headers) (fresh a) = Ret st' \<and>
    map_option fst (w_sent st') = Some 200 \<and>
    (be, Get) \<in> W \<and> Get (ReferenceFromPod pod) = Inr sa \<and> GoogleServiceAccountEmail sa = Inr email' \<and>
    CreateToken be (pod_Namespace pod) (pod_ServiceAccountName pod) [WorkloadIdentityProviderAudience c] = Inr (jwt, e) \<and>
    Exchange be (ext_config_of c jwt email' []) = Inr token \<and>
    w_body st' = [BJSON (AMap [(''access_token'', AString (AccessToken token)), (''expires_in'', AInt secs),
      (''token_type'', AString ''Bearer'')])]"
proof -
  have ref: "ref_Namespace (ReferenceFromPod pod) = pod_Namespace pod" "ref_Name (ReferenceFromPod pod) = pod_ServiceAccountName pod"
    by (simp_all add: ReferenceFromPod_def)
  obtain t where t: "created W c maxTokenDuration (ReferenceFromPod pod) t" "toks = token (googleAccessTokens t)"
    using cached_account [OF assms(1) created_subject [OF assms(2)] _ _ assms(10,11)] assms(4,5) ref by auto
  obtain be Get sa email' jwt e new where new: "(be, Get) \<in> W" "Get (ReferenceFromPod pod) = Inr sa" "GoogleServiceAccountEmail sa = Inr email'"
      "CreateToken be (pod_Namespace pod) (pod_ServiceAccountName pod) [WorkloadIdentityProviderAudience c] = Inr (jwt, e)"
      "Exchange be (ext_config_of c jwt email' []) = Inr new" "handed toks = AccessToken new"
    using created_exchanged [OF t(1) assms(2), unfolded ref, folded t(2)] by (elim exE conjE) (rule that)
  have plain: "plain_piece ''default''" by (simp add: plain_piece_def)
  have "Tokens_GetGoogleAccessTokens s tok email (scopes_of (header_get query ''scopes'')) = Ret (Inr (toks, t1))"
    using assms(9,11) by simp
  from serve_token [OF assms(3,6) disjI1 [OF refl] plain assms(7,8,10) this, of now verb a]
  obtain st' where st': "serve s now (incoming cn verb (sa_path ''default'' ''token'') query headers) (fresh a) = Ret st'"
      "map_option fst (w_sent st') = Some 200"
      "w_body st' = [BJSON (AMap [(''access_token'', AString (if Impersonated toks \<noteq> [] then Impersonated toks else DirectAccess toks)),
        (''expires_in'', AInt (int_Seconds (Sub t1 (env_now s)))), (''token_type'', AString ''Bearer'')])]"
    by (elim exE conjE)
  show ?thesis
    by (intro exI conjI) (rule st'(1,2) new(1-5) st'(3) [folded handed_def, unfolded new(6)])+
qed

section \<open>An example\<close>

text \<open>A call for any account can end with an error: its context ends before its request is sent.\<close>

lemma got_error: "got issued concurrency ref (Inl err)"
proof -
  let ?sa = "\<lparr>sa_Reference = ref, podCount = 0, sa_deleted = False, sa_tokens = None,
     externalRequests = [], g_phase = GCheck, g_retries = 0, g_pending = []\<rparr>"
  let ?a = "set_req 5 ref (RRead 0) (addServiceAccount 0 ref 0 NewProvider)"
  let ?b = "set_req 5 ref (RDispatch 0) (?a\<lparr>tc_cacheMisses := 1\<rparr>)"
  let ?c = "set_req 5 ref (RDone (Inl err)) ?b"
  have "tc_step issued concurrency NewProvider ?a"
    using tc_step.get_lookup [of NewProvider 0 5 issued concurrency ref] by (simp add: NewProvider_def getTokens_lookup_def)
  moreover have "tc_step issued concurrency ?a ?b"
    using tc_step.get_read [of ?a 5 ref 0 ?sa issued concurrency "time_Unix 1000"]
    by (simp add: NewProvider_def getTokens_read_def usable_def set_req_def addServiceAccount_def)
  moreover have "tc_step issued concurrency ?b ?c"
    using tc_step.req_give_up [of ?b 5 ref "RDispatch 0" 0 issued concurrency err] by simp
  ultimately have "runs issued concurrency NewProvider ?c" by (meson rtranclp.rtrancl_refl rtranclp.rtrancl_into_rtrancl)
  moreover have "tc_req ?c 5 = Some \<lparr>r_ref = ref, r_phase = RDone (Inl err)\<rparr>" by simp
  ultimately show ?thesis unfolding got_def by blast
qed

text \<open>The APIs know one ServiceAccount, which has no annotation.\<close>

definition one_backend :: token_backend where
  "one_backend = \<lparr>CreateToken = (\<lambda>ns name aud. if ns = ''ns'' \<and> name = ''sa'' then Inr (''ns/sa'', time_Unix 5000)
       else Inl ctxCanceled),
     Exchange = (\<lambda>conf. Inr \<lparr>AccessToken = ''tok'', Expiry = time_Unix 5000\<rparr>),
     IDToken = (\<lambda>tok email aud. Inr (tok, time_Unix 5000))\<rparr>"

definition one_Get :: "Reference \<Rightarrow> kube_sa res" where
  "one_Get ref = Inr \<lparr>sa_Name = ref_Name ref, sa_Namespace = ref_Namespace ref, sa_Annotations = []\<rparr>"

abbreviation one_issued :: "Reference \<Rightarrow> tokens \<Rightarrow> bool" where
  "one_issued \<equiv> created {(one_backend, one_Get)} \<lparr>WorkloadIdentityProvider = ''p''\<rparr> Hour"

definition one_sub :: "string \<Rightarrow> string option" where
  "one_sub tok = (if tok = ''ns/sa'' then Some ''system:serviceaccount:ns:sa'' else None)"

definition one_pod :: kube_pod where
  "one_pod = sys_pod\<lparr>pod_Namespace := ''ns'', pod_ServiceAccountName := ''sa''\<rparr>"

definition one_result :: "Reference \<Rightarrow> tokens option res" where
  "one_result ref = (if ref = example_ref then Inr (Some example_tokens) else Inl ctxCanceled)"

definition one_server :: server where
  "one_server = (sys_server RoutingModeNone (diag_attestation example_diag))
     \<lparr>Pods_GetByIP := (\<lambda>_ _. Inr one_pod),
      Tokens_GetServiceAccountToken := (\<lambda>ref. cache_GetServiceAccountToken (time_Unix 1000) (one_result ref)),
      Tokens_GetGoogleAccessTokens := (\<lambda>tok _ _. gobind (ReferenceFromToken one_sub tok)
        (\<lambda>ref. cache_GetGoogleAccessTokens (time_Unix 1000) (one_result ref)))\<rparr>"

lemma one_created: "one_issued example_ref example_tokens"
proof -
  have "createTokens one_Get (create_source one_backend \<lparr>WorkloadIdentityProvider = ''p''\<rparr> (time_Unix 1000)) (time_Unix 1000) Hour
      example_ref = Inr (example_tokens, None)"
    by (simp add: createTokens_def one_Get_def GoogleServiceAccountEmail_def create_source_def create_GetServiceAccountToken_def
        create_GetGoogleAccessTokens_def NewToken_def one_backend_def example_ref_def example_tokens_def Let_def)
  then show ?thesis unfolding created_def by blast
qed

lemma one_apis: "\<forall>(be, Get)\<in>{(one_backend, one_Get)}. apis_ok one_sub be"
  by (auto simp: apis_ok_def one_backend_def one_sub_def split: if_splits)

lemma one_got: "got one_issued 1 ref (one_result ref)"
proof (cases "ref = example_ref")
  case True
  show ?thesis using example_got [of one_issued, OF one_created] True unfolding got_def one_result_def by auto
qed (simp add: one_result_def got_error)

lemma one_cached: "cached one_sub one_issued 1 one_server"
proof -
  have tok: "Tokens_GetServiceAccountToken one_server ref = cache_GetServiceAccountToken (time_Unix 1000) (one_result ref)"
      "Tokens_GetGoogleAccessTokens one_server t email [] = gobind (ReferenceFromToken one_sub t)
        (\<lambda>ref. cache_GetGoogleAccessTokens (time_Unix 1000) (one_result ref))" for ref t email
    by (simp_all add: one_server_def)
  show ?thesis unfolding cached_def tok using one_got by (auto split: go.split)
qed

lemma one_conn_pod: "conn_pod one_server (sys_conn sys_pod_conn) one_pod"
proof -
  let ?s = one_server and ?cn = "sys_conn sys_pod_conn"
  have s: "RoutingMode ?s \<noteq> RoutingModeBPF" "PodIP ?s = ''10.0.0.2''" "\<And>ip i. Pods_GetByIP ?s ip i = Inr one_pod"
      "1 \<le> lookup_attempts ?s"
    by (simp_all add: one_server_def sys_server_def web_server_def api_defs lookup_attempts_def)
  have "\<not> attested ?s (quad_addr (c_src sys_pod_conn))" using s(1,2) sys_not_host by (simp add: attested_def)
  moreover have "first_pod ?s ?cn (Addr_String (quad_addr (c_src sys_pod_conn))) one_pod"
    unfolding first_pod_def by (intro exI [of _ 1]) (use s(3,4) in auto)
  ultimately show ?thesis
    using accepted_client [OF sys_accepted, of sys_pod_conn] unfolding conn_pod_def by blast
qed

theorem cached_token_witness:
  "\<exists>st' secs be Get sa email' jwt e token.
    serve one_server web_time (incoming (sys_conn sys_pod_conn) ''GET'' (sa_path ''default'' ''token'') [] google_header)
      (fresh web_state) = Ret st' \<and>
    map_option fst (w_sent st') = Some 200 \<and>
    (be, Get) \<in> {(one_backend, one_Get)} \<and> Get (ReferenceFromPod one_pod) = Inr sa \<and> GoogleServiceAccountEmail sa = Inr email' \<and>
    CreateToken be (pod_Namespace one_pod) (pod_ServiceAccountName one_pod)
      [WorkloadIdentityProviderAudience \<lparr>WorkloadIdentityProvider = ''p''\<rparr>] = Inr (jwt, e) \<and>
    Exchange be (ext_config_of \<lparr>WorkloadIdentityProvider = ''p''\<rparr> jwt email' []) = Inr token \<and>
    w_body st' = [BJSON (AMap [(''access_token'', AString (AccessToken token)), (''expires_in'', AInt secs),
      (''token_type'', AString ''Bearer'')])]"
proof -
  have ref: "ReferenceFromPod one_pod = example_ref" by (simp add: ReferenceFromPod_def one_pod_def example_ref_def)
  have colon: "CHR '':'' \<notin> set (pod_Namespace one_pod)" "CHR '':'' \<notin> set (pod_ServiceAccountName one_pod)"
    by (simp_all add: one_pod_def)
  have email: "ref_email one_server (ReferenceFromPod one_pod) (Some ''web@proj.iam.gserviceaccount.com'')"
    using sys_email by (simp add: one_server_def ref_email_def)
  have h: "header_get google_header MetadataFlavorHeader = MetadataFlavorGoogle"
      "Check (env_preflight one_server) preflight_versions = Ret None" "scopes_of (header_get [] ''scopes'') = []"
    by (simp_all add: google_header_def header_get_def one_server_def sys_server_def web_server_def Check_def)
      (simp_all add: scopes_of_def Split_none TrimSpace_def)
  have sa: "Tokens_GetServiceAccountToken one_server (ReferenceFromPod one_pod) =
      Ret (Inr (''ns/sa'', expiration (time_Unix 1000) (serviceAccountToken example_tokens)))"
    unfolding ref by (simp add: one_server_def one_result_def cache_GetServiceAccountToken_def) (simp add: example_tokens_def newToken_def Let_def)
  have "ReferenceFromToken one_sub ''ns/sa'' = Ret example_ref"
    by (rule ReferenceFromToken_subject) (simp_all add: one_sub_def example_ref_def)
  then have ga: "Tokens_GetGoogleAccessTokens one_server ''ns/sa'' (Some ''web@proj.iam.gserviceaccount.com'') [] =
      Ret (Inr (token (googleAccessTokens example_tokens), expiration (time_Unix 1000) (googleAccessTokens example_tokens)))"
    by (simp add: one_server_def one_result_def cache_GetGoogleAccessTokens_def)
  show ?thesis
    by (rule cached_token [OF one_cached one_apis one_conn_pod colon email h sa ga])
qed

end
