(* ===== verification/Informed_Cache.thy ===== *)
theory Informed_Cache
  imports Pods Token_Cache_Liveness "HOL-Library.Multiset"
begin

text \<open>
  The token cache as \<open>main\<close> wires it with \<open>--watch-pods\<close> and \<open>--watch-service-accounts\<close>: a listener of both informers,
  which count the pods of an account and mark it as deleted, while the goroutines and the callers of the
  cache go on.
\<close>

section \<open>The cache as a listener\<close>

text \<open>\<open>alloc\<close> gives the address of a new object.\<close>

definition alloc_ok :: "(tcache \<Rightarrow> nat) \<Rightarrow> bool" where
  "alloc_ok alloc \<longleftrightarrow> (\<forall>st. finite (dom (tc_cells st)) \<longrightarrow> tc_cells st (alloc st) = None)"

definition cache_pod_listener :: "(tcache \<Rightarrow> nat) \<Rightarrow> tcache pod_listener" where
  "cache_pod_listener alloc =
     \<lparr>AddPodServiceAccountL = (\<lambda>ref st. AddPodServiceAccount (alloc st) ref st), DeletePodServiceAccountL = DeletePodServiceAccount\<rparr>"

definition cache_sa_listener :: "tcache sa_listener" where
  "cache_sa_listener = \<lparr>UpdateServiceAccountL = UpdateServiceAccount, DeleteServiceAccountL = DeleteServiceAccount\<rparr>"

text \<open>The two watching providers with the cache. \<open>in_known\<close> has the account of every pod that the informer has
  delivered and not taken back, \<open>in_dropped\<close> the accounts of which a deletion was delivered.\<close>

record informed =
  in_pods :: "tcache watch_pods"
  in_sas :: "tcache watch_sa"
  in_cache :: tcache
  in_known :: "Reference multiset"
  in_dropped :: "Reference set"

definition wired :: "(tcache \<Rightarrow> nat) \<Rightarrow> tcache watch_pods \<Rightarrow> tcache watch_sa \<Rightarrow> informed" where
  "wired alloc wp wsa = \<lparr>in_pods = wp_AddListener wp (cache_pod_listener alloc), in_sas = wsa_AddListener wsa cache_sa_listener,
     in_cache = NewProvider, in_known = {#}, in_dropped = {}\<rparr>"

text \<open>The steps of the cache's own goroutines and callers: they change neither a pod count nor a mark, and a
  caller's new object has no pod.\<close>

definition same_pods :: "tcache \<Rightarrow> tcache \<Rightarrow> bool" where
  "same_pods st st' \<longleftrightarrow> (\<forall>i. case tc_cells st i of
      Some sa \<Rightarrow> \<exists>sb. tc_cells st' i = Some sb \<and> podCount sb = podCount sa \<and> sa_deleted sb = sa_deleted sa
    | None \<Rightarrow> \<forall>sb. tc_cells st' i = Some sb \<longrightarrow> podCount sb = 0 \<and> \<not> sa_deleted sb)"

lemma same_podsD:
  assumes "same_pods st st'"
  shows "tc_cells st i = Some sa \<Longrightarrow> \<exists>sb. tc_cells st' i = Some sb \<and> podCount sb = podCount sa \<and> sa_deleted sb = sa_deleted sa"
    and "tc_cells st i = None \<Longrightarrow> tc_cells st' i = Some sb \<Longrightarrow> podCount sb = 0 \<and> \<not> sa_deleted sb"
  using spec [OF assms [unfolded same_pods_def], of i] by auto

text \<open>An informer delivers a deletion only of an object that it has delivered before, and the account of a
  pod is immutable.\<close>

inductive in_step :: "(Reference \<Rightarrow> tokens \<Rightarrow> bool) \<Rightarrow> nat \<Rightarrow> informed \<Rightarrow> informed \<Rightarrow> bool" for issued concurrency where
  pod_added: "wp_AddFunc pod (in_pods s) (in_cache s) = (wp, st) \<Longrightarrow>
    in_step issued concurrency s (s\<lparr>in_pods := wp, in_cache := st, in_known := add_mset (ReferenceFromPod pod) (in_known s)\<rparr>)"
| pod_deleted: "ReferenceFromPod pod \<in># in_known s \<Longrightarrow> wp_DeleteFunc (Live pod) (in_pods s) (in_cache s) = Ret (wp, st) \<Longrightarrow>
    in_step issued concurrency s (s\<lparr>in_pods := wp, in_cache := st, in_known := in_known s - {#ReferenceFromPod pod#}\<rparr>)"
| sa_added: "wsa_AddFunc sa (in_sas s) (in_cache s) = (wsa, st) \<Longrightarrow>
    in_step issued concurrency s (s\<lparr>in_sas := wsa, in_cache := st\<rparr>)"
| sa_updated: "wsa_UpdateFunc old sa (in_sas s) (in_cache s) = (wsa, st) \<Longrightarrow>
    in_step issued concurrency s (s\<lparr>in_sas := wsa, in_cache := st\<rparr>)"
| sa_deleted: "wsa_DeleteFunc (Live sa) (in_sas s) (in_cache s) = Ret (wsa, st) \<Longrightarrow>
    in_step issued concurrency s (s\<lparr>in_sas := wsa, in_cache := st, in_dropped := insert (ReferenceFromObject sa) (in_dropped s)\<rparr>)"
| own: "tc_step issued concurrency (in_cache s) st \<Longrightarrow> same_pods (in_cache s) st \<Longrightarrow>
    in_step issued concurrency s (s\<lparr>in_cache := st\<rparr>)"

text \<open>No step of the cache is lost: it is one of its own or one of its four callbacks.\<close>

lemma own_or_listener:
  assumes "tc_step issued concurrency st st'"
  shows "same_pods st st' \<or> (\<exists>i ref. st' = AddPodServiceAccount i ref st) \<or>
    (\<exists>ref. st' = DeletePodServiceAccount ref st \<or> st' = UpdateServiceAccount ref st \<or> st' = DeleteServiceAccount ref st)"
  using assms
proof (induction rule: tc_step.induct)
  case (go_settle st i sa res now)
  then show ?case by (auto simp: same_pods_def settle_def split: option.split sum.split prod.split)
next
  case (get_lookup st i q ref)
  then show ?case by (auto simp: same_pods_def getTokens_lookup_def split: option.split)
qed (auto simp: same_pods_def getTokens_read_def check_then_def checkIfMustDeleteAndDelete_def split: option.split)

section \<open>The counts\<close>

definition accounted :: "Reference \<Rightarrow> nat \<Rightarrow> tcache \<Rightarrow> bool" where
  "accounted ref n st \<longleftrightarrow> (case tc_sas st ref of
      None \<Rightarrow> n = 0
    | Some i \<Rightarrow> \<exists>sa. tc_cells st i = Some sa \<and> sa_Reference sa = ref \<and> podCount sa = int n \<and> \<not> sa_deleted sa)"

text \<open>What a step of the cache does to the map: it removes an account that must be deleted, or adds one.\<close>

lemma sas_step:
  assumes "tc_step issued concurrency st st'" "inv_map st" "same_pods st st'"
  shows "tc_sas st' ref = tc_sas st ref \<or>
    (\<exists>i sa. tc_sas st ref = Some i \<and> tc_cells st i = Some sa \<and> mustDelete sa \<and> tc_sas st' ref = None) \<or>
    (\<exists>i sa. tc_sas st ref = None \<and> tc_sas st' ref = Some i \<and> tc_cells st i = None \<and> tc_cells st' i = Some sa \<and> sa_Reference sa = ref)"
  using assms
proof (induction rule: tc_step.induct)
  case (go_check st i sa)
  then have "tc_sas st (sa_Reference sa) = Some i" using inv_mapD(4) by (auto simp: live_def)
  then show ?case using go_check by (auto simp: check_then_def checkIfMustDeleteAndDelete_def)
next
  case (go_delete st i sa res)
  then have "tc_sas st (sa_Reference sa) = Some i" using inv_mapD(4) by (auto simp: live_def)
  then show ?case using go_delete by (auto simp: check_then_def checkIfMustDeleteAndDelete_def)
next
  case (add_pod st i r)
  then show ?case by (auto simp: AddPodServiceAccount_def split: option.split)
next
  case (get_lookup st i q r)
  then show ?case by (auto simp: getTokens_lookup_def split: option.split)
qed (auto simp: DeletePodServiceAccount_def UpdateServiceAccount_def DeleteServiceAccount_def getTokens_read_def settle_def
    split: option.split sum.split prod.split)

lemma accounted_own:
  assumes "tc_step issued concurrency st st'" "same_pods st st'" "inv_map st" "inv_map st'" "accounted ref n st"
  shows "accounted ref n st'"
  using sas_step [OF assms(1,3,2), of ref]
proof (elim disjE exE conjE)
  assume same: "tc_sas st' ref = tc_sas st ref"
  show ?thesis
  proof (cases "tc_sas st ref")
    case None
    then show ?thesis using same assms(5) by (simp add: accounted_def)
  next
    case (Some i)
    then obtain sa where "tc_cells st i = Some sa" "podCount sa = int n" "\<not> sa_deleted sa"
      using assms(5) by (auto simp: accounted_def)
    then obtain sb where "tc_cells st' i = Some sb" "podCount sb = int n" "\<not> sa_deleted sb"
      using same_podsD(1) [OF assms(2)] by metis
    moreover obtain sc where "tc_cells st' i = Some sc" "sa_Reference sc = ref"
      using inv_mapD(3) [OF assms(4), of ref i] same Some by auto
    ultimately show ?thesis using same Some by (auto simp: accounted_def)
  qed
next
  fix i sa assume "tc_sas st ref = Some i" "tc_cells st i = Some sa" "mustDelete sa" "tc_sas st' ref = None"
  then show ?thesis using assms(5) by (auto simp: accounted_def mustDelete_def)
next
  fix i sa assume i: "tc_sas st ref = None" "tc_sas st' ref = Some i" "tc_cells st i = None" "tc_cells st' i = Some sa"
      "sa_Reference sa = ref"
  then have "podCount sa = 0" "\<not> sa_deleted sa" using same_podsD(2) [OF assms(2) i(3,4)] by blast+
  then show ?thesis using i assms(5) by (auto simp: accounted_def)
qed

lemma accounted_upd:
  assumes "accounted ref n st" "tc_sas st r = Some j"
    and "\<And>sa. sa_Reference (f sa) = sa_Reference sa"
    and "\<And>sa. r = ref \<Longrightarrow> podCount sa = int n \<Longrightarrow> podCount (f sa) = int n'" "\<And>sa. r = ref \<Longrightarrow> \<not> sa_deleted sa \<Longrightarrow> \<not> sa_deleted (f sa)"
    and "r \<noteq> ref \<Longrightarrow> n' = n" "inv_map st"
  shows "accounted ref n' (upd j f st)"
proof (cases "r = ref")
  case True
  then show ?thesis using assms(1-5) by (auto simp: accounted_def)
next
  case False
  obtain sb where "tc_cells st j = Some sb" "sa_Reference sb = r" using inv_mapD(3) [OF assms(7,2)] by blast
  then have "tc_sas st ref \<noteq> Some j" using assms(1) False by (auto simp: accounted_def)
  then show ?thesis using assms(1,6) False by (auto simp: accounted_def split: option.splits)
qed

lemma accounted_AddPod:
  assumes "accounted ref n st" "inv_map st" "tc_cells st i = None"
  shows "accounted ref (if r = ref then Suc n else n) (AddPodServiceAccount i r st)"
proof (cases "tc_sas st r")
  case None
  then show ?thesis
    using assms(1,3) by (auto simp: AddPodServiceAccount_def accounted_def split: option.split_asm)
next
  case (Some j)
  then show ?thesis
    unfolding AddPodServiceAccount_def by (auto intro!: accounted_upd [OF assms(1) Some _ _ _ _ assms(2)])
qed

lemma remove_pod_deleted [simp]: "sa_deleted (remove_pod sa) = sa_deleted sa"
  by (simp add: remove_pod_def)

lemma accounted_DeletePod:
  assumes "accounted ref n st" "inv_map st" "r = ref \<Longrightarrow> 0 < n"
  shows "accounted ref (if r = ref then n - 1 else n) (DeletePodServiceAccount r st)"
proof (cases "tc_sas st r")
  case None
  then show ?thesis using assms(1,3) by (auto simp: DeletePodServiceAccount_def accounted_def)
next
  case (Some j)
  have "podCount (remove_pod sa) = int (n - 1)" if "r = ref" "podCount sa = int n" for sa
    using that assms(3) by (simp add: remove_pod_def of_nat_diff)
  then show ?thesis
    unfolding DeletePodServiceAccount_def Some option.case
    by (intro accounted_upd [OF assms(1) Some _ _ _ _ assms(2)]) simp_all
qed

lemma notify_deleted [simp]: "sa_deleted (notify sa) = sa_deleted sa"
  by (simp add: notify_def)

lemma accounted_Update:
  assumes "accounted ref n st" "inv_map st"
  shows "accounted ref n (UpdateServiceAccount r st)"
proof (cases "tc_sas st r")
  case (Some j)
  then show ?thesis
    unfolding UpdateServiceAccount_def by (auto intro!: accounted_upd [OF assms(1) Some _ _ _ _ assms(2)])
qed (use assms(1) in \<open>simp add: UpdateServiceAccount_def\<close>)

lemma accounted_Delete:
  assumes "accounted ref n st" "inv_map st" "r \<noteq> ref"
  shows "accounted ref n (DeleteServiceAccount r st)"
proof (cases "tc_sas st r")
  case (Some j)
  then show ?thesis
    using assms(3) unfolding DeleteServiceAccount_def by (auto intro!: accounted_upd [OF assms(1) Some _ _ _ _ assms(2)])
qed (use assms(1) in \<open>simp add: DeleteServiceAccount_def\<close>)

text \<open>The listeners stay, the cache goes through one of its runs, the gauge of pods and the counts of the
  accounts that were not deleted are right.\<close>

definition in_inv :: "(Reference \<Rightarrow> tokens \<Rightarrow> bool) \<Rightarrow> nat \<Rightarrow> (tcache \<Rightarrow> nat) \<Rightarrow> informed \<Rightarrow> bool" where
  "in_inv issued concurrency alloc s \<longleftrightarrow>
     wp_listeners (in_pods s) = [cache_pod_listener alloc] \<and> wsa_listeners (in_sas s) = [cache_sa_listener] \<and>
     runs issued concurrency NewProvider (in_cache s) \<and> wp_numPods (in_pods s) = int (size (in_known s)) \<and>
     (\<forall>ref. ref \<notin> in_dropped s \<longrightarrow> accounted ref (count (in_known s) ref) (in_cache s))"

lemma in_inv_stepI:
  assumes "in_inv issued concurrency alloc s" "tc_step issued concurrency (in_cache s) (in_cache s')"
    and "wp_listeners (in_pods s') = wp_listeners (in_pods s)" "wsa_listeners (in_sas s') = wsa_listeners (in_sas s)"
    and "wp_numPods (in_pods s') = int (size (in_known s'))"
    and "\<And>ref. ref \<notin> in_dropped s' \<Longrightarrow> accounted ref (count (in_known s') ref) (in_cache s')"
  shows "in_inv issued concurrency alloc s'"
  using assms rtranclp.rtrancl_into_rtrancl [of "tc_step issued concurrency" NewProvider, OF _ assms(2)] by (simp add: in_inv_def)

lemma in_invD:
  assumes "in_inv issued concurrency alloc s"
  shows "wp_listeners (in_pods s) = [cache_pod_listener alloc]" "wsa_listeners (in_sas s) = [cache_sa_listener]"
    "wp_numPods (in_pods s) = int (size (in_known s))" "inv_map (in_cache s)" "finite (dom (tc_cells (in_cache s)))"
    "ref \<notin> in_dropped s \<Longrightarrow> accounted ref (count (in_known s) ref) (in_cache s)"
  using assms tc_reachable [of issued concurrency "in_cache s"] by (auto simp: in_inv_def inv_sem_def)

text \<open>The callbacks with the cache as their only listener.\<close>

lemma pod_callbacks:
  assumes "wp_listeners wp = [cache_pod_listener alloc]"
  shows "wp_AddFunc pod wp st =
      (wp\<lparr>wp_numPods := wp_numPods wp + 1\<rparr>, AddPodServiceAccount (alloc st) (ReferenceFromPod pod) st)"
    and "wp_DeleteFunc (Live pod) wp st =
      Ret (wp\<lparr>wp_numPods := wp_numPods wp - 1\<rparr>, DeletePodServiceAccount (ReferenceFromPod pod) st)"
  using assms by (simp_all add: wp_AddFunc_def wp_DeleteFunc_def cache_pod_listener_def Let_def)

lemma sa_callbacks:
  assumes "wsa_listeners wsa = [cache_sa_listener]"
  shows "snd (wsa_AddFunc sa wsa st) = UpdateServiceAccount (ReferenceFromObject sa) st"
    "snd (wsa_UpdateFunc old sa wsa st) = UpdateServiceAccount (ReferenceFromObject sa) st"
    "wsa_DeleteFunc (Live sa) wsa st = Ret (wsa', st') \<Longrightarrow> st' = DeleteServiceAccount (ReferenceFromObject sa) st"
    "wsa_listeners (fst (wsa_AddFunc sa wsa st)) = wsa_listeners wsa" "wsa_listeners (fst (wsa_UpdateFunc old sa wsa st)) = wsa_listeners wsa"
    "wsa_DeleteFunc (Live sa) wsa st = Ret (wsa', st') \<Longrightarrow> wsa_listeners wsa' = wsa_listeners wsa"
  using assms by (auto simp: wsa_AddFunc_def wsa_UpdateFunc_def wsa_DeleteFunc_def cache_sa_listener_def Let_def)

lemma in_inv_added:
  assumes s: "in_inv issued concurrency alloc s" and "alloc_ok alloc" "wp_AddFunc pod (in_pods s) (in_cache s) = (wp, st)"
  shows "in_inv issued concurrency alloc (s\<lparr>in_pods := wp, in_cache := st, in_known := add_mset (ReferenceFromPod pod) (in_known s)\<rparr>)"
proof -
  have st: "st = AddPodServiceAccount (alloc (in_cache s)) (ReferenceFromPod pod) (in_cache s)"
      "wp = (in_pods s)\<lparr>wp_numPods := wp_numPods (in_pods s) + 1\<rparr>"
    using assms(3) by (simp_all add: pod_callbacks(1) [OF in_invD(1) [OF s]])
  have alloc: "tc_cells (in_cache s) (alloc (in_cache s)) = None" using assms(2) in_invD(5) [OF s] by (simp add: alloc_ok_def)
  have "accounted ref (count (add_mset (ReferenceFromPod pod) (in_known s)) ref) st" if "ref \<notin> in_dropped s" for ref
    using accounted_AddPod [OF in_invD(6,4) [OF s] alloc, OF that, of "ReferenceFromPod pod"] st(1) by (simp split: if_splits)
  then show ?thesis
    using tc_step.add_pod [OF alloc, of issued concurrency "ReferenceFromPod pod"] in_invD(3) [OF s] st
    by (intro in_inv_stepI [OF s]) simp_all
qed

lemma in_inv_removed:
  assumes s: "in_inv issued concurrency alloc s" and "ReferenceFromPod pod \<in># in_known s"
    and "wp_DeleteFunc (Live pod) (in_pods s) (in_cache s) = Ret (wp, st)"
  shows "in_inv issued concurrency alloc (s\<lparr>in_pods := wp, in_cache := st, in_known := in_known s - {#ReferenceFromPod pod#}\<rparr>)"
proof -
  have st: "st = DeletePodServiceAccount (ReferenceFromPod pod) (in_cache s)"
      "wp = (in_pods s)\<lparr>wp_numPods := wp_numPods (in_pods s) - 1\<rparr>"
    using assms(3) by (simp_all add: pod_callbacks(2) [OF in_invD(1) [OF s]])
  have "0 < count (in_known s) (ReferenceFromPod pod)" using assms(2) by simp
  then have "accounted ref (count (in_known s - {#ReferenceFromPod pod#}) ref) st" if "ref \<notin> in_dropped s" for ref
    using accounted_DeletePod [OF in_invD(6,4) [OF s], OF that, of "ReferenceFromPod pod"] st(1) by (auto split: if_splits)
  moreover have "int (size (in_known s)) - 1 = int (size (in_known s - {#ReferenceFromPod pod#}))"
    using assms(2) by (metis size_Suc_Diff1 of_nat_Suc add_diff_cancel_left')
  ultimately show ?thesis
    using tc_step.delete_pod [of issued concurrency "in_cache s" "ReferenceFromPod pod"] in_invD(3) [OF s] st
    by (intro in_inv_stepI [OF s]) simp_all
qed

lemma in_inv_update:
  assumes s: "in_inv issued concurrency alloc s" and "wsa_listeners wsa = wsa_listeners (in_sas s)"
  shows "in_inv issued concurrency alloc (s\<lparr>in_sas := wsa, in_cache := UpdateServiceAccount ref (in_cache s)\<rparr>)"
  using assms(2) in_invD(3) [OF s] accounted_Update [OF in_invD(6,4) [OF s]] tc_step.update_sa
  by (intro in_inv_stepI [OF s]) simp_all

lemma in_inv_drop:
  assumes s: "in_inv issued concurrency alloc s" and "wsa_listeners wsa = wsa_listeners (in_sas s)"
  shows "in_inv issued concurrency alloc (s\<lparr>in_sas := wsa, in_cache := DeleteServiceAccount r (in_cache s), in_dropped := insert r (in_dropped s)\<rparr>)"
proof -
  have "accounted ref (count (in_known s) ref) (DeleteServiceAccount r (in_cache s))" if "ref \<notin> in_dropped s" "ref \<noteq> r" for ref
    by (rule accounted_Delete [OF in_invD(6) [OF s that(1)] in_invD(4) [OF s] not_sym [OF that(2)]])
  then show ?thesis
    using assms(2) in_invD(3) [OF s] tc_step.delete_sa by (intro in_inv_stepI [OF s]) simp_all
qed

lemma in_inv_step:
  assumes "in_step issued concurrency s s'" "alloc_ok alloc" and s: "in_inv issued concurrency alloc s"
  shows "in_inv issued concurrency alloc s'"
  using assms(1)
proof cases
  case (pod_added pod wp st)
  then show ?thesis using in_inv_added [OF s assms(2)] by simp
next
  case (pod_deleted pod wp st)
  then show ?thesis using in_inv_removed [OF s] by simp
next
  case (sa_added sa wsa st)
  then show ?thesis
    using sa_callbacks(1,4) [OF in_invD(2) [OF s], of sa "in_cache s"] in_inv_update [OF s] by simp
next
  case (sa_updated old sa wsa st)
  then show ?thesis
    using sa_callbacks(2,5) [OF in_invD(2) [OF s], of old sa "in_cache s"] in_inv_update [OF s] by simp
next
  case (sa_deleted sa wsa st)
  then show ?thesis using sa_callbacks(3,6) [OF in_invD(2) [OF s]] in_inv_drop [OF s] by blast
next
  case (own st)
  have "inv_map st" by (rule inv_map_step [OF own(2) in_invD(4) [OF s]])
  then show ?thesis
    using own in_invD(3) [OF s] accounted_own [OF own(2,3) in_invD(4) [OF s] _ in_invD(6) [OF s]]
    by (intro in_inv_stepI [OF s]) simp_all
qed

section \<open>Properties\<close>

lemma in_inv_wired: "in_inv issued concurrency alloc (wired alloc (wp_NewProvider idx fb) (wsa_NewProvider store fb'))"
  by (simp add: in_inv_def wired_def wp_NewProvider_def wp_AddListener_def wsa_NewProvider_def wsa_AddListener_def accounted_def)
    (simp add: NewProvider_def)

lemma in_reachable:
  assumes "(in_step issued concurrency)\<^sup>*\<^sup>* (wired alloc (wp_NewProvider idx fb) (wsa_NewProvider store fb')) s" "alloc_ok alloc"
  shows "in_inv issued concurrency alloc s"
  using assms(1) by (induction rule: rtranclp_induct) (auto intro: in_inv_wired in_inv_step assms(2))

text \<open>C14. The cache follows the informers: in every interleaving of their callbacks with the goroutines and
  the callers of the cache, the gauge of pods is the number of pods the informer knows, and as long as no
  deletion of an account was delivered, its pod count is the number of its pods. So an account with a pod
  stays in the map with a goroutine that keeps its tokens until \<open>Close\<close>, and an account without pods is
  dropped at the next check.\<close>

theorem cache_follows_pods:
  assumes "(in_step issued concurrency)\<^sup>*\<^sup>* (wired alloc (wp_NewProvider idx fb) (wsa_NewProvider store fb')) s"
    and "alloc_ok alloc" "ref \<notin> in_dropped s"
  shows "wp_numPods (in_pods s) = int (size (in_known s)) \<and>
    (if ref \<in># in_known s then
       \<exists>i sa. tc_sas (in_cache s) ref = Some i \<and> tc_cells (in_cache s) i = Some sa \<and>
         podCount sa = int (count (in_known s) ref) \<and> \<not> mustDelete sa \<and> (live sa \<or> tc_done (in_cache s))
     else \<forall>i sa. tc_sas (in_cache s) ref = Some i \<longrightarrow> tc_cells (in_cache s) i = Some sa \<longrightarrow> mustDelete sa)"
proof -
  have s: "in_inv issued concurrency alloc s" by (rule in_reachable [OF assms(1,2)])
  have acc: "accounted ref (count (in_known s) ref) (in_cache s)" by (rule in_invD(6) [OF s assms(3)])
  have "\<exists>i sa. tc_sas (in_cache s) ref = Some i \<and> tc_cells (in_cache s) i = Some sa \<and>
      podCount sa = int (count (in_known s) ref) \<and> \<not> mustDelete sa \<and> (live sa \<or> tc_done (in_cache s))" if "ref \<in># in_known s"
  proof -
    have "tc_sas (in_cache s) ref \<noteq> None" using acc that by (auto simp: accounted_def count_eq_zero_iff split: option.splits)
    then obtain i where i: "tc_sas (in_cache s) ref = Some i" by blast
    then show ?thesis
      using acc that inv_mapD(3) [OF in_invD(4) [OF s] i] by (auto simp: accounted_def mustDelete_def)
  qed
  moreover have "mustDelete sa" if "ref \<notin># in_known s" "tc_sas (in_cache s) ref = Some i" "tc_cells (in_cache s) i = Some sa" for i sa
    using acc that by (auto simp: accounted_def mustDelete_def not_in_iff)
  ultimately show ?thesis using in_invD(3) [OF s] by auto
qed

definition example_alloc :: "tcache \<Rightarrow> nat" where
  "example_alloc st = Suc (Max (insert 0 (dom (tc_cells st))))"

lemma example_alloc_ok: "alloc_ok example_alloc"
proof -
  have "Suc (Max (insert 0 A)) \<notin> A" if "finite A" for A :: "nat set"
    using that Max_ge [of "insert 0 A" "Suc (Max (insert 0 A))"] by (metis Suc_n_not_le_n finite_insert insertCI)
  then show ?thesis unfolding alloc_ok_def example_alloc_def by (metis domIff)
qed

theorem cache_follows_pods_witness:
  "\<exists>s i sa. (in_step example_issued 1)\<^sup>*\<^sup>* (wired example_alloc (wp_NewProvider (\<lambda>_ _. Inr []) None) (wsa_NewProvider (\<lambda>_. Inr None) None)) s \<and>
     tc_sas (in_cache s) (ReferenceFromPod example_pod) = Some i \<and> tc_cells (in_cache s) i = Some sa \<and> podCount sa = 1 \<and> live sa"
proof -
  let ?s0 = "wired example_alloc (wp_NewProvider (\<lambda>_ _. Inr []) None) (wsa_NewProvider (\<lambda>_. Inr None) None)"
  have "wp_listeners (in_pods ?s0) = [cache_pod_listener example_alloc]"
    by (simp add: wired_def wp_NewProvider_def wp_AddListener_def)
  note added = in_step.pod_added [of example_pod ?s0, OF pod_callbacks(1) [OF this], of example_issued 1]
  then obtain s where s: "in_step example_issued 1 ?s0 s" "in_known s = {#ReferenceFromPod example_pod#}" "in_dropped s = {}"
      "in_cache s = AddPodServiceAccount (example_alloc NewProvider) (ReferenceFromPod example_pod) NewProvider"
    by (auto simp: wired_def)
  then have "(in_step example_issued 1)\<^sup>*\<^sup>* ?s0 s" "\<not> tc_done (in_cache s)"
    by (auto simp: AddPodServiceAccount_def NewProvider_def)
  then show ?thesis
    using cache_follows_pods [OF _ example_alloc_ok, of example_issued 1 _ _ _ _ s "ReferenceFromPod example_pod"] s(2,3)
    by fastforce
qed

end
