(* ===== verification/Token_Cache_Pods.thy ===== *)
theory Token_Cache_Pods
  imports Token_Cache_Machine
begin

text \<open>
  What the token cache does for an account whose pods it does not know. The number of pods is kept in the
  object of the account: it is gone when the object is, and only another pod makes the cache keep an
  account again.
\<close>

section \<open>Accounts without a known pod\<close>

text \<open>The objects of the account \<open>ref\<close> that are not in \<open>C\<close> have no pod.\<close>

definition no_pods :: "Reference \<Rightarrow> nat set \<Rightarrow> tcache \<Rightarrow> bool" where
  "no_pods ref C st \<longleftrightarrow>
     (\<forall>i sa. tc_cells st i = Some sa \<longrightarrow> i \<notin> C \<longrightarrow> sa_Reference sa = ref \<longrightarrow> podCount sa = 0)"

text \<open>A caller that deals with an object outside of \<open>C\<close> and gets nothing from it.\<close>

definition caller_ok :: "nat set \<Rightarrow> response list \<Rightarrow> rphase \<Rightarrow> bool" where
  "caller_ok C ch ph \<longleftrightarrow> (case ph of
      RRead i \<Rightarrow> i \<notin> C
    | RDispatch i \<Rightarrow> i \<notin> C
    | RWait i \<Rightarrow> i \<notin> C \<and> set ch \<subseteq> {RespNothing}
    | RDone res \<Rightarrow> (\<forall>t. res \<noteq> Inr (Some t)))"

definition cell_idle :: "serviceAccount \<Rightarrow> bool" where
  "cell_idle sa \<longleftrightarrow> sa_tokens sa = None \<and> g_phase sa \<in> {GCheck, GReturn, GExit}"

lemma cell_idle_simps [simp]:
  "cell_idle (sa\<lparr>externalRequests := x, g_pending := y\<rparr>) = cell_idle sa" "cell_idle (sa\<lparr>externalRequests := x\<rparr>) = cell_idle sa"
  "cell_idle (sa\<lparr>podCount := n\<rparr>) = cell_idle sa" "cell_idle (sa\<lparr>sa_deleted := d\<rparr>) = cell_idle sa"
  "cell_idle (notify sa) = cell_idle sa" "cell_idle (remove_pod sa) = cell_idle sa"
  by (simp_all add: cell_idle_def)

text \<open>The objects of \<open>ref\<close> outside of \<open>C\<close> create no tokens, the map has no other object for it, and the
  callers outside of \<open>Q\<close> deal with no other.\<close>

definition idle :: "Reference \<Rightarrow> nat set \<Rightarrow> nat set \<Rightarrow> tcache \<Rightarrow> bool" where
  "idle ref C Q st \<longleftrightarrow> C \<subseteq> dom (tc_cells st) \<and>
     (\<forall>i sa. tc_cells st i = Some sa \<longrightarrow> i \<notin> C \<longrightarrow> sa_Reference sa = ref \<longrightarrow> cell_idle sa) \<and>
     (\<forall>i. tc_sas st ref = Some i \<longrightarrow> i \<notin> C) \<and>
     (\<forall>q r. q \<notin> Q \<longrightarrow> tc_req st q = Some r \<longrightarrow> r_ref r = ref \<longrightarrow> caller_ok C (tc_chan st q) (r_phase r))"

lemma idleI:
  assumes "C \<subseteq> dom (tc_cells st)"
    and "\<And>i sa. tc_cells st i = Some sa \<Longrightarrow> i \<notin> C \<Longrightarrow> sa_Reference sa = ref \<Longrightarrow> cell_idle sa"
    and "\<And>i. tc_sas st ref = Some i \<Longrightarrow> i \<notin> C"
    and "\<And>q r. q \<notin> Q \<Longrightarrow> tc_req st q = Some r \<Longrightarrow> r_ref r = ref \<Longrightarrow> caller_ok C (tc_chan st q) (r_phase r)"
  shows "idle ref C Q st"
  using assms unfolding idle_def by blast

lemma idleD:
  assumes "idle ref C Q st"
  shows "C \<subseteq> dom (tc_cells st)"
    and "tc_cells st i = Some sa \<Longrightarrow> i \<notin> C \<Longrightarrow> sa_Reference sa = ref \<Longrightarrow> cell_idle sa"
    and "tc_sas st ref = Some i \<Longrightarrow> i \<notin> C"
    and "q \<notin> Q \<Longrightarrow> tc_req st q = Some r \<Longrightarrow> r_ref r = ref \<Longrightarrow> caller_ok C (tc_chan st q) (r_phase r)"
  using assms unfolding idle_def by blast+

lemma idle_upd:
  assumes "idle ref C Q st" "\<And>sa. tc_cells st i = Some sa \<Longrightarrow> sa_Reference (f sa) = sa_Reference sa"
    and "\<And>sa. tc_cells st i = Some sa \<Longrightarrow> i \<notin> C \<Longrightarrow> sa_Reference sa = ref \<Longrightarrow> cell_idle sa \<Longrightarrow> cell_idle (f sa)"
  shows "idle ref C Q (upd i f st)"
proof (rule idleI)
  show "C \<subseteq> dom (tc_cells (upd i f st))" using idleD(1) [OF assms(1)] by (simp only: dom_upd)
next
  fix j sb assume "tc_cells (upd i f st) j = Some sb" "j \<notin> C" "sa_Reference sb = ref"
  then show "cell_idle sb" using assms(2,3) idleD(2) [OF assms(1)] by (auto split: if_splits)
qed (use idleD(3,4) [OF assms(1)] in simp_all)

lemma idle_caller:
  "idle ref C Q st \<Longrightarrow> (q \<notin> Q \<Longrightarrow> r = ref \<Longrightarrow> caller_ok C (tc_chan st q) ph) \<Longrightarrow> idle ref C Q (set_req q r ph st)"
  by (auto simp: idle_def)

lemma idle_other [simp]:
  "idle ref C Q (st\<lparr>tc_cacheMisses := n\<rparr>) = idle ref C Q st" "idle ref C Q (st\<lparr>tc_others := n\<rparr>) = idle ref C Q st"
  "idle ref C Q (st\<lparr>tc_done := d\<rparr>) = idle ref C Q st"
  by (simp_all add: idle_def)

lemma idle_forget: "idle ref C Q st \<Longrightarrow> idle ref C Q (st\<lparr>tc_sas := (tc_sas st)(r := None), tc_numTokens := z\<rparr>)"
  by (auto simp: idle_def)

lemma idle_add:
  assumes "idle ref C Q st" "tc_cells st i = None"
  shows "idle ref C Q (addServiceAccount i r n st)" "i \<notin> C"
proof -
  show "i \<notin> C" using idleD(1) [OF assms(1)] assms(2) by auto
  then show "idle ref C Q (addServiceAccount i r n st)"
    using assms(1) by (auto simp: idle_def cell_idle_def)
qed

text \<open>A caller of the account waits for an object outside of \<open>C\<close>, and such an object answers with nothing.\<close>

lemma idle_send:
  assumes "idle ref C Q st" "inv_req issued st" "tc_cells st i = Some sa"
    and "i \<notin> C \<Longrightarrow> sa_Reference sa = ref \<Longrightarrow> resp = RespNothing"
  shows "idle ref C Q (sendResponse i sa resp st)"
proof (rule idleI)
  fix q r assume q: "q \<notin> Q" "tc_req (sendResponse i sa resp st) q = Some r" "r_ref r = ref"
  then have ok: "caller_ok C (tc_chan st q) (r_phase r)" using idleD(4) [OF assms(1)] by simp
  show "caller_ok C (tc_chan (sendResponse i sa resp st) q) (r_phase r)"
  proof (cases "q \<in> set (outstanding sa)")
    case True
    then have r: "sa_Reference sa = ref" "returned_or_waits i (r_phase r)"
      using inv_reqD(1) [OF assms(2,3)] q(2,3) by (auto simp: out_ok_def)
    then have "resp = RespNothing" if "r_phase r = RWait k" for k
      using that ok assms(4) by (auto simp: caller_ok_def returned_or_waits_def)
    then show ?thesis
      using ok answer_set [of "g_pending sa @ externalRequests sa" resp "tc_chan st" q]
      by (auto simp: caller_ok_def split: rphase.splits)
  next
    case False
    then show ?thesis using ok answer_at [of "g_pending sa @ externalRequests sa" resp "tc_chan st" q]
      inv_reqD(1) [OF assms(2,3)] by (simp add: outstanding_def out_ok_def)
  qed
next
  fix j sb assume "tc_cells (sendResponse i sa resp st) j = Some sb" "j \<notin> C" "sa_Reference sb = ref"
  then show "cell_idle sb"
    using idleD(2) [OF assms(1)] by (auto split: if_splits)
qed (use idleD(1,3) [OF assms(1)] assms(3) in \<open>auto split: if_splits\<close>)

lemma cell_idle_return [simp]: "cell_idle sa \<Longrightarrow> ph = GReturn \<or> ph = GExit \<Longrightarrow> cell_idle (sa\<lparr>g_phase := ph\<rparr>)"
  by (auto simp: cell_idle_def)

text \<open>The steps of a goroutine other than the checks and the return are not those of an idle object.\<close>

lemma idle_busy:
  assumes "idle ref C Q st" "tc_cells st i = Some sa" "g_phase sa \<notin> {GCheck, GReturn, GExit}"
  shows "i \<in> C \<or> sa_Reference sa \<noteq> ref"
  using idleD(2) [OF assms(1,2)] assms(3) by (auto simp: cell_idle_def)

lemma idle_check:
  assumes "idle ref C Q st" "tc_cells st i = Some sa" "i \<notin> C \<Longrightarrow> sa_Reference sa = ref \<Longrightarrow> mustDelete sa"
  shows "idle ref C Q (check_then ph i sa st)"
  using assms by (auto simp: check_then_def checkIfMustDeleteAndDelete_def intro!: idle_upd idle_forget)

lemma idle_settle:
  assumes "idle ref C Q st" "inv_req issued st" "tc_cells st i = Some sa" "g_phase sa = GCreated res"
  shows "idle ref C Q (settle now i sa res st)"
proof -
  have old: "i \<in> C \<or> sa_Reference sa \<noteq> ref" using idle_busy [OF assms(1,3)] assms(4) by simp
  then have "idle ref C Q (sendResponse i sa resp st)" for resp using idle_send [OF assms(1-3)] by blast
  then show ?thesis
    using old assms(1,3) by (auto simp: settle_def split: sum.split prod.split intro!: idle_upd)
qed

lemma idle_lookup:
  assumes "idle ref C Q st" "tc_cells st i = None"
  shows "idle ref C Q (getTokens_lookup i q r st)"
proof -
  have "idle ref C Q (set_req q r (RRead i) (addServiceAccount i r 0 st))"
    using idle_add [OF assms] by (auto simp: caller_ok_def intro!: idle_caller)
  moreover have "idle ref C Q (set_req q r (RRead j) st)" "idle ref C Q (set_req q r (RDone (Inl e)) st)"
    if "tc_sas st r = Some j" for j e
    using assms(1) idleD(3) [OF assms(1)] that by (auto simp: caller_ok_def intro!: idle_caller)
  ultimately show ?thesis using assms(1) by (auto simp: getTokens_lookup_def split: option.split)
qed

text \<open>A caller that goes on has the object it dealt with before.\<close>

lemma idle_caller_phase:
  assumes "idle ref C Q st" "tc_req st q = Some \<lparr>r_ref = ref, r_phase = ph\<rparr>" "q \<notin> Q"
  shows "caller_ok C (tc_chan st q) ph"
  using idleD(4) [OF assms(1,3,2)] by simp

lemma idle_read:
  assumes "idle ref C Q st" "inv_req issued st" "tc_req st q = Some \<lparr>r_ref = r, r_phase = RRead i\<rparr>" "tc_cells st i = Some sa"
  shows "idle ref C Q (getTokens_read now q r i sa st)"
proof -
  have "sa_Reference sa = r" using inv_reqD(4) [OF assms(2,3)] assms(4) by (auto simp: req_ok_def)
  then have "i \<notin> C \<and> sa_tokens sa = None" if "q \<notin> Q" "r = ref"
    using idle_caller_phase [OF assms(1) _ that(1), of "RRead i"] assms(3,4) that(2) idleD(2) [OF assms(1,4)]
    by (simp add: caller_ok_def cell_idle_def)
  then show ?thesis
    using assms(1) by (auto simp: getTokens_read_def usable_def caller_ok_def intro!: idle_caller)
qed

lemma idle_dispatch:
  assumes "idle ref C Q st" "inv_req issued st" "tc_req st q = Some \<lparr>r_ref = r, r_phase = RDispatch i\<rparr>"
  shows "idle ref C Q (upd i (\<lambda>sa. sa\<lparr>externalRequests := [Some q]\<rparr>) (set_req q r (RWait i) st))"
proof (rule idle_upd)
  have "tc_chan st q = []" using inv_reqD(3) [OF assms(2), of q] assms(3) by (auto simp: chan_ok_def returned_or_waits_def)
  then show "idle ref C Q (set_req q r (RWait i) st)"
    using assms(1,3) idle_caller_phase [of ref C Q st q "RDispatch i"] by (auto simp: caller_ok_def intro!: idle_caller)
qed auto

lemma idle_receive:
  assumes "idle ref C Q st" "tc_req st q = Some \<lparr>r_ref = r, r_phase = RWait i\<rparr>" "tc_chan st q = resp # resps"
  shows "idle ref C Q (set_req q r (RDone (response_result resp)) st)"
proof (rule idle_caller [OF assms(1)])
  assume "q \<notin> Q" "r = ref"
  then have "resp = RespNothing" using idle_caller_phase [of ref C Q st q "RWait i"] assms by (auto simp: caller_ok_def)
  then show "caller_ok C (tc_chan st q) (RDone (response_result resp))" by (simp add: caller_ok_def)
qed

lemma idle_step:
  "tc_step issued concurrency st st' \<Longrightarrow> inv_req issued st \<Longrightarrow> no_pods ref C st \<Longrightarrow> idle ref C Q st \<Longrightarrow> idle ref C Q st'"
proof (induction rule: tc_step.induct)
  case (add_pod st i r)
  then show ?case by (auto simp: AddPodServiceAccount_def intro!: idle_upd idle_add split: option.split)
next
  case (get_lookup st i q r)
  then show ?case by (intro idle_lookup)
next
  case (get_read st q r i sa now)
  then show ?case by (intro idle_read)
next
  case (req_dispatch st q r i sa)
  then show ?case by (intro idle_dispatch)
next
  case (req_receive st q r i resp resps)
  then show ?case by (intro idle_receive)
next
  case (req_give_up st q r ph i err)
  then show ?case by (intro idle_caller) (simp_all add: caller_ok_def)
next
  case (go_check st i sa)
  then show ?case by (intro idle_check) (auto simp: no_pods_def mustDelete_def)
next
  case (go_delete st i sa res)
  then show ?case by (intro idle_check)
next
  case (go_settle st i sa res now)
  then show ?case by (intro idle_settle)
next
  case (go_exit st i sa)
  have "idle ref C Q (sendResponse i sa RespNothing st)"
    by (rule idle_send [OF go_exit(5,3,1)]) simp
  then show ?case by (rule idle_upd) auto
qed (auto simp: DeletePodServiceAccount_def UpdateServiceAccount_def DeleteServiceAccount_def
    cell_idle_def intro!: idle_upd split: option.split)

lemma idle_start:
  assumes "inv_req issued st" "tc_sas st ref = None"
  shows "idle ref (dom (tc_cells st)) (dom (tc_req st)) st"
  using assms by (auto simp: idle_def dom_def)

abbreviation podless_step :: "(Reference \<Rightarrow> tokens \<Rightarrow> bool) \<Rightarrow> nat \<Rightarrow> Reference \<Rightarrow> nat set \<Rightarrow> tcache \<Rightarrow> tcache \<Rightarrow> bool" where
  "podless_step issued concurrency ref C \<equiv> (\<lambda>a b. tc_step issued concurrency a b \<and> no_pods ref C b)"

lemma podless_idle:
  assumes "(tc_step issued concurrency)\<^sup>*\<^sup>* NewProvider a" "tc_sas a ref = None"
    and "(podless_step issued concurrency ref (dom (tc_cells a)))\<^sup>*\<^sup>* a b"
  shows "(tc_step issued concurrency)\<^sup>*\<^sup>* NewProvider b \<and> no_pods ref (dom (tc_cells a)) b \<and>
    idle ref (dom (tc_cells a)) (dom (tc_req a)) b"
  using assms(3)
proof (induction rule: rtranclp_induct)
  case base
  have "inv_req issued a" using tc_reachable [OF assms(1)] by blast
  then show ?case using assms(1) idle_start [OF _ assms(2)] by (auto simp: no_pods_def)
next
  case (step b c)
  have "inv_req issued b" using tc_reachable step.IH by blast
  then show ?case using step idle_step [of issued concurrency b c] by (meson rtranclp.rtrancl_into_rtrancl)
qed

section \<open>The nil answer\<close>

text \<open>A request for an account that is not in the map can be answered with nothing: its goroutine deletes
  the account at once.\<close>

lemma nil_answer:
  assumes "tc_sas st ref = None" "tc_cells st i = None" "tc_req st q = None" "tc_chan st q = []"
  shows "\<exists>st'. (podless_step issued concurrency ref (dom (tc_cells st)))\<^sup>*\<^sup>* st st' \<and>
    tc_req st' q = Some \<lparr>r_ref = ref, r_phase = RDone (Inr None)\<rparr>"
proof -
  let ?step = "podless_step issued concurrency ref (dom (tc_cells st))"
  let ?sa = "\<lparr>sa_Reference = ref, podCount = 0, sa_deleted = False, sa_tokens = None,
     externalRequests = [], g_phase = GCheck, g_retries = 0, g_pending = []\<rparr>"
  let ?a = "set_req q ref (RRead i) (addServiceAccount i ref 0 st)"
  let ?b = "set_req q ref (RDispatch i) (?a\<lparr>tc_cacheMisses := Suc (tc_cacheMisses ?a)\<rparr>)"
  let ?c = "upd i (\<lambda>sa. sa\<lparr>externalRequests := [Some q]\<rparr>) (set_req q ref (RWait i) ?b)"
  let ?sc = "?sa\<lparr>externalRequests := [Some q]\<rparr>"
  let ?d = "check_then GAcquire i ?sc ?c"
  let ?sd = "?sc\<lparr>g_phase := GReturn\<rparr>"
  let ?e = "upd i (\<lambda>sa. sa\<lparr>g_phase := GExit\<rparr>) (sendResponse i ?sd RespNothing ?d)"
  let ?f = "set_req q ref (RDone (response_result RespNothing)) ?e"
  note check = check_then_def checkIfMustDeleteAndDelete_def mustDelete_def
  have pods: "no_pods ref (dom (tc_cells st)) x" if "tc_cells x = (tc_cells st)(i \<mapsto> sa)" "podCount sa = 0" for x sa
    using that by (auto simp: no_pods_def)
  have cells: "tc_cells ?a = (tc_cells st)(i \<mapsto> ?sa)" "tc_cells ?b = (tc_cells st)(i \<mapsto> ?sa)" "tc_cells ?c = (tc_cells st)(i \<mapsto> ?sc)"
      "tc_cells ?d = (tc_cells st)(i \<mapsto> ?sd)" "tc_cells ?e = (tc_cells st)(i \<mapsto> ?sa\<lparr>g_phase := GExit\<rparr>)"
    by (simp_all add: fun_eq_iff check)
  have s1: "?step st ?a"
    using tc_step.get_lookup [OF assms(2,3), of issued concurrency ref] pods [OF cells(1)] assms(1)
    by (simp add: getTokens_lookup_def)
  have s2: "?step ?a ?b"
    using tc_step.get_read [of ?a q ref i ?sa issued concurrency "time_Unix 0"] pods [OF cells(2)]
    by (simp add: getTokens_read_def usable_def)
  have s3: "?step ?b ?c"
    using tc_step.req_dispatch [of ?b q ref i ?sa issued concurrency] pods [OF cells(3)] by simp
  have s4: "?step ?c ?d"
    using tc_step.go_check [of ?c i ?sc issued concurrency] pods [OF cells(4)] cells(3) by simp
  have s5: "?step ?d ?e"
    using tc_step.go_exit [of ?d i ?sd issued concurrency] pods [OF cells(5)] cells(4) by simp
  have "tc_chan ?e q = [RespNothing]" "tc_req ?e q = Some \<lparr>r_ref = ref, r_phase = RWait i\<rparr>"
    using assms(4) by (simp_all add: check answer_def)
  then have s6: "?step ?e ?f"
    using tc_step.req_receive [of ?e q ref i RespNothing "[]" issued concurrency] pods [of ?f "?sa\<lparr>g_phase := GExit\<rparr>"] cells(5)
    by simp
  note chain = rtranclp.rtrancl_into_rtrancl [of ?step]
  have "?step\<^sup>*\<^sup>* st ?f"
    by (rule chain [OF chain [OF chain [OF chain [OF chain [OF chain [OF rtranclp.rtrancl_refl s1] s2] s3] s4] s5] s6])
  moreover have "tc_req ?f q = Some \<lparr>r_ref = ref, r_phase = RDone (Inr None)\<rparr>" by simp
  ultimately show ?thesis by blast
qed

section \<open>Properties\<close>

text \<open>C35. Once an account has left the map, the cache does not serve its tokens until another of its pods appears:
  every later call that returns without an error returns a nil pointer, because the goroutine that the
  request starts deletes the account at once and its deferred response was built before there was an error
  to report. The callers dereference that pointer. So it is for all accounts when the cache is used
  without the watch of pods, and for an account that is deleted and created again while its pods run.\<close>

theorem cache_without_pods:
  assumes "(tc_step issued concurrency)\<^sup>*\<^sup>* NewProvider st" "tc_sas st ref = None" "tc_req st q = None"
    and "(\<lambda>a b. tc_step issued concurrency a b \<and> no_pods ref (dom (tc_cells st)) b)\<^sup>*\<^sup>* st st'"
    and "tc_req st' q = Some \<lparr>r_ref = ref, r_phase = RDone (Inr result)\<rparr>"
  shows "result = None \<and> panics (cache_GetServiceAccountToken now (Inr result)) \<and>
    panics (cache_GetGoogleAccessTokens now (Inr result))"
proof -
  have "idle ref (dom (tc_cells st)) (dom (tc_req st)) st'" using podless_idle [OF assms(1,2,4)] by blast
  then have "caller_ok (dom (tc_cells st)) (tc_chan st' q) (RDone (Inr result))"
    using idle_caller_phase assms(3,5) by fastforce
  then have "result = None" by (cases result) (auto simp: caller_ok_def)
  then show ?thesis by (simp add: cache_GetServiceAccountToken_def cache_GetGoogleAccessTokens_def)
qed

text \<open>A pod runs while its account is deleted, dropped by its goroutine and created again.\<close>

definition example_recreated :: tcache where
  "example_recreated =
     (let st = DeleteServiceAccount example_ref example_added in
      UpdateServiceAccount example_ref (check_then GAcquire 0 (the (tc_cells st 0)) st))"

lemma example_deleted:
  "tc_cells (DeleteServiceAccount example_ref example_added) 0 = Some \<lparr>sa_Reference = example_ref, podCount = 1,
     sa_deleted = True, sa_tokens = None, externalRequests = [None], g_phase = GCheck, g_retries = 0, g_pending = []\<rparr>"
  by (simp add: DeleteServiceAccount_def example_added_cell notify_def)

lemma example_recreated_fields:
  "tc_sas example_recreated example_ref = None" "tc_cells example_recreated 1 = None" "tc_req example_recreated = Map.empty"
  "tc_chan example_recreated 5 = []"
  by (simp_all add: example_recreated_def UpdateServiceAccount_def DeleteServiceAccount_def check_then_def Let_def
      checkIfMustDeleteAndDelete_def mustDelete_def notify_def example_added_cell)
    (simp add: example_added_def AddPodServiceAccount_def NewProvider_def)

lemma example_recreated_reachable: "(tc_step issued concurrency)\<^sup>*\<^sup>* NewProvider example_recreated"
proof -
  let ?a = "DeleteServiceAccount example_ref example_added" and ?sa = "the (tc_cells (DeleteServiceAccount example_ref example_added) 0)"
  have "tc_step issued concurrency ?a (check_then GAcquire 0 ?sa ?a)"
    by (rule tc_step.go_check) (simp_all add: example_deleted)
  moreover have "tc_step issued concurrency example_added ?a" by (rule tc_step.delete_sa)
  moreover have "tc_step issued concurrency (check_then GAcquire 0 ?sa ?a) example_recreated"
    unfolding example_recreated_def Let_def by (rule tc_step.update_sa)
  ultimately show ?thesis
    using example_added_reachable [of issued concurrency] by (meson rtranclp.rtrancl_into_rtrancl)
qed

theorem cache_without_pods_witness:
  "\<exists>st. (tc_step example_issued 1)\<^sup>*\<^sup>* example_recreated st \<and> tc_req st 5 = Some \<lparr>r_ref = example_ref, r_phase = RDone (Inr None)\<rparr> \<and>
     panics (cache_GetServiceAccountToken (time_Unix 1000) (Inr None))"
proof -
  let ?step = "podless_step example_issued 1 example_ref (dom (tc_cells example_recreated))"
  have "tc_req example_recreated 5 = None" by (simp add: example_recreated_fields)
  from nil_answer [OF example_recreated_fields(1,2) this example_recreated_fields(4), of example_issued 1] obtain st where
    st: "?step\<^sup>*\<^sup>* example_recreated st" "tc_req st 5 = Some \<lparr>r_ref = example_ref, r_phase = RDone (Inr None)\<rparr>" by blast
  have "(tc_step example_issued 1)\<^sup>*\<^sup>* example_recreated st" using st(1) by (rule rtranclp_mono [THEN predicate2D, rotated]) blast
  then show ?thesis
    using st cache_without_pods [OF example_recreated_reachable example_recreated_fields(1) _ st, of "time_Unix 1000"]
    by (auto simp: example_recreated_fields)
qed

end
