(* ===== verification/Token_Cache_Close.thy ===== *)
theory Token_Cache_Close
  imports Token_Cache_Liveness
begin

text \<open>
  The provider of \<open>cache/provider.go\<close> as a whole: the accounts with their goroutines, the input-dependent
  caches with the goroutine that collects their garbage every minute, and \<open>Close\<close>, which cancels the
  context and waits for all goroutines.
\<close>

section \<open>The provider\<close>

record provider =
  pr_accounts :: tcache
  pr_caches :: token_caches
  pr_gc :: bool

definition cache_NewProvider :: provider where
  "cache_NewProvider = \<lparr>pr_accounts = NewProvider, pr_caches = no_tokens, pr_gc = True\<rparr>"

text \<open>The goroutines whose deferred \<open>wg.Done\<close> has not run: those of the accounts, and the garbage
  collector.\<close>

definition running :: "tcache \<Rightarrow> nat set" where
  "running st = {i. \<exists>sa. tc_cells st i = Some sa \<and> g_phase sa \<noteq> GExit}"

definition pr_wg :: "provider \<Rightarrow> nat" where
  "pr_wg p = card (running (pr_accounts p)) + (if pr_gc p then 1 else 0)"

text \<open>\<open>Close\<close> up to \<open>wg.Wait\<close>.\<close>

definition cache_Close :: "provider \<Rightarrow> provider" where
  "cache_Close p = p\<lparr>pr_accounts := (pr_accounts p)\<lparr>tc_done := True\<rparr>\<rparr>"

inductive pr_step :: "(Reference \<Rightarrow> tokens \<Rightarrow> bool) \<Rightarrow> nat \<Rightarrow> provider \<Rightarrow> provider \<Rightarrow> bool" for issued concurrency where
  account: "tc_step issued concurrency (pr_accounts p) st \<Longrightarrow> pr_step issued concurrency p (p\<lparr>pr_accounts := st\<rparr>)"
| input_call: "pr_step issued concurrency p (p\<lparr>pr_caches := cache_step op (pr_caches p)\<rparr>)"
| gc_tick: "pr_gc p \<Longrightarrow> pr_step issued concurrency p (p\<lparr>pr_caches := collect_garbage now (pr_caches p)\<rparr>)"
| gc_done: "pr_gc p \<Longrightarrow> tc_done (pr_accounts p) \<Longrightarrow> pr_step issued concurrency p (p\<lparr>pr_gc := False\<rparr>)"

lemma pr_close: "pr_step issued concurrency p (cache_Close p)"
  unfolding cache_Close_def by (rule pr_step.account, rule tc_step.close)

lemma tc_done_step: "tc_step issued concurrency st st' \<Longrightarrow> tc_done st \<Longrightarrow> tc_done st'"
  by (induction rule: tc_step.induct)
    (auto simp: AddPodServiceAccount_def DeletePodServiceAccount_def UpdateServiceAccount_def DeleteServiceAccount_def
      getTokens_lookup_def getTokens_read_def check_then_def checkIfMustDeleteAndDelete_def settle_def
      split: option.split sum.split prod.split)

text \<open>A run of the provider is a run of its accounts and a sequence of operations on its caches.\<close>

lemma pr_reachable:
  assumes "(pr_step issued concurrency)\<^sup>*\<^sup>* cache_NewProvider p"
  shows "(tc_step issued concurrency)\<^sup>*\<^sup>* NewProvider (pr_accounts p)" "\<exists>ops. pr_caches p = fold cache_step ops no_tokens"
    "pr_gc p \<or> tc_done (pr_accounts p)"
proof -
  have "(tc_step issued concurrency)\<^sup>*\<^sup>* NewProvider (pr_accounts p) \<and> (\<exists>ops. pr_caches p = fold cache_step ops no_tokens) \<and>
      (pr_gc p \<or> tc_done (pr_accounts p))"
    using assms
  proof (induction rule: rtranclp_induct)
    case base
    have "pr_caches cache_NewProvider = fold cache_step [] no_tokens" by (simp add: cache_NewProvider_def)
    then show ?case by (auto simp: cache_NewProvider_def intro: exI [of _ "[]"])
  next
    case (step a b)
    obtain ops where ops: "pr_caches a = fold cache_step ops no_tokens" using step.IH by blast
    have more: "\<exists>ops. cache_step op (pr_caches a) = fold cache_step ops no_tokens" for op
      by (rule exI [of _ "ops @ [op]"]) (simp add: ops)
    from step.hyps(2) show ?case
    proof cases
      case (account st)
      then show ?thesis using step.IH tc_done_step rtranclp.rtrancl_into_rtrancl by fastforce
    next
      case (input_call op)
      then show ?thesis using step.IH more [of op] by auto
    next
      case (gc_tick now)
      then show ?thesis using step.IH more [of "OpGC now"] by auto
    next
      case gc_done
      then show ?thesis using step.IH by auto
    qed
  qed
  then show "(tc_step issued concurrency)\<^sup>*\<^sup>* NewProvider (pr_accounts p)" "\<exists>ops. pr_caches p = fold cache_step ops no_tokens"
    "pr_gc p \<or> tc_done (pr_accounts p)" by blast+
qed

section \<open>Every goroutine can end\<close>

text \<open>The goroutine \<open>i\<close> can end, without anything happening to the others.\<close>

definition can_exit :: "(Reference \<Rightarrow> tokens \<Rightarrow> bool) \<Rightarrow> nat \<Rightarrow> nat \<Rightarrow> tcache \<Rightarrow> bool" where
  "can_exit issued concurrency i st \<longleftrightarrow> (\<exists>st'. runs issued concurrency st st' \<and> tc_done st' \<and> running st' = running st - {i})"

lemma running_upd:
  "tc_cells st i = Some sa \<Longrightarrow> running (upd i f st) = (if g_phase (f sa) = GExit then running st - {i} else insert i (running st))"
  by (auto simp: running_def split: if_splits)

lemma can_exit_step:
  assumes "can_exit issued concurrency i st'" "tc_step issued concurrency st st'" "running st' = running st"
  shows "can_exit issued concurrency i st"
  using assms unfolding can_exit_def by (metis converse_rtranclp_into_rtranclp)

lemma exit_return:
  assumes "tc_done st" "tc_cells st i = Some sa" "g_phase sa = GReturn"
  shows "can_exit issued concurrency i st"
proof -
  let ?st = "upd i (\<lambda>sa. sa\<lparr>g_phase := GExit\<rparr>) (sendResponse i sa RespNothing st)"
  have "tc_step issued concurrency st ?st" by (rule tc_step.go_exit [OF assms(2,3)])
  moreover have "tc_done ?st" using assms(1) by simp
  moreover have "running ?st = running st - {i}" using assms(2) by (auto simp: running_def split: if_splits)
  ultimately show ?thesis unfolding can_exit_def by blast
qed

text \<open>A step of the goroutine to a phase from which it can end.\<close>

lemma exit_upd:
  assumes "tc_done st" "tc_cells st i = Some sa" "g_phase sa \<noteq> GExit" "ph \<noteq> GExit"
    and "tc_step issued concurrency st (upd i (\<lambda>sa. sa\<lparr>g_phase := ph\<rparr>) st)"
    and "can_exit issued concurrency i (upd i (\<lambda>sa. sa\<lparr>g_phase := ph\<rparr>) st)"
  shows "can_exit issued concurrency i st"
proof (rule can_exit_step [OF assms(6,5)])
  have "i \<in> running st" using assms(2,3) by (simp add: running_def)
  then show "running (upd i (\<lambda>sa. sa\<lparr>g_phase := ph\<rparr>) st) = running st"
    using running_upd [OF assms(2)] assms(4) by (simp add: insert_absorb)
qed

lemma exit_now:
  assumes "tc_done st" "tc_cells st i = Some sa" "(\<exists>d. g_phase sa = GSleep d) \<or> g_phase sa = GAcquire"
  shows "can_exit issued concurrency i st"
proof (rule exit_upd [OF assms(1,2)])
  show "tc_step issued concurrency st (upd i (\<lambda>sa. sa\<lparr>g_phase := GReturn\<rparr>) st)"
    using assms tc_step.go_sleep_done tc_step.go_acquire_done by blast
  show "can_exit issued concurrency i (upd i (\<lambda>sa. sa\<lparr>g_phase := GReturn\<rparr>) st)"
    by (rule exit_return) (simp add: assms(1,2))+
qed (use assms(3) in auto)

text \<open>A check of the loop, and the end of its round, leave the goroutine where it can end.\<close>

lemma check_phase:
  assumes "tc_cells st i = Some sa" "g_phase sa \<noteq> GExit" "ph \<noteq> GExit"
  shows "running (check_then ph i sa st) = running st" "tc_done (check_then ph i sa st) = tc_done st"
    "tc_cells (check_then ph i sa st) i = Some (sa\<lparr>g_phase := if mustDelete sa then GReturn else ph\<rparr>)"
  using assms by (auto simp: check_then_def checkIfMustDeleteAndDelete_def running_def split: if_splits)

lemma settle_phase:
  assumes "tc_cells st i = Some sa" "g_phase sa \<noteq> GExit"
  shows "running (settle now i sa res st) = running st" "tc_done (settle now i sa res st) = tc_done st"
    "\<exists>sb d. tc_cells (settle now i sa res st) i = Some sb \<and> g_phase sb = GSleep d"
  using assms by (auto simp: settle_def running_def split: if_splits sum.splits)

lemma exit_created:
  assumes "tc_done st" "tc_cells st i = Some sa" "g_phase sa = GCreated res"
  shows "can_exit issued concurrency i st"
proof (cases "mustDelete sa")
  case True
  show ?thesis
  proof (rule can_exit_step [OF _ tc_step.go_delete [OF assms(2,3) True]])
    show "can_exit issued concurrency i (check_then GCheck i sa st)"
      using check_phase(2,3) [OF assms(2), of GCheck] assms(1,3) True by (intro exit_return) (simp, simp, simp)
  qed (use check_phase(1) [OF assms(2)] assms(3) in simp)
next
  case False
  have "g_phase sa \<noteq> GExit" using assms(3) by simp
  note settled = settle_phase [OF assms(2) this, of "time_Unix 0" res]
  have "can_exit issued concurrency i (settle (time_Unix 0) i sa res st)"
    using settled(2,3) assms(1) exit_now by blast
  then show ?thesis using can_exit_step tc_step.go_settle [OF assms(2,3) False] settled(1) by blast
qed

lemma exit_any:
  assumes "tc_done st" "i \<in> running st"
  shows "can_exit issued concurrency i st"
proof -
  obtain sa where sa: "tc_cells st i = Some sa" "g_phase sa \<noteq> GExit" using assms(2) by (auto simp: running_def)
  show ?thesis
  proof (cases "g_phase sa")
    case GCheck
    show ?thesis
    proof (rule can_exit_step [OF _ tc_step.go_check [OF sa(1) GCheck]])
      show "can_exit issued concurrency i (check_then GAcquire i sa st)"
        using check_phase(2,3) [OF sa, of GAcquire] assms(1) exit_return [of "check_then GAcquire i sa st"]
          exit_now [of "check_then GAcquire i sa st"] by (cases "mustDelete sa") simp_all
    qed (simp add: check_phase(1) [OF sa])
  next
    case GCreate
    show ?thesis
    proof (rule exit_upd [OF assms(1) sa])
      show "tc_step issued concurrency st (upd i (\<lambda>sa. sa\<lparr>g_phase := GCreated (Inl ctxCanceled)\<rparr>) st)"
        by (rule tc_step.go_create [OF sa(1) GCreate]) simp
    qed (use assms(1) sa(1) in \<open>auto intro!: exit_created\<close>)
  qed (use assms(1) sa exit_now exit_created exit_return in auto)
qed

lemma all_exit:
  assumes "finite (running st)" "tc_done st"
  shows "\<exists>st'. runs issued concurrency st st' \<and> tc_done st' \<and> running st' = {}"
  using assms
proof (induction "running st" arbitrary: st rule: finite_psubset_induct)
  case psubset
  show ?case
  proof (cases "running st = {}")
    case False
    then obtain i where i: "i \<in> running st" by blast
    from exit_any [OF psubset.prems i, of issued concurrency] obtain st1 where
      st1: "runs issued concurrency st st1" "tc_done st1" "running st1 = running st - {i}" unfolding can_exit_def by blast
    have less: "running st1 \<subset> running st" using st1(3) i by blast
    from psubset.hyps(2) [OF less st1(2)] st1(1) show ?thesis by (meson rtranclp_trans)
  qed (use psubset in blast)
qed

section \<open>Closing\<close>

lemma runs_provider: "runs issued concurrency st st' \<Longrightarrow> (pr_step issued concurrency)\<^sup>*\<^sup>* (p\<lparr>pr_accounts := st\<rparr>) (p\<lparr>pr_accounts := st'\<rparr>)"
proof (induction rule: rtranclp_induct)
  case (step a b)
  have "pr_step issued concurrency (p\<lparr>pr_accounts := a\<rparr>) (p\<lparr>pr_accounts := a\<rparr>\<lparr>pr_accounts := b\<rparr>)"
    by (rule pr_step.account) (simp add: step.hyps(2))
  then show ?case using step.IH by simp
qed simp

lemma finite_running: "inv_sem concurrency st \<Longrightarrow> finite (running st)"
  unfolding inv_sem_def by (rule finite_subset [of _ "dom (tc_cells st)"]) (auto simp: running_def)

lemma pr_done_step: "pr_step issued concurrency p p' \<Longrightarrow> tc_done (pr_accounts p) \<Longrightarrow> tc_done (pr_accounts p')"
  by (induction rule: pr_step.induct) (auto dest: tc_done_step)

lemma pr_done_run: "(pr_step issued concurrency)\<^sup>*\<^sup>* p p' \<Longrightarrow> tc_done (pr_accounts p) \<Longrightarrow> tc_done (pr_accounts p')"
  by (induction rule: rtranclp_induct) (auto dest: pr_done_step)

lemma provider_drains:
  assumes "(pr_step issued concurrency)\<^sup>*\<^sup>* cache_NewProvider p" "tc_done (pr_accounts p)"
  shows "\<exists>p'. (pr_step issued concurrency)\<^sup>*\<^sup>* p p' \<and> pr_wg p' = 0"
proof -
  have "inv_sem concurrency (pr_accounts p)" using tc_reachable [OF pr_reachable(1) [OF assms(1)]] by blast
  from all_exit [OF finite_running [OF this] assms(2), of issued concurrency] obtain st where
    st: "runs issued concurrency (pr_accounts p) st" "tc_done st" "running st = {}" by blast
  let ?p = "p\<lparr>pr_accounts := st\<rparr>"
  have run: "(pr_step issued concurrency)\<^sup>*\<^sup>* p ?p" using runs_provider [OF st(1), of p] by simp
  show ?thesis
  proof (cases "pr_gc p")
    case True
    have "pr_step issued concurrency ?p (?p\<lparr>pr_gc := False\<rparr>)" by (rule pr_step.gc_done) (simp_all add: True st(2))
    then have "(pr_step issued concurrency)\<^sup>*\<^sup>* p (?p\<lparr>pr_gc := False\<rparr>)" using run by (meson rtranclp.rtrancl_into_rtrancl)
    moreover have "pr_wg (?p\<lparr>pr_gc := False\<rparr>) = 0" using st(3) by (simp add: pr_wg_def)
    ultimately show ?thesis by blast
  next
    case False
    then have "pr_wg ?p = 0" using st(3) by (simp add: pr_wg_def)
    then show ?thesis using run by blast
  qed
qed


definition example_provider :: provider where
  "example_provider = cache_NewProvider\<lparr>pr_accounts := example_settled\<rparr>"


end
