(* ===== verification/Token_Service.thy ===== *)
theory Token_Service
  imports Token_Cache_Machine
begin

text \<open>
  The contract of the token cache: an abstract token service with its accounts, the gauge of accounts, the
  calls that are asked and answered, and a counting semaphore. The locale \<open>simulation\<close> lifts a simulation of
  steps to runs; its interpretation on the cache says that the goroutines, channels and retries of the
  cache implement the service.
\<close>

section \<open>Simulations\<close>

locale simulation =
  fixes ok :: "'c \<Rightarrow> bool"
    and cstep :: "'c \<Rightarrow> 'c \<Rightarrow> bool"
    and abs :: "'c \<Rightarrow> 'a"
    and astep :: "'a \<Rightarrow> 'a \<Rightarrow> bool"
  assumes ok_step: "ok c \<Longrightarrow> cstep c c' \<Longrightarrow> ok c'"
    and simulates: "ok c \<Longrightarrow> cstep c c' \<Longrightarrow> astep\<^sup>*\<^sup>* (abs c) (abs c')"
begin

lemma run_simulated: "cstep\<^sup>*\<^sup>* c c' \<Longrightarrow> ok c \<Longrightarrow> ok c' \<and> astep\<^sup>*\<^sup>* (abs c) (abs c')"
proof (induction rule: rtranclp_induct)
  case (step b d)
  then show ?case using ok_step simulates by (meson rtranclp_trans)
qed simp

text \<open>An invariant of the abstract steps holds after every concrete run.\<close>

lemma invariant_transfers:
  assumes "\<And>a a'. astep a a' \<Longrightarrow> P a \<Longrightarrow> P a'" "cstep\<^sup>*\<^sup>* c c'" "ok c" "P (abs c)"
  shows "P (abs c')"
proof -
  have "astep\<^sup>*\<^sup>* (abs c) (abs c')" using run_simulated [OF assms(2,3)] by blast
  then show ?thesis by (induction rule: rtranclp_induct) (auto intro: assms(1,4))
qed

end

section \<open>The token service\<close>

datatype call = Asked Reference | Answered Reference "tokens option res"

record service =
  svc_accounts :: "Reference set"
  svc_gauge :: int
  svc_calls :: "nat \<Rightarrow> call option"
  svc_held :: nat
  svc_closed :: bool

inductive svc_step :: "(Reference \<Rightarrow> tokens \<Rightarrow> bool) \<Rightarrow> nat \<Rightarrow> service \<Rightarrow> service \<Rightarrow> bool" for issued concurrency where
  keep: "ref \<notin> svc_accounts s \<Longrightarrow>
    svc_step issued concurrency s (s\<lparr>svc_accounts := insert ref (svc_accounts s), svc_gauge := svc_gauge s + 1\<rparr>)"
| forget: "ref \<in> svc_accounts s \<Longrightarrow>
    svc_step issued concurrency s (s\<lparr>svc_accounts := svc_accounts s - {ref}, svc_gauge := svc_gauge s - 1\<rparr>)"
| ask: "svc_calls s q = None \<Longrightarrow> svc_step issued concurrency s (s\<lparr>svc_calls := (svc_calls s)(q \<mapsto> Asked ref)\<rparr>)"
| reply: "svc_calls s q = Some (Asked ref) \<Longrightarrow> (\<forall>t. res = Inr (Some t) \<longrightarrow> issued ref t) \<Longrightarrow>
    svc_step issued concurrency s (s\<lparr>svc_calls := (svc_calls s)(q \<mapsto> Answered ref res)\<rparr>)"
| acquire: "svc_held s < concurrency \<Longrightarrow> svc_step issued concurrency s (s\<lparr>svc_held := Suc (svc_held s)\<rparr>)"
| release: "0 < svc_held s \<Longrightarrow> svc_step issued concurrency s (s\<lparr>svc_held := svc_held s - 1\<rparr>)"
| shut: "svc_step issued concurrency s (s\<lparr>svc_closed := True\<rparr>)"

definition idle_service :: service where
  "idle_service = \<lparr>svc_accounts = {}, svc_gauge = 0, svc_calls = Map.empty, svc_held = 0, svc_closed = False\<rparr>"

section \<open>The cache implements the service\<close>

definition abs_call :: "requester \<Rightarrow> call" where
  "abs_call r = (case r_phase r of RDone res \<Rightarrow> Answered (r_ref r) res | _ \<Rightarrow> Asked (r_ref r))"

definition service_of :: "tcache \<Rightarrow> service" where
  "service_of st = \<lparr>svc_accounts = dom (tc_sas st), svc_gauge = tc_numTokens st, svc_calls = (\<lambda>q. map_option abs_call (tc_req st q)),
     svc_held = held st, svc_closed = tc_done st\<rparr>"

definition tc_inv :: "(Reference \<Rightarrow> tokens \<Rightarrow> bool) \<Rightarrow> nat \<Rightarrow> tcache \<Rightarrow> bool" where
  "tc_inv issued concurrency st \<longleftrightarrow> inv_map st \<and> inv_cells issued st \<and> inv_sem concurrency st \<and> inv_req issued st"

lemma service_initial: "service_of NewProvider = idle_service" "tc_inv issued concurrency NewProvider"
  by (simp_all add: tc_inv_def inv_initial)
    (simp add: service_of_def idle_service_def NewProvider_def held_def creating_def)

text \<open>Updates of a cell and of a caller, as the service sees them.\<close>

lemma service_upd:
  assumes "\<And>sa. tc_cells st i = Some sa \<Longrightarrow> g_phase (f sa) = GCreate \<longleftrightarrow> g_phase sa = GCreate"
  shows "service_of (upd i f st) = service_of st"
proof -
  have "creating (upd i f st) = creating st" using assms by (auto simp: creating_def split: if_splits)
  then show ?thesis by (simp add: service_of_def held_def)
qed

lemma service_caller:
  "service_of (set_req q ref ph st) = (service_of st)\<lparr>svc_calls := (svc_calls (service_of st))(q \<mapsto> abs_call \<lparr>r_ref = ref, r_phase = ph\<rparr>)\<rparr>"
  by (simp add: service_of_def held_def creating_def fun_eq_iff)

lemma service_misses [simp]: "service_of (st\<lparr>tc_cacheMisses := n\<rparr>) = service_of st" "service_of (st\<lparr>tc_chan := ch\<rparr>) = service_of st"
  by (simp_all add: service_of_def held_def creating_def)

lemma service_send: "service_of (sendResponse i sa resp st) = service_of st"
  unfolding sendResponse_def by (simp add: service_upd)

lemma service_add:
  assumes "tc_cells st i = None" "tc_sas st ref = None"
  shows "svc_step issued concurrency (service_of st) (service_of (addServiceAccount i ref n st))"
proof -
  have "creating (addServiceAccount i ref n st) = creating st" using assms(1) by (auto simp: creating_def)
  then have "service_of (addServiceAccount i ref n st) = (service_of st)\<lparr>svc_accounts := insert ref (svc_accounts (service_of st)),
      svc_gauge := svc_gauge (service_of st) + 1\<rparr>"
    by (simp add: service_of_def held_def)
  then show ?thesis using assms(2) svc_step.keep [of ref "service_of st"] by (auto simp: service_of_def)
qed

lemma service_reply:
  assumes "tc_req st q = Some \<lparr>r_ref = ref, r_phase = ph\<rparr>" "\<And>x. ph \<noteq> RDone x" "\<And>t. res = Inr (Some t) \<Longrightarrow> issued ref t"
  shows "svc_step issued concurrency (service_of st) (service_of (set_req q ref (RDone res) st))"
proof -
  have "svc_calls (service_of st) q = Some (Asked ref)"
    using assms(1,2) by (cases ph) (auto simp: service_of_def abs_call_def)
  then show ?thesis using svc_step.reply [of "service_of st" q ref res] assms(3) by (simp add: service_caller abs_call_def)
qed

lemma service_ask:
  assumes "tc_req st q = None"
  shows "svc_step issued concurrency (service_of st) (service_of (set_req q ref (RRead i) st))"
  using svc_step.ask [of "service_of st" q issued concurrency ref] assms
  by (simp add: service_caller abs_call_def) (simp add: service_of_def)

text \<open>A caller that goes on without a result.\<close>

lemma service_asking:
  assumes "tc_req st q = Some \<lparr>r_ref = ref, r_phase = ph\<rparr>" "\<And>x. ph \<noteq> RDone x" "\<And>x. ph' \<noteq> RDone x"
  shows "service_of (set_req q ref ph' st) = service_of st"
proof -
  have "abs_call \<lparr>r_ref = ref, r_phase = ph'\<rparr> = abs_call \<lparr>r_ref = ref, r_phase = ph\<rparr>"
    using assms(2,3) by (cases ph; cases ph') (auto simp: abs_call_def)
  then show ?thesis using assms(1) by (simp add: service_caller) (simp add: service_of_def fun_upd_idem)
qed

lemma service_lookup:
  assumes "tc_cells st i = None" "tc_req st q = None" "inv_map st"
  shows "(svc_step issued concurrency)\<^sup>*\<^sup>* (service_of st) (service_of (getTokens_lookup i q ref st))"
proof (cases "tc_sas st ref")
  case None
  have "svc_step issued concurrency (service_of (addServiceAccount i ref 0 st)) (service_of (set_req q ref (RRead i) (addServiceAccount i ref 0 st)))"
    by (rule service_ask) (simp add: assms(2))
  then show ?thesis
    using service_add [OF assms(1) None, of issued concurrency 0] None by (simp add: getTokens_lookup_def)
next
  case (Some j)
  then obtain sa where sa: "tc_cells st j = Some sa" using inv_mapD(3) [OF assms(3)] by blast
  let ?asked = "set_req q ref (RRead j) st"
  have asked: "svc_step issued concurrency (service_of st) (service_of ?asked)" by (rule service_ask [OF assms(2)])
  have "svc_step issued concurrency (service_of ?asked) (service_of (set_req q ref (RDone (Inl errServiceAccountDeleted)) ?asked))"
    by (rule service_reply [where ph = "RRead j"]) simp_all
  moreover have "set_req q ref (RDone (Inl errServiceAccountDeleted)) ?asked = set_req q ref (RDone (Inl errServiceAccountDeleted)) st"
    by (simp add: set_req_def)
  ultimately show ?thesis using asked Some sa by (auto simp: getTokens_lookup_def)
qed

lemma service_check:
  assumes "tc_cells st i = Some sa" "inv_map st" "live sa" "g_phase sa \<noteq> GCreate" "ph \<noteq> GCreate"
  shows "(svc_step issued concurrency)\<^sup>*\<^sup>* (service_of st) (service_of (check_then ph i sa st))"
proof (cases "mustDelete sa")
  case True
  let ?st = "st\<lparr>tc_sas := (tc_sas st)(sa_Reference sa := None), tc_numTokens := tc_numTokens st - 1\<rparr>"
  have "tc_sas st (sa_Reference sa) = Some i" by (rule inv_mapD(4) [OF assms(2,1,3)])
  moreover have "service_of ?st = (service_of st)\<lparr>svc_accounts := svc_accounts (service_of st) - {sa_Reference sa},
      svc_gauge := svc_gauge (service_of st) - 1\<rparr>"
    by (simp add: service_of_def held_def creating_def)
  ultimately have "svc_step issued concurrency (service_of st) (service_of ?st)"
    using svc_step.forget [of "sa_Reference sa" "service_of st"] by (auto simp: service_of_def)
  moreover have "service_of (check_then ph i sa st) = service_of ?st"
    using True assms(1,4) by (auto simp: check_then_def checkIfMustDeleteAndDelete_def intro!: service_upd)
  ultimately show ?thesis by simp
next
  case False
  then have "service_of (check_then ph i sa st) = service_of st"
    using assms(1,4,5) by (auto simp: check_then_def checkIfMustDeleteAndDelete_def intro!: service_upd)
  then show ?thesis by simp
qed

lemma service_settle:
  assumes "tc_cells st i = Some sa" "g_phase sa = GCreated res"
  shows "service_of (settle now i sa res st) = service_of st"
proof -
  have "service_of (upd i f (sendResponse i sa resp st)) = service_of (sendResponse i sa resp st)" "service_of (upd i f st) = service_of st"
    if "\<And>sa. g_phase (f sa) \<noteq> GCreate" for f resp
    by (rule service_upd, use that assms in simp)+
  then show ?thesis by (simp add: settle_def service_send split: sum.split prod.split)
qed

lemma service_acquire:
  assumes "tc_cells st i = Some sa" "g_phase sa = GAcquire" "held st < concurrency" "inv_sem concurrency st"
  shows "svc_step issued concurrency (service_of st) (service_of (upd i (\<lambda>sa. sa\<lparr>g_phase := GCreate\<rparr>) st))"
proof -
  have "i \<notin> creating st" using assms(1,2) by (simp add: creating_def)
  then have "held (upd i (\<lambda>sa. sa\<lparr>g_phase := GCreate\<rparr>) st) = Suc (held st)"
    using creating_upd [OF assms(1)] finite_creating [OF assms(4)] by (simp add: held_def)
  then show ?thesis using svc_step.acquire [of "service_of st" concurrency issued] assms(3) by (simp add: service_of_def)
qed

lemma service_create:
  assumes "tc_cells st i = Some sa" "g_phase sa = GCreate" "inv_sem concurrency st"
  shows "svc_step issued concurrency (service_of st) (service_of (upd i (\<lambda>sa. sa\<lparr>g_phase := GCreated res\<rparr>) st))"
proof -
  have i: "i \<in> creating st" using assms(1,2) by (simp add: creating_def)
  then have "0 < card (creating st)" using finite_creating [OF assms(3)] by (auto simp: card_gt_0_iff)
  moreover have "held (upd i (\<lambda>sa. sa\<lparr>g_phase := GCreated res\<rparr>) st) = held st - 1"
    using creating_upd [OF assms(1)] finite_creating [OF assms(3)] i calculation by (simp add: held_def)
  ultimately show ?thesis using svc_step.release [of "service_of st" issued concurrency] by (simp add: service_of_def held_def)
qed

lemma tc_inv_step: "tc_inv issued concurrency st \<Longrightarrow> tc_step issued concurrency st st' \<Longrightarrow> tc_inv issued concurrency st'"
  unfolding tc_inv_def by (auto intro: inv_map_step inv_cells_step inv_sem_step inv_req_step)

text \<open>A caller gets tokens of its account, from the object or from its channel.\<close>

lemma service_read:
  assumes "tc_inv issued concurrency st" "tc_req st q = Some \<lparr>r_ref = ref, r_phase = RRead i\<rparr>" "tc_cells st i = Some sa"
  shows "(svc_step issued concurrency)\<^sup>*\<^sup>* (service_of st) (service_of (getTokens_read now q ref i sa st))"
proof (cases "usable now (sa_tokens sa)")
  case True
  have "sa_Reference sa = ref" using assms inv_reqD(4) [of issued st q] by (auto simp: tc_inv_def req_ok_def)
  moreover have "cell_ok issued sa" using assms(1,3) by (simp add: tc_inv_def inv_cells_def)
  ultimately have "svc_step issued concurrency (service_of st) (service_of (set_req q ref (RDone (Inr (sa_tokens sa))) st))"
    by (intro service_reply [OF assms(2)]) (auto simp: cell_ok_def)
  then show ?thesis using True by (simp add: getTokens_read_def)
next
  case False
  have "service_of (set_req q ref (RDispatch i) (st\<lparr>tc_cacheMisses := n\<rparr>)) = service_of (st\<lparr>tc_cacheMisses := n\<rparr>)" for n
    by (rule service_asking [where ph = "RRead i"]) (simp_all add: assms(2))
  then show ?thesis using False by (simp add: getTokens_read_def)
qed

lemma service_receive:
  assumes "inv_req issued st" "tc_req st q = Some \<lparr>r_ref = ref, r_phase = RWait i\<rparr>" "tc_chan st q = resp # resps"
  shows "svc_step issued concurrency (service_of st) (service_of (set_req q ref (RDone (response_result resp)) st))"
proof (rule service_reply [OF assms(2)])
  fix t assume "response_result resp = Inr (Some t)"
  then have "RespTokens t \<in> set (tc_chan st q)" using assms(3) by (cases resp) auto
  then show "issued ref t" using inv_reqD(3) [OF assms(1), of q] assms(2) by (auto simp: chan_ok_def)
qed simp

lemma service_dispatch:
  assumes "tc_req st q = Some \<lparr>r_ref = ref, r_phase = RDispatch i\<rparr>"
  shows "service_of (upd i (\<lambda>sa. sa\<lparr>externalRequests := [Some q]\<rparr>) (set_req q ref (RWait i) st)) = service_of st"
proof -
  have "service_of (set_req q ref (RWait i) st) = service_of st" by (rule service_asking [OF assms]) simp_all
  then show ?thesis by (simp add: service_upd)
qed

lemma service_stays: "service_of st' = service_of st \<Longrightarrow> (svc_step issued concurrency)\<^sup>*\<^sup>* (service_of st) (service_of st')"
  by simp

lemma service_simulated:
  "tc_step issued concurrency st st' \<Longrightarrow> tc_inv issued concurrency st \<Longrightarrow>
    (svc_step issued concurrency)\<^sup>*\<^sup>* (service_of st) (service_of st')"
proof (induction rule: tc_step.induct)
  case (add_pod st i ref)
  then show ?case
    using service_add [of st i ref issued concurrency 1]
    by (cases "tc_sas st ref") (simp_all add: AddPodServiceAccount_def service_upd r_into_rtranclp)
next
  case (close st)
  then show ?case using svc_step.shut [of issued concurrency "service_of st"] by (simp add: service_of_def held_def creating_def)
next
  case (other_acquire st)
  then show ?case
    using svc_step.acquire [of "service_of st" concurrency issued] by (simp add: service_of_def held_def creating_def)
next
  case (other_release st)
  then show ?case
    using svc_step.release [of "service_of st" issued concurrency] by (simp add: service_of_def held_def creating_def)
next
  case (get_lookup st i q ref)
  then show ?case by (intro service_lookup) (simp_all add: tc_inv_def)
next
  case (get_read st q ref i sa now)
  then show ?case by (intro service_read)
next
  case (req_dispatch st q ref i sa)
  then show ?case by (simp add: service_dispatch)
next
  case (req_receive st q ref i resp resps)
  then show ?case by (intro r_into_rtranclp service_receive) (simp_all add: tc_inv_def)
next
  case (req_give_up st q ref ph i err)
  then show ?case by (intro r_into_rtranclp service_reply [of st q ref ph]) auto
next
  case (go_check st i sa)
  then show ?case by (intro service_check) (simp_all add: tc_inv_def live_def)
next
  case (go_acquire st i sa)
  then show ?case by (intro r_into_rtranclp service_acquire) (simp_all add: tc_inv_def)
next
  case (go_create st i sa res)
  then show ?case by (intro r_into_rtranclp service_create) (simp_all add: tc_inv_def)
next
  case (go_delete st i sa res)
  then show ?case by (intro service_check) (simp_all add: tc_inv_def live_def)
next
  case (go_settle st i sa res now)
  then show ?case by (simp add: service_settle)
next
  case (go_exit st i sa)
  then have "service_of (upd i (\<lambda>sa. sa\<lparr>g_phase := GExit\<rparr>) (sendResponse i sa RespNothing st)) = service_of (sendResponse i sa RespNothing st)"
    by (intro service_upd) auto
  then show ?case by (simp add: service_send)
qed (auto simp: DeletePodServiceAccount_def UpdateServiceAccount_def DeleteServiceAccount_def
    intro!: service_stays service_upd split: option.split)

interpretation cache_service: simulation "tc_inv issued concurrency" "tc_step issued concurrency" service_of "svc_step issued concurrency"
  by unfold_locales (rule tc_inv_step, assumption+, rule service_simulated, assumption+)

section \<open>Properties\<close>

text \<open>The invariant of the service: the gauge counts its accounts and the semaphore is bounded.\<close>

definition svc_inv :: "nat \<Rightarrow> service \<Rightarrow> bool" where
  "svc_inv concurrency s \<longleftrightarrow> finite (svc_accounts s) \<and> svc_gauge s = int (card (svc_accounts s)) \<and> svc_held s \<le> concurrency"

lemma svc_inv_step: "svc_step issued concurrency s s' \<Longrightarrow> svc_inv concurrency s \<Longrightarrow> svc_inv concurrency s'"
proof (induction rule: svc_step.induct)
  case (forget ref s)
  then have "0 < card (svc_accounts s)" by (auto simp: svc_inv_def card_gt_0_iff)
  then show ?case using forget by (simp add: svc_inv_def of_nat_diff Suc_le_eq)
qed (auto simp: svc_inv_def)

text \<open>An answer is final, and it never has tokens of another account.\<close>

lemma svc_answer_final: "svc_step issued concurrency s s' \<Longrightarrow> svc_calls s q = Some (Answered ref res) \<Longrightarrow> svc_calls s' q = Some (Answered ref res)"
  by (induction rule: svc_step.induct) auto

text \<open>C11. The token cache implements the token service: every interleaving of its goroutines, callers and
  listeners is a run of the abstract service, in which an account is kept and forgotten one at a time, a
  call is asked once and answered once with tokens issued for its account, an error or nothing, and no more
  than the configured number of creations run at once. An answer that a caller has got stays.\<close>

theorem cache_refines_service:
  assumes "(tc_step issued concurrency)\<^sup>*\<^sup>* NewProvider st" "(tc_step issued concurrency)\<^sup>*\<^sup>* st st'"
  shows "(svc_step issued concurrency)\<^sup>*\<^sup>* idle_service (service_of st) \<and>
    (svc_step issued concurrency)\<^sup>*\<^sup>* (service_of st) (service_of st') \<and>
    svc_inv concurrency (service_of st') \<and>
    (svc_calls (service_of st) q = Some (Answered ref res) \<longrightarrow> svc_calls (service_of st') q = Some (Answered ref res))"
proof -
  have st: "tc_inv issued concurrency st" "(svc_step issued concurrency)\<^sup>*\<^sup>* idle_service (service_of st)"
    using cache_service.run_simulated [OF assms(1) service_initial(2)] by (simp_all add: service_initial(1))
  have run: "(svc_step issued concurrency)\<^sup>*\<^sup>* (service_of st) (service_of st')"
    using cache_service.run_simulated [OF assms(2) st(1)] by blast
  have "svc_inv concurrency (service_of st')"
  proof (rule cache_service.invariant_transfers [where c = NewProvider and issued = issued and concurrency = concurrency])
    show "(tc_step issued concurrency)\<^sup>*\<^sup>* NewProvider st'" using assms by (rule rtranclp_trans)
    show "svc_inv concurrency (service_of NewProvider)" by (simp add: service_initial(1) svc_inv_def idle_service_def)
  qed (rule svc_inv_step, assumption+, rule service_initial(2))
  moreover have "svc_calls (service_of st') q = Some (Answered ref res)" if "svc_calls (service_of st) q = Some (Answered ref res)"
    using run that by (induction rule: rtranclp_induct) (auto intro: svc_answer_final)
  ultimately show ?thesis using st(2) run by blast
qed

theorem cache_refines_service_witness:
  "(svc_step example_issued 1)\<^sup>*\<^sup>* idle_service (service_of example_settled) \<and> svc_accounts (service_of example_settled) = {example_ref}"
proof -
  have "(tc_step example_issued 1)\<^sup>*\<^sup>* NewProvider example_settled"
    by (rule example_settled_reachable [of example_issued, OF example_tokens_issued])
  from cache_refines_service [OF this rtranclp.rtrancl_refl] show ?thesis by (auto simp: service_of_def example_settled_cell)
qed

end
