(* ===== verification/Program_Metrics.thy ===== *)
theory Program_Metrics
  imports Program
begin

text \<open>
  The metrics of the whole program: which collectors a run of \<open>main\<close> registers, in which order, and that no
  registration panics.
\<close>

section \<open>The metrics\<close>

text \<open>The collectors that a run registers, in order.\<close>

fun registered_of :: "event \<Rightarrow> collector option" where
  "registered_of (Registered c) = Some c"
| "registered_of _ = None"

definition metrics_of :: "event list \<Rightarrow> collector list" where
  "metrics_of evs = List.map_filter registered_of evs"

definition provider_collectors :: "flags \<Rightarrow> collector list" where
  "provider_collectors f = registry_collectors @ (if f_watch_pods f then pods_collectors else []) @
     (if f_watch_service_accounts f then serviceAccounts_collectors else []) @ (if f_cache_tokens f then tokens_collectors else [])"

lemma metrics_of_simps [simp]:
  "metrics_of [] = []" "metrics_of (ev # evs) = (case registered_of ev of Some c \<Rightarrow> [c] | None \<Rightarrow> []) @ metrics_of evs"
  "metrics_of (evs @ evs') = metrics_of evs @ metrics_of evs'" "metrics_of (map Registered cs) = cs"
proof -
  show "metrics_of (map Registered cs) = cs" by (induction cs) (simp_all add: metrics_of_def List.map_filter_simps)
qed (simp_all add: metrics_of_def map_filter_append List.map_filter_simps split: option.split)

lemma metrics_of_none: "\<forall>ev\<in>set evs. registered_of ev = None \<Longrightarrow> metrics_of evs = []"
  by (induction evs) simp_all

lemma metrics_of_take: "prefix (metrics_of (take n evs)) (metrics_of evs)"
  using metrics_of_simps(3) [of "take n evs" "drop n evs"] by (auto simp: prefix_def)

text \<open>The collectors registered so far; the deferred calls register nothing.\<close>

definition registered :: "collector list \<Rightarrow> run \<Rightarrow> bool" where
  "registered cs r \<longleftrightarrow> metrics_of (tr r) = cs \<and> (\<forall>ev\<in>set (defers r). registered_of ev = None)"

lemma registered_emit: "registered cs r \<Longrightarrow> registered_of ev = None \<Longrightarrow> registered cs (emit ev r)"
  by (simp add: registered_def emit_def)

lemma registered_deferred: "registered cs r \<Longrightarrow> registered_of ev = None \<Longrightarrow> registered cs (deferred ev r)"
  by (simp add: registered_def deferred_def)

lemma registered_providers: "registered (provider_collectors f) (start_watches f (create_providers f \<lparr>tr = [], defers = []\<rparr>))"
  by (simp add: registered_def provider_collectors_def start_watches_def create_providers_def start_if_def create_if_def
      emit_def deferred_def registers_def)

definition registers_up_to :: "collector list \<Rightarrow> event list \<times> exit \<Rightarrow> bool" where
  "registers_up_to cs out \<longleftrightarrow> prefix (metrics_of (fst out)) (cs @ server_collectors @ taints_collectors) \<and>
     (\<forall>ss. ServerStarted ss \<in> set (fst out) \<longrightarrow> set (cs @ server_collectors) \<subseteq> set (metrics_of (fst out)))"

lemma up_to_stop: "registered cs r \<Longrightarrow> unstarted r \<Longrightarrow> registers_up_to cs (tr r, x)"
  by (auto simp: registered_def registers_up_to_def unstarted_def server_event_def)

lemma up_to_serve:
  assumes "registered cs r" "unstarted r"
  shows "registers_up_to cs (serve_until_signal e ss r)"
proof -
  obtain n x where run: "serve_until_signal e ss r =
      (tr r @ map Registered server_collectors @ take n (server_events e ss @ server_releases e r), x)"
    by (rule serve_runs)
  have "metrics_of (server_releases e r) = []"
    using assms(1) by (intro metrics_of_none) (simp add: registered_def server_releases_def)
  then have "prefix (metrics_of (server_events e ss @ server_releases e r)) taints_collectors"
    by (simp add: server_events_def)
  then have "prefix (metrics_of (take n (server_events e ss @ server_releases e r))) taints_collectors"
    using metrics_of_take prefix_order.trans by blast
  moreover have "metrics_of (tr r) = cs" using assms(1) by (simp add: registered_def)
  ultimately show ?thesis unfolding registers_up_to_def run by auto
qed

lemma up_to_upstream: "registered cs r \<Longrightarrow> unstarted r \<Longrightarrow> registers_up_to cs (test_upstream e f ss r)"
  by (simp add: test_upstream_def up_to_stop up_to_serve registered_emit unstarted_emit server_event_def split: option.split)

lemma up_to_server: "registered cs r \<Longrightarrow> unstarted r \<Longrightarrow> registers_up_to cs (start_server e f n pool mode r)"
  by (simp add: start_server_def Let_def up_to_stop up_to_upstream registered_emit registered_deferred unstarted_acquire
      server_event_def split: sum.split)

lemma up_to_route:
  assumes "registered cs r" "unstarted r" "load_route e f ip n pool r = Ret out"
  shows "registers_up_to cs out"
proof (cases "me_node e")
  case (Inl err)
  then show ?thesis using assms by (auto simp: load_route_def up_to_stop)
next
  case (Inr node)
  then obtain res :: "(string \<times> closer) res" where "out = (case res of Inl _ \<Rightarrow> (tr r, Exited ''error loading and attaching network route'')
      | Inr (mode, c) \<Rightarrow> start_server e f n pool mode (deferred (RouteClosed c) (emit (RouteAttached mode c) r)))"
    using assms(3) by (auto simp: load_route_def gobind_Ret_iff)
  then show ?thesis
    using assms(1,2)
    by (auto simp: up_to_stop up_to_server registered_emit registered_deferred unstarted_acquire server_event_def split: sum.split)
qed

lemma provider_subseq: "subseq (provider_collectors f @ server_collectors @ taints_collectors) all_collectors"
proof -
  have "subseq (if b then xs else []) xs" for b and xs :: "collector list" by simp
  then show ?thesis
    unfolding provider_collectors_def all_collectors_def append.assoc by (intro list_emb_append_mono) simp_all
qed

text \<open>C24. No run of \<open>main\<close> registers two collectors under one name, whatever providers the flags select, so that no
  registration panics; and the collectors of the server are in the registry that \<open>/metrics\<close> exposes before
  the server is started.\<close>

theorem main_registers:
  assumes "prometheus_ok P" "main e = Ret (t, x)"
  shows "\<exists>r. register_all P (metrics_of t) (pm_NewRegistry P) = Ret r \<and>
    (\<forall>ss c. ServerStarted ss \<in> set t \<longrightarrow> c \<in> set (registry_collectors @ server_collectors) \<longrightarrow> pm_names P c \<subseteq> pm_registered P r)"
proof (cases rule: main_cases [of e])
  case (early y)
  then show ?thesis using assms(2) by simp
next
  case (route f ip c n pool)
  have "load_route e f ip n pool (start_watches f (create_providers f \<lparr>tr = [], defers = []\<rparr>)) = Ret (t, x)"
    using assms(2) route(6) by simp
  then have up: "registers_up_to (provider_collectors f) (t, x)" by (rule up_to_route [OF registered_providers unstarted_providers])
  have "subseq (metrics_of t) all_collectors"
    using up prefix_imp_subseq provider_subseq subseq_order.trans unfolding registers_up_to_def by (metis fst_conv)
  then obtain r where r: "register_all P (metrics_of t) (pm_NewRegistry P) = Ret r"
      "pm_registered P r = (\<Union>c\<in>set (metrics_of t). pm_names P c)"
    using register_subseq [OF assms(1)] by blast
  have "c \<in> set (metrics_of t)" if "ServerStarted ss \<in> set t" "c \<in> set (registry_collectors @ server_collectors)" for ss c
    using up that unfolding registers_up_to_def provider_collectors_def by (auto simp: subset_iff)
  then show ?thesis using r by blast
qed

theorem main_registers_witness:
  "\<exists>t r. main example_main = Ret (t, Returned) \<and> register_all list_registry (metrics_of t) [] = Ret r \<and>
     ''gke_metadata_server_request_latency_millis'' \<in> set r"
proof -
  obtain t ss where run: "main example_main = Ret (t, Returned)" "ServerStarted ss \<in> set t"
    using example_main_runs by (elim exE conjE) (rule that, assumption, simp, rule disjI1, rule refl)
  obtain r where r: "register_all list_registry (metrics_of t) (pm_NewRegistry list_registry) = Ret r"
      "\<forall>c. c \<in> set (registry_collectors @ server_collectors) \<longrightarrow> pm_names list_registry c \<subseteq> pm_registered list_registry r"
    using main_registers [OF list_registry_ok run(1)] run(2) by (elim exE conjE) blast
  have "Collector NewRequestLatencyMillis \<in> set (registry_collectors @ server_collectors)" by (simp add: server_collectors_def)
  with r(2) have "pm_names list_registry (Collector NewRequestLatencyMillis) \<subseteq> pm_registered list_registry r" by blast
  moreover have "fq_name NewRequestLatencyMillis = ''gke_metadata_server_request_latency_millis''" by code_simp
  ultimately show ?thesis using run(1) r(1) by (auto simp: list_registry_def)
qed

end
