(* ===== verification/Proxy_Liveness.thy ===== *)
theory Proxy_Liveness
  imports Proxy
begin

text \<open>
  No connection of the proxy gets stuck: whatever its clients, its upstream and the metadata server have done
  so far, every connection can still be served or closed, as long as \<open>Accept\<close> is called.
\<close>

section \<open>Connections that are not over\<close>

definition over :: "phase \<Rightarrow> bool" where
  "over ph = (case ph of Delivered _ \<Rightarrow> True | Closed \<Rightarrow> True | _ \<Rightarrow> False)"

abbreviation open_conns :: "proxy \<Rightarrow> nat set" where
  "open_conns p \<equiv> conns (\<lambda>ph. \<not> over ph) p"

lemma over_simps [simp]:
  "over (Delivered buf)" "over Closed" "\<not> over (Sniffing buf)" "\<not> over (Waiting buf)" "\<not> over (Queued buf)"
  "\<not> over (Dialing buf)" "\<not> over (Piping buf b b')"
  by (simp_all add: over_def)

text \<open>A run that ends one connection and does nothing to the others.\<close>

definition ends_one :: "proxy \<Rightarrow> bool" where
  "ends_one p \<longleftrightarrow> (\<exists>p'. px_step\<^sup>*\<^sup>* p p' \<and> open_conns p' \<subset> open_conns p)"

lemma ends_oneI: "px_step\<^sup>*\<^sup>* p p' \<Longrightarrow> c \<in> open_conns p \<Longrightarrow> open_conns p' = open_conns p - {c} \<Longrightarrow> ends_one p"
  unfolding ends_one_def by blast

lemma open_set_phase: "over ph \<Longrightarrow> open_conns (set_phase c ph p) = open_conns p - {c}"
  by (simp add: conns_set_phase)

lemma end_head:
  assumes "px_inv p" "px_queue p = c # q"
  shows "ends_one p"
proof -
  obtain buf where buf: "px_phase p c = Some (Queued buf)" by (rule queue_head [OF assms])
  show ?thesis
    by (rule ends_oneI [OF r_into_rtranclp [of px_step, OF px_step.Accept [OF assms(2) buf]], of c])
      (simp_all add: buf conns_iff open_set_phase)
qed

lemma end_waiting:
  assumes "px_inv p" "px_phase p c = Some (Waiting buf)"
  shows "ends_one p"
proof (cases "px_queue p")
  case Nil
  let ?q = "(set_phase c (Queued buf) p)\<lparr>px_queue := px_queue p @ [c]\<rparr>"
  have step: "px_step p ?q" by (rule px_step.enqueue [OF assms(2)]) (simp add: Nil queue_cap_def)
  have "px_step ?q ((set_phase c (Delivered buf) ?q)\<lparr>px_queue := []\<rparr>)" by (rule px_step.Accept) (simp_all add: Nil)
  with step have "px_step\<^sup>*\<^sup>* p ((set_phase c (Delivered buf) ?q)\<lparr>px_queue := []\<rparr>)" by simp
  then show ?thesis
    by (rule ends_oneI [of _ _ c]) (auto simp: assms(2) conns_iff open_set_phase conns_set_phase)
next
  case (Cons d q)
  then show ?thesis by (rule end_head [OF assms(1)])
qed

lemma end_sniffing:
  assumes "px_inv p" "px_phase p c = Some (Sniffing buf)"
  shows "ends_one p"
proof -
  have "\<not> sniffed buf" using px_inv_phase [OF assms] by (simp add: phase_ok_def)
  then have "after_read buf ([], Some (ErrorString ''EOF'')) = Closed"
    by (simp add: after_read_def sniff_next_def sniffed_def)
  then have "px_step p (set_phase c Closed p)" using px_step.read [OF assms(2), of "([], Some (ErrorString ''EOF''))"] by simp
  from ends_oneI [OF r_into_rtranclp [of px_step, OF this], of c] show ?thesis
    by (simp add: assms(2) conns_iff open_set_phase)
qed

lemma end_dialing:
  assumes "px_phase p c = Some (Dialing buf)"
  shows "ends_one p"
  by (rule ends_oneI [OF r_into_rtranclp [of px_step, OF px_step.dial_error [OF assms]], of c])
    (simp_all add: assms conns_iff open_set_phase)

text \<open>Both directions of a pipe are copied to their ends, in any order.\<close>

lemma copied_both:
  assumes "px_phase p c = Some (Piping buf b b')"
  shows "px_step\<^sup>*\<^sup>* p (set_phase c (Piping buf True True) p)"
proof -
  have same: "set_phase c (Piping buf b b') p = p" using assms by (simp add: set_phase_def fun_upd_idem)
  have up: "px_step\<^sup>*\<^sup>* p (set_phase c (Piping buf True b') p)"
    using px_step.copied_up [of p c buf b'] assms same by (cases b) auto
  have "px_step\<^sup>*\<^sup>* (set_phase c (Piping buf True b') p) (set_phase c (Piping buf True True) p)"
    using px_step.copied_down [of "set_phase c (Piping buf True b') p" c buf True]
    by (cases b') (auto simp: set_phase_def)
  with up show ?thesis by simp
qed

lemma end_piping:
  assumes "px_phase p c = Some (Piping buf b b')"
  shows "ends_one p"
proof -
  let ?q = "set_phase c (Piping buf True True) p"
  have "px_step ?q ((set_phase c Closed ?q)\<lparr>px_activeConnections := px_activeConnections ?q - 1\<rparr>)"
    by (rule px_step.finish) simp
  with copied_both [OF assms] have "px_step\<^sup>*\<^sup>* p ((set_phase c Closed ?q)\<lparr>px_activeConnections := px_activeConnections ?q - 1\<rparr>)"
    by (rule rtranclp.rtrancl_into_rtrancl)
  then show ?thesis
    by (rule ends_oneI [of _ _ c]) (auto simp: assms conns_iff conns_set_phase)
qed

lemma end_one:
  assumes "px_inv p" "c \<in> open_conns p"
  shows "ends_one p"
proof -
  obtain ph where ph: "px_phase p c = Some ph" "\<not> over ph" using assms(2) by (auto simp: conns_def)
  show ?thesis
  proof (cases ph)
    case (Queued buf)
    then have "c \<in> set (px_queue p)" using queued_in_queue [OF assms(1)] ph(1) by simp
    then show ?thesis using end_head [OF assms(1)] by (cases "px_queue p") auto
  qed (use ph assms(1) end_sniffing end_waiting end_dialing end_piping in auto)
qed

lemma end_all:
  assumes "px_inv p"
  shows "\<exists>p'. px_step\<^sup>*\<^sup>* p p' \<and> px_inv p' \<and> open_conns p' = {}"
  using finite_conns [OF assms] assms
proof (induction "open_conns p" arbitrary: p rule: finite_psubset_induct)
  case psubset
  show ?case
  proof (cases "open_conns p = {}")
    case False
    then obtain c where "c \<in> open_conns p" by blast
    then obtain p1 where p1: "px_step\<^sup>*\<^sup>* p p1" "open_conns p1 \<subset> open_conns p"
      using end_one [OF psubset.prems] unfolding ends_one_def by blast
    have "px_inv p1" using p1(1) psubset.prems by (induction rule: rtranclp_induct) (auto intro: px_inv_step)
    from psubset.hyps(2) [OF p1(2) this] show ?thesis using p1(1) by (meson rtranclp_trans)
  qed (use psubset in blast)
qed

text \<open>A queued connection is delivered once those before it are, and a waiting one once the queue has room.\<close>

lemma queued_delivered:
  assumes "px_inv p" "px_phase p c = Some (Queued buf)"
  shows "\<exists>p'. px_step\<^sup>*\<^sup>* p p' \<and> px_phase p' c = Some (Delivered buf)"
  using assms
proof (induction "length (px_queue p)" arbitrary: p)
  case 0
  then show ?case using queued_in_queue [of p c buf] by simp
next
  case (Suc n)
  then obtain d q where q: "px_queue p = d # q" by (cases "px_queue p") auto
  obtain b where b: "px_phase p d = Some (Queued b)" by (rule queue_head [OF Suc.prems(1) q])
  let ?p = "(set_phase d (Delivered b) p)\<lparr>px_queue := q\<rparr>"
  have step: "px_step p ?p" by (rule px_step.Accept [OF q b])
  show ?case
  proof (cases "d = c")
    case True
    then have "px_phase ?p c = Some (Delivered buf)" using b Suc.prems(2) by simp
    then show ?thesis using step by blast
  next
    case False
    then have "\<exists>p'. px_step\<^sup>*\<^sup>* ?p p' \<and> px_phase p' c = Some (Delivered buf)"
      using Suc.prems Suc.hyps(2) q by (intro Suc.hyps(1) px_inv_step [OF step]) auto
    then show ?thesis using step by (meson converse_rtranclp_into_rtranclp)
  qed
qed

lemma room_delivered:
  assumes "px_inv p" "px_phase p c = Some (Waiting buf)" "length (px_queue p) < queue_cap"
  shows "\<exists>p'. px_step\<^sup>*\<^sup>* p p' \<and> px_phase p' c = Some (Delivered buf)"
proof -
  have "\<exists>p'. px_step\<^sup>*\<^sup>* ((set_phase c (Queued buf) p)\<lparr>px_queue := px_queue p @ [c]\<rparr>) p' \<and> px_phase p' c = Some (Delivered buf)"
    by (rule queued_delivered [OF px_inv_enqueue [OF assms]]) simp
  then show ?thesis using px_step.enqueue [OF assms(2,3)] by (meson converse_rtranclp_into_rtranclp)
qed

lemma waiting_delivered:
  assumes "px_inv p" "px_phase p c = Some (Waiting buf)"
  shows "\<exists>p'. px_step\<^sup>*\<^sup>* p p' \<and> px_phase p' c = Some (Delivered buf)"
proof (cases "length (px_queue p) < queue_cap")
  case False
  then obtain d q where q: "px_queue p = d # q" by (cases "px_queue p") (auto simp: queue_cap_def)
  obtain b where b: "px_phase p d = Some (Queued b)" by (rule queue_head [OF assms(1) q])
  let ?p = "(set_phase d (Delivered b) p)\<lparr>px_queue := q\<rparr>"
  have step: "px_step p ?p" by (rule px_step.Accept [OF q b])
  have "d \<noteq> c" using b assms(2) by auto
  moreover have "length q < queue_cap" using assms(1) q by (simp add: px_inv_def)
  ultimately have "\<exists>p'. px_step\<^sup>*\<^sup>* ?p p' \<and> px_phase p' c = Some (Delivered buf)"
    using assms(2) by (intro room_delivered px_inv_step [OF step assms(1)]) simp_all
  then show ?thesis using step by (meson converse_rtranclp_into_rtranclp)
qed (rule room_delivered [OF assms])

section \<open>Properties\<close>



end
