(* ===== verification/Delivery.thy ===== *)
theory Delivery
  imports Proxy_Liveness Proxytest
begin

text \<open>
  The way of a connection in eBPF mode, from the \<open>connect\<close> of a pod to the one who answers: the redirect to
  the emulator, the proxy's sniffing, and the metadata server or the upstream.
\<close>

lemma px_run_inv: "px_step\<^sup>*\<^sup>* p p' \<Longrightarrow> px_inv p \<Longrightarrow> px_inv p'"
  by (induction rule: rtranclp_induct) (auto intro: px_inv_step)

text \<open>A classified connection comes to the metadata server or to the pipe.\<close>

lemma classified_arrives:
  assumes "px_inv p" "px_listening p" "px_phase p n = None" "sniff rds [] = Some (Inr (buf, rest))"
  shows "\<exists>p'. px_step\<^sup>*\<^sup>* p p' \<and> px_phase p' n = Some (if isMetadataRequest buf then Delivered buf else Piping buf False False)"
proof -
  let ?q = "set_phase n (if isMetadataRequest buf then Waiting buf else Dialing buf) p"
  have run: "px_step\<^sup>*\<^sup>* p ?q" by (rule px_classifies [OF assms(2-4)])
  show ?thesis
  proof (cases "isMetadataRequest buf")
    case True
    then show ?thesis
      using waiting_delivered [OF px_run_inv [OF run assms(1)], of n buf] run by (auto intro: rtranclp_trans)
  next
    case False
    then have "px_step ?q ((set_phase n (Piping buf False False) ?q)\<lparr>px_activeConnections := px_activeConnections ?q + 1\<rparr>)"
      by (intro px_step.dial) simp
    with run have "px_step\<^sup>*\<^sup>* p ((set_phase n (Piping buf False False) ?q)\<lparr>px_activeConnections := px_activeConnections ?q + 1\<rparr>)"
      by (rule rtranclp.rtrancl_into_rtrancl)
    then show ?thesis using False by fastforce
  qed
qed

section \<open>Properties\<close>

text \<open>C20. The way of a connection in eBPF mode. A connect of a process outside of the emulator's cgroup to the
  metadata address goes to the emulator. However TCP splits the request line and whatever else the proxy is
  doing, a \<open>GET\<close> below the metadata paths can be delivered to the metadata server, and any other request piped
  to the upstream, which the emulator's own connects reach without being redirected. The one who reads the
  connection next gets every byte of it.\<close>

theorem connection_routed:
  assumes "redirect_LoadAndAttach env (quad_addr ip) port st = Ret (Inr c, st')" "selfCgroupID env = Inr self" "g \<noteq> self"
    and "px_step\<^sup>*\<^sup>* Listen p" "px_listening p" "px_phase p n = None"
    and "token m" "token t" "length m + length t + 2 \<le> sniffCap"
    and "concat (map fst rds) = m @ space # t @ space # r" "\<forall>rd\<in>set (butlast rds). snd rd = None"
  shows "redirect_connect4 (rs_config st') g (sock_addr_of AF_INET IPPROTO_TCP (169, 254, 169, 254) 80) =
      sock_addr_of AF_INET IPPROTO_TCP ip (word_of_int port) \<and>
    redirect_connect4 (rs_config st') self (sock_addr_of AF_INET IPPROTO_TCP (169, 254, 169, 254) 80) =
      sock_addr_of AF_INET IPPROTO_TCP (169, 254, 169, 254) 80 \<and>
    (\<exists>buf rest p'. sniff rds [] = Some (Inr (buf, rest)) \<and> px_step\<^sup>*\<^sup>* p p' \<and>
      px_phase p' n = Some (if m = ''GET'' \<and> metadata_path (cut_query t) then Delivered buf else Piping buf False False) \<and>
      (\<forall>k>0. io_Copy k (buf, rest) = m @ space # t @ space # r))"
proof -
  obtain b rest where s: "sniff rds [] = Some (Inr (m @ space # t @ space # b, rest))"
      "\<forall>k>0. io_Copy k (m @ space # t @ space # b, rest) = m @ space # t @ space # r"
    by (rule sniff_line [OF assms(7-11)])
  let ?buf = "m @ space # t @ space # b"
  obtain p' where p': "px_step\<^sup>*\<^sup>* p p'" "px_phase p' n = Some (if isMetadataRequest ?buf then Delivered ?buf else Piping ?buf False False)"
    using classified_arrives [OF px_reachable_inv [OF assms(4)] assms(5,6) s(1)] by blast
  have "\<exists>buf rest p'. sniff rds [] = Some (Inr (buf, rest)) \<and> px_step\<^sup>*\<^sup>* p p' \<and>
      px_phase p' n = Some (if m = ''GET'' \<and> metadata_path (cut_query t) then Delivered buf else Piping buf False False) \<and>
      (\<forall>k>0. io_Copy k (buf, rest) = m @ space # t @ space # r)"
    by (intro exI conjI, rule s(1), rule p'(1), rule p'(2) [unfolded isMetadataRequest_line [OF assms(7,8)]], rule s(2))
  moreover have "redirect_connect4 (rs_config st') g (sock_addr_of AF_INET IPPROTO_TCP (169, 254, 169, 254) 80) =
      sock_addr_of AF_INET IPPROTO_TCP ip (word_of_int port) \<and>
    redirect_connect4 (rs_config st') self (sock_addr_of AF_INET IPPROTO_TCP (169, 254, 169, 254) 80) =
      sock_addr_of AF_INET IPPROTO_TCP (169, 254, 169, 254) 80"
    using redirect_loaded(1) [OF assms(1)] assms(2,3) by auto
  ultimately show ?thesis by blast
qed

theorem connection_routed_witness:
  "\<exists>st' p' buf. redirect_LoadAndAttach example_redirect_env (quad_addr (10, 0, 0, 2)) 16321 redirect_init = Ret (Inr CloseRedirect, st') \<and>
     redirect_connect4 (rs_config st') 9 (sock_addr_of AF_INET IPPROTO_TCP (169, 254, 169, 254) 80) =
       sock_addr_of AF_INET IPPROTO_TCP (10, 0, 0, 2) 16321 \<and>
     px_step\<^sup>*\<^sup>* Listen p' \<and> px_phase p' 0 = Some (Delivered buf)"
proof -
  let ?rds = "[(''GET /compute'', None), (''Metadata/v1/ HTTP/1.1'', None)] :: read_result list"
  obtain st' where st': "redirect_LoadAndAttach example_redirect_env (quad_addr (10, 0, 0, 2)) 16321 redirect_init =
      Ret (Inr CloseRedirect, st')"
    using example_redirect_load by blast
  have rds: "concat (map fst ?rds) = ''GET'' @ space # ''/computeMetadata/v1/'' @ space # ''HTTP/1.1''"
      "\<forall>rd\<in>set (butlast ?rds). snd rd = None"
    by simp_all
  have line: "token ''GET''" "token ''/computeMetadata/v1/''" "length ''GET'' + length ''/computeMetadata/v1/'' + 2 \<le> sniffCap"
    by (simp_all add: token_def sniffCap_def)
  have path: "metadata_path (cut_query ''/computeMetadata/v1/'')" by (simp add: cut_query_def metadata_path_def HasPrefix_def)
  have px: "px_listening Listen" "px_phase Listen 0 = None" by (simp_all add: Listen_def)
  have "(9 :: 64 word) \<noteq> 7" by simp
  note chain = connection_routed [OF st' example_redirect_cgroup this rtranclp.rtrancl_refl px line rds]
  obtain buf p' where "px_step\<^sup>*\<^sup>* Listen p'" "px_phase p' 0 = Some (Delivered buf)"
    using conjunct2 [OF conjunct2 [OF chain]] path by auto
  moreover have "redirect_connect4 (rs_config st') 9 (sock_addr_of AF_INET IPPROTO_TCP (169, 254, 169, 254) 80) =
      sock_addr_of AF_INET IPPROTO_TCP (10, 0, 0, 2) 16321"
    using conjunct1 [OF chain] by simp
  ultimately show ?thesis using st' by blast
qed

end
