(* ===== verification/Spec2Isabelle.thy ===== *)
theory Spec2Isabelle
  imports Cached_System Informed_Cache Token_Cache_Pods Token_Cache_Close Token_Service Program_Metrics Delivery
begin

text \<open>
  Verification of gke-metadata-server, a daemon that emulates the GKE metadata server on the nodes of any
  Kubernetes cluster: a pod asks it for a Google access or identity token, and it must answer with a
  token of the ServiceAccount of that very pod.

  \<^bold>\<open>The program and its model.\<close> The daemon runs once per node. \<open>main.go\<close> validates the inputs, wires the
  providers, attaches the route by which connections to 169.254.169.254:80 reach it, loads the attestation
  of callers, starts the server and handles the node's taints. A connection is redirected by an eBPF
  program (or a loopback address), sniffed by the proxy, and, when it carries a metadata request, served by
  the HTTP server: the directory handler finds the route, the handler resolves the caller's pod, reads its
  ServiceAccount and obtains tokens, from the token cache or by creating them.

  \<^item> \<open>Prelude\<close>, \<open>Go_Strings\<close>, \<open>Go_Errors\<close>, \<open>Go_Time\<close>, \<open>Go_Net\<close>, \<open>Kube_Objects\<close>: what the source uses of Go and of
    its standard library. A call that may panic has the type \<open>'a go\<close>, a call that may fail \<open>'a res\<close>;
    durations are 64-bit integers with wrap-around written out; addresses keep their bytes as words; a
    time has a wall clock and an optional monotonic reading; Kubernetes objects are records of the fields
    that are read.
  \<^item> \<open>Service_Accounts\<close>: \<open>internal/serviceaccounts\<close>: references, the email annotation, the two providers and the
    callbacks of the informer.
  \<^item> \<open>Pods\<close>: \<open>internal/pods\<close>: the filter of running pods, the listing and the watching provider. The locale
    \<open>pod_provider\<close> is what the server relies on; both providers interpret it.
  \<^item> \<open>Retry\<close>: \<open>internal/retry\<close> and \<open>internal/time\<close>: the attempt loop with its delays.
  \<^item> \<open>Node\<close>: \<open>internal/node\<close>: the providers of the node and the removal of taints.
  \<^item> \<open>Attestation\<close>: \<open>ebpf/attest.c\<close> and \<open>internal/attestation\<close>: the sockops program that records who opened a
    connection, the lookups through its map and through the socket table, and the pod UID in a cgroup path.
    The locale \<open>attestation_lookuper\<close> is interpreted on both lookups.
  \<^item> \<open>Routing\<close>: \<open>ebpf/redirect.c\<close>, \<open>internal/redirect\<close>, \<open>internal/loopback\<close>, \<open>internal/routing\<close>, and loading and
    unloading of both eBPF programs.
  \<^item> \<open>Proxy\<close>, \<open>Proxy_Liveness\<close>: \<open>internal/proxy\<close>: sniffing and classification as functions, the life of the connections,
    the queue of accepted ones and closing as a step relation \<open>px_step\<close>; that no connection gets stuck.
  \<^item> \<open>Proxytest\<close>: \<open>internal/proxytest\<close>, the test upstream. \<open>Delivery\<close> joins redirect, proxy and upstream.
  \<^item> \<open>Informer\<close>: starting and closing the watching providers, which is the same code in the three packages.
  \<^item> \<open>Metrics\<close>: \<open>internal/metrics\<close>: the collectors as their options, the registry, the groups that the components
    register. The prometheus client is a parameter with the laws \<open>prometheus_ok\<close>.
  \<^item> \<open>Http_Response\<close>, \<open>Http_Directory\<close>: \<open>internal/http\<close>: responses, and the tree of handlers with registration,
    dispatch, listings and recursive listings. The locale \<open>metadata_endpoints\<close> gives the laws under which every
    request is answered.
  \<^item> \<open>Preflight\<close>: \<open>internal/preflight\<close>: the check of the container's operating system.
  \<^item> \<open>Google_Credentials\<close>: \<open>internal/googlecredentials\<close> and the creating provider of
    \<open>internal/serviceaccounttokens/create\<close>.
  \<^item> \<open>Token_Cache\<close>, \<open>Token_Cache_Machine\<close>: \<open>internal/serviceaccounttokens/cache\<close>: the caches of identity tokens and of
    tokens with custom scopes as functions, and the goroutine per ServiceAccount with the callers, the
    listeners, the semaphore and closing as a step relation \<open>tc_step\<close>, so that every interleaving of their
    atomic sections is a run. Around it, \<open>Token_Service\<close> is its abstract specification with the locale \<open>simulation\<close>,
    \<open>Token_Cache_Liveness\<close> says which waiting requests can be answered, \<open>Token_Cache_Pods\<close> what happens to accounts
    without a known pod, \<open>Token_Cache_Close\<close> adds the garbage collector and \<open>Close\<close>, and \<open>Informed_Cache\<close> makes the
    cache the listener of both informers, as \<open>main\<close> does.
  \<^item> \<open>Server_Pods\<close>, \<open>Server_API\<close>, \<open>Server\<close>: \<open>internal/server\<close>: the resolution of the caller (\<open>pods.go\<close>), the handlers
    (\<open>gke_apis.go\<close>), the routes, the middleware, the health endpoints and the shutdown (\<open>server.go\<close>). \<open>Server_Startup\<close>
    has what \<open>New\<close> registers and builds, and the goroutines that start the two servers, as a step relation \<open>su_step\<close>.
    \<open>Server_Contract\<close> holds the specification: which pod a connection belongs to (\<open>conn_pod\<close>) and which provider
    calls a request may make (\<open>call_ok\<close>). The state of a request records these calls.
  \<^item> \<open>Logging\<close>: \<open>internal/logging\<close>: the logger in a context and the adapter for klog.
  \<^item> \<open>Program\<close>, \<open>Program_Metrics\<close>: \<open>main.go\<close>: the start-up as a function to the trace of its effects, with the
    stack of deferred calls, the collectors that are registered, and the failure of a server goroutine meanwhile.
  \<^item> \<open>System\<close>, \<open>Cached_System\<close> and this theory: the composition, without and with the token cache. The locale \<open>attested_pods\<close> joins the contracts of a lookuper and of a pod
    provider; it is interpreted on the sockops map and on the socket table with the providers of \<open>main\<close>.

  \<^bold>\<open>What is shown.\<close> The properties below follow a caller through the whole daemon: in eBPF mode (C1), from
  an address of the host (C2) and by source address (C3) it gets the identity of its own pod only, whatever
  it sends; the token it gets is the one issued for that identity (C6), along the whole path from its \<open>connect\<close>
  (C7) and with the token cache (C12); its connection comes to the metadata server or to the upstream with every
  byte (C20); readiness means that attestation works (C21). The component theories show what these rest on and more: the resolution of callers refines
  its specification, every request is answered (\<open>Server\<close>); the two sides of the kernel boundary agree on
  byte orders (\<open>Attestation\<close>, \<open>Routing\<close>); the token cache implements an abstract token service (\<open>Token_Service\<close>), never
  hands a token to the wrong account, never answers twice and keeps one goroutine per account
  (\<open>Token_Cache_Machine\<close>), follows the pods that the informer reports (\<open>Informed_Cache\<close>), can always be closed
  (\<open>Token_Cache_Close\<close>), and a cached token expires early on both clocks (\<open>Token_Cache\<close>); the proxy loses no byte, decides by the request line alone, however it is split
  (\<open>Proxy\<close>), and can always end its connections (\<open>Proxy_Liveness\<close>); the servers start or the process exits
  (\<open>Server_Startup\<close>); no collector is registered twice (\<open>Program_Metrics\<close>); retries end and their delays are bounded (\<open>Retry\<close>); registrations keep the tree well formed
  (\<open>Http_Directory\<close>); the start-up validates its inputs, acquires in order and releases in reverse (\<open>Program\<close>).
  Other properties state errors that the code has: where a panic or a nil pointer is possible, the
  theorem says exactly when.

  \<^bold>\<open>Parameters and hypotheses.\<close> The Kubernetes API, client-go's indexer, the token exchange and the IAM
  credentials API, netlink, the eBPF loader, the kernel, \<open>/proc\<close> and the cgroup tree, the clock and the
  operating system's files are arguments. What is assumed of them is their documented behaviour:
  \<open>kube_list_ok\<close> (field selectors select), \<open>indexer_ok\<close> (an index returns the matching objects), \<open>bpf_ok\<close> (a map
  returns only what the hook stored, entries may be evicted), \<open>diag_ok\<close> (the processes that hold a socket are in
  the cgroup of its owner), \<open>netlink_ok\<close>, and \<open>server_ok\<close> for one server and connection. Each such hypothesis has an
  instance on a concrete function in a witness.

  \<^bold>\<open>Loops and fuel.\<close> Only \<open>Retry_Do\<close> has fuel, because a negative \<open>MaxAttempts\<close> retries forever; for a bounded
  operation the number of attempts is enough (\<open>retry_bounded\<close>), and \<open>lookupPodByIP\<close> uses exactly that. The loops of
  goroutines are step relations; liveness of these is stated as what can still happen from every reachable
  state, because Go promises no fair choice of a select; all other loops are structural or have a termination proof. The sniffing
  loop consumes its reads, the walk of the directory its path pieces.

  \<^bold>\<open>Not modelled.\<close> The libraries that the program calls (client-go's informers, net/http, prometheus, logrus,
  netlink, the eBPF loader) beyond the arguments and hypotheses above; the texts of log lines, usage and help;
  the JSON encoding of a marshalled value (kept as the value); the parser of command line flags; the packages'
  constructors that only store their options; the generated bindings of the eBPF programs; and the deployment
  (Helm, Timoni, Terraform, images), which is configuration without program logic. A second signal exits the
  process and is outside of \<open>main\<close>. One request reads the clock once.
\<close>

section \<open>Whose identity a caller gets\<close>

text \<open>C1. In eBPF mode, a request gets the credentials of the pod whose process opened the connection, and of no
  other: whatever the request says, every ServiceAccount that is read and every token that is requested
  while it is served belongs to a running pod of the node whose UID is in the cgroup path that the
  sockops hook recorded for the 4-tuple. This holds with the listing and the watching pod provider,
  through both byte orders of the map key, and a process cannot change it by creating cgroups below
  its own.\<close>

theorem ebpf_identity:
  assumes "server_ok s cn" "RoutingMode s = RoutingModeBPF" "Attestation s = Some (bpf_attestation w)" "bpf_ok w"
    and "Pods_GetByUID s = source_GetByUID (NodeName s, src)" "source_ok (NodeName s, src)"
    and "accepted t cn" "bpf_path_of w t = Some (base @ nested)" "podUIDPattern base = Some u"
    and "sv_calls a = []" "serve s now (incoming cn verb path query headers) (fresh a) = Ret st"
    and "c \<in> set (sv_calls (app st))" "call_ref c = Some ref"
  shows "\<exists>pod. isPodRunning pod \<and> pod_NodeName pod = NodeName s \<and> pod_UID pod = canonical_uid u \<and>
    ref = ReferenceFromPod pod"
proof -
  have "conn_ref s cn ref" by (rule served_ref [OF assms(1,10-13)])
  moreover have "attested s (quad_addr (c_src t))" using assms(2) by (simp add: attested_def)
  moreover have "at_Lookup (bpf_attestation w) = bpf_Lookup (bw_map w) (bw_tree w)" by (simp add: bpf_attestation_def)
  ultimately show ?thesis
    using bpf_system.attested_ref [OF assms(4,6,3) _ assms(5,7) _ assms(8,9)] by (auto simp: uid_match_def)
qed

theorem ebpf_identity_witness:
  "\<exists>st pod. serve (sys_server RoutingModeBPF (bpf_attestation sys_bpf)) web_time
      (incoming (sys_conn example_conn) ''GET'' (sa_path ''default'' ''token'') [] google_header) (fresh web_state) = Ret st \<and>
    CallServiceAccountToken (ReferenceFromPod pod) \<in> set (sv_calls (app st)) \<and> pod_UID pod = sys_uid"
proof -
  let ?s = "sys_server RoutingModeBPF (bpf_attestation sys_bpf)" and ?cn = "sys_conn example_conn"
  have s: "RoutingMode ?s = RoutingModeBPF" "Attestation ?s = Some (bpf_attestation sys_bpf)" "NodeName ?s = ''node-1''"
      "Pods_GetByUID ?s = source_GetByUID (''node-1'', sys_source)"
    by (simp_all add: sys_server_def web_server_def)
  have "conn_uid ?s ?cn sys_uid"
    using accepted_tuple [OF sys_accepted, of example_conn] s sys_lookup unfolding conn_uid_def attested_def by blast
  then have "conn_pod ?s ?cn sys_pod" using sys_pod_found(1) s(4) unfolding conn_pod_def by auto
  from sys_token_request [OF this] obtain st where
    st: "serve ?s web_time (incoming ?cn ''GET'' (sa_path ''default'' ''token'') [] google_header) (fresh web_state) = Ret st"
      "CallServiceAccountToken (ReferenceFromPod sys_pod) \<in> set (sv_calls (app st))" .
  have ok: "server_ok ?s ?cn" by (rule sys_server_ok) (rule bpf_attestation_total)
  have path: "bpf_path_of sys_bpf example_conn = Some ((''/sys/fs/cgroup/kubepods-pod'' @ example_uid @ ''.slice'') @ [])"
    using sys_bpf_path by simp
  obtain pod where "pod_UID pod = canonical_uid example_uid" "ReferenceFromPod sys_pod = ReferenceFromPod pod"
    using ebpf_identity [OF ok s(1,2) sys_bpf_ok _ _ sys_accepted path example_pod_path _ st(1,2)] s(3,4) sys_source_ok
    by (auto simp: web_state_def)
  then show ?thesis using st sys_uid by metis
qed



text \<open>C3. Without attestation (outside eBPF mode, for any other source address) a request gets the credentials of
  a running pod of the node that is not on the host network and has the source address of the
  connection, whatever state of the pods each attempt of the lookup saw.\<close>

theorem address_identity:
  assumes "server_ok s cn" "RoutingMode s \<noteq> RoutingModeBPF" "\<not> isHostSourceIP (quad_addr (c_src t)) (PodIP s)"
    and "\<forall>i. source_ok (NodeName s, src i) \<and> (\<forall>ip. Pods_GetByIP s ip i = source_GetByIP (NodeName s, src i) ip)"
    and "accepted t cn" "sv_calls a = []" "serve s now (incoming cn verb path query headers) (fresh a) = Ret st"
    and "c \<in> set (sv_calls (app st))" "call_ref c = Some ref"
  shows "\<exists>pod. isPodRunning pod \<and> pod_NodeName pod = NodeName s \<and> \<not> pod_HostNetwork pod \<and>
    pod_PodIP pod = Addr_String (quad_addr (c_src t)) \<and> ref = ReferenceFromPod pod"
proof -
  have "conn_ref s cn ref" by (rule served_ref [OF assms(1,6-9)])
  moreover have "\<not> attested s (quad_addr (c_src t))" using assms(2,3) by (simp add: attested_def)
  ultimately show ?thesis using ip_ref [OF assms(4,5)] by (auto simp: ip_match_def)
qed

theorem address_identity_witness:
  "\<exists>st pod. serve (sys_server RoutingModeNone (diag_attestation example_diag)) web_time
      (incoming (sys_conn sys_pod_conn) ''GET'' (sa_path ''default'' ''token'') [] google_header) (fresh web_state) = Ret st \<and>
    CallServiceAccountToken (ReferenceFromPod pod) \<in> set (sv_calls (app st)) \<and> pod_PodIP pod = ''10.8.0.7'' \<and>
    \<not> pod_HostNetwork pod"
proof -
  let ?s = "sys_server RoutingModeNone (diag_attestation example_diag)" and ?cn = "sys_conn sys_pod_conn"
  have s: "RoutingMode ?s \<noteq> RoutingModeBPF" "NodeName ?s = ''node-1''" "PodIP ?s = ''10.0.0.2''"
      "\<And>ip i. Pods_GetByIP ?s ip i = source_GetByIP (''node-1'', sys_source) ip"
    by (simp_all add: sys_server_def web_server_def api_defs)
  from sys_token_request [OF sys_conn_pod] obtain st where
    st: "serve ?s web_time (incoming ?cn ''GET'' (sa_path ''default'' ''token'') [] google_header) (fresh web_state) = Ret st"
      "CallServiceAccountToken (ReferenceFromPod sys_pod) \<in> set (sv_calls (app st))" .
  have ok: "server_ok ?s ?cn" by (rule sys_server_ok) (simp add: diag_attestation_def)
  have src: "\<forall>i::nat. source_ok (NodeName ?s, sys_source) \<and> (\<forall>ip. Pods_GetByIP ?s ip i = source_GetByIP (NodeName ?s, sys_source) ip)"
    using s(2,4) sys_source_ok by simp
  obtain pod where "pod_PodIP pod = ''10.8.0.7''" "\<not> pod_HostNetwork pod" "ReferenceFromPod sys_pod = ReferenceFromPod pod"
    using address_identity [OF ok s(1) _ src sys_accepted _ st(1,2)] sys_not_host s(3) sys_pod_addr by (auto simp: web_state_def)
  then show ?thesis using st by metis
qed

section \<open>Readiness\<close>

text \<open>C21. In eBPF mode, \<open>/readyz\<close> answers 200 only when the sockops hook works: the connection of its own request is
  in the hook's history, so the attestation of other connections can be trusted to be recorded too.\<close>

theorem ready_means_captured:
  assumes "readyz s e st = Ret st'" "w_sent st = None" "map_option fst (w_sent st') = Some 200"
    and "Attestation s = Some (bpf_attestation w)" "bpf_ok w"
    and "rz_local e = Some l" "rz_remote e = Some r"
    and "To4 (tcp_IP l) = Some (quad_addr (c_src t))" "To4 (tcp_IP r) = Some (quad_addr (c_dst t))"
    and "tcp_Port l = uint (c_sport t)" "tcp_Port r = uint (c_dport t)"
  shows "last_owner (bw_events w) t \<noteq> None"
proof -
  have "bpf_Verify (bw_map w) (quad_addr (c_src t)) (quad_addr (c_dst t)) (c_sport t) (c_dport t) = Ret None"
    using readyz_200 [OF assms(1-4,6,7)] assms(8-11) by (simp add: bpf_attestation_def)
  then show ?thesis by (rule verified_recorded [OF assms(5)])
qed

theorem ready_means_captured_witness:
  "\<exists>st'. readyz (sys_server RoutingModeBPF (bpf_attestation sys_bpf)) sys_self_request (fresh ()) = Ret st' \<and>
     map_option fst (w_sent st') = Some 200 \<and> last_owner (bw_events sys_bpf) example_conn \<noteq> None"
proof -
  let ?s = "sys_server RoutingModeBPF (bpf_attestation sys_bpf)"
  obtain st' where run: "readyz ?s sys_self_request (fresh ()) = Ret st'" "map_option fst (w_sent st') = Some 200"
    by (rule sys_readyz)
  have "Attestation ?s = Some (bpf_attestation sys_bpf)" by (simp add: sys_server_def)
  from ready_means_captured [OF run(1) _ run(2) this sys_bpf_ok, of _ _ example_conn] run show ?thesis
    by (auto simp: sys_self_request_def example_conn_def quad_addr_def To4_def Is4_def)
qed

section \<open>The token a caller gets\<close>

text \<open>C6. End to end, the access token in the answer is the one that the token exchange issued for the caller: a
  token of the ServiceAccount of the connection's pod is created for the provider's audience and exchanged,
  impersonating the Google account that the ServiceAccount is annotated with, for the requested scopes.\<close>

theorem token_exchanged:
  assumes "uncached be c s" "conn_pod s cn pod" "ref_email s (ReferenceFromPod pod) email"
    and "account = ''default'' \<or> account = (case email of Some e \<Rightarrow> e | None \<Rightarrow> WorkloadIdentityPool s)" "plain_piece account"
    and "header_get headers MetadataFlavorHeader = MetadataFlavorGoogle"
    and "Check (env_preflight s) preflight_versions = Ret None"
    and "CreateToken be (pod_Namespace pod) (pod_ServiceAccountName pod) [WorkloadIdentityProviderAudience c] = Inr (jwt, t0)"
    and "Exchange be (ext_config_of c jwt email (scopes_of (header_get query ''scopes''))) = Inr tok" "AccessToken tok \<noteq> []"
    and "\<exists>direct. Exchange be (ext_config_of c jwt None (scopes_of (header_get query ''scopes''))) = Inr direct"
  shows "\<exists>st' secs. serve s now (incoming cn verb (sa_path account ''token'') query headers) (fresh a) = Ret st' \<and>
    map_option fst (w_sent st') = Some 200 \<and>
    w_body st' = [BJSON (AMap [(''access_token'', AString (AccessToken tok)), (''expires_in'', AInt secs),
      (''token_type'', AString ''Bearer'')])]"
  by (rule exchange_served [OF assms])

theorem token_exchanged_witness:
  "\<exists>st' secs. serve (with_backend example_backend \<lparr>WorkloadIdentityProvider = ''p''\<rparr> (sys_server RoutingModeNone (diag_attestation example_diag)))
      web_time (incoming (sys_conn sys_pod_conn) ''GET'' (sa_path ''default'' ''token'') [] google_header) (fresh web_state) = Ret st' \<and>
    w_body st' = [BJSON (AMap [(''access_token'', AString (''shop/web'' @
        ''https://iamcredentials.googleapis.com/v1/projects/-/serviceAccounts/'' @ ''web@proj.iam.gserviceaccount.com'' @ '':generateAccessToken'')),
      (''expires_in'', AInt secs), (''token_type'', AString ''Bearer'')])]"
proof -
  let ?s = "with_backend example_backend \<lparr>WorkloadIdentityProvider = ''p''\<rparr> (sys_server RoutingModeNone (diag_attestation example_diag))"
  have pod: "conn_pod ?s (sys_conn sys_pod_conn) sys_pod" using sys_conn_pod with_backend_pod by blast
  have email: "ref_email ?s (ReferenceFromPod sys_pod) (Some ''web@proj.iam.gserviceaccount.com'')"
    using sys_email with_backend_email by blast
  have h: "header_get google_header MetadataFlavorHeader = MetadataFlavorGoogle" "plain_piece ''default''"
      "Check (env_preflight ?s) preflight_versions = Ret None"
    by (simp_all add: google_header_def header_get_def with_backend_def sys_server_def web_server_def Check_def plain_piece_def)
  have jwt: "CreateToken example_backend (pod_Namespace sys_pod) (pod_ServiceAccountName sys_pod)
      [WorkloadIdentityProviderAudience \<lparr>WorkloadIdentityProvider = ''p''\<rparr>] = Inr (''shop/web'', time_Unix 5000)"
    by (simp add: example_backend_def sys_pod_def web_pod_def zero_pod_def)
  show ?thesis
    using token_exchanged [OF with_backend_uncached pod email _ h(2,1,3) jwt, of "[]" _ web_time "''GET''" web_state]
    by (auto simp: example_backend_def ext_config_of_def)
qed

text \<open>C7. The whole path of a pod's request in eBPF mode. A process of the cgroup \<open>g\<close>, which is not the emulator's,
  connects to 169.254.169.254:80: the redirect sends it to the emulator's address and port. The hook
  recorded the connection, and the cgroup belongs to a pod of the provider. Its request for a token is then
  answered with the token that was exchanged for a token of that pod's own ServiceAccount.\<close>

theorem ebpf_token:
  assumes "redirect_LoadAndAttach env (quad_addr ip) port rst = Ret (Inr closer, rst')" "selfCgroupID env \<noteq> Inr g"
    and "redirect_connect4 (rs_config rst') g (sock_addr_of AF_INET IPPROTO_TCP (169, 254, 169, 254) 80) =
      sock_addr_of AF_INET IPPROTO_TCP (c_dst t) (c_dport t)"
    and "recorded w t g" "PodUIDFromCgroupID (bw_tree w) g = Inr uid"
    and "RoutingMode s = RoutingModeBPF" "Attestation s = Some (bpf_attestation w)" "accepted t cn" "Pods_GetByUID s uid = Inr pod"
    and "uncached be c s" "ref_email s (ReferenceFromPod pod) email"
    and "header_get headers MetadataFlavorHeader = MetadataFlavorGoogle"
    and "Check (env_preflight s) preflight_versions = Ret None"
    and "CreateToken be (pod_Namespace pod) (pod_ServiceAccountName pod) [WorkloadIdentityProviderAudience c] = Inr (jwt, t0)"
    and "Exchange be (ext_config_of c jwt email (scopes_of (header_get query ''scopes''))) = Inr tok" "AccessToken tok \<noteq> []"
    and "\<exists>direct. Exchange be (ext_config_of c jwt None (scopes_of (header_get query ''scopes''))) = Inr direct"
  shows "c_dst t = ip \<and> c_dport t = word_of_int port \<and>
    (\<exists>st' secs. serve s now (incoming cn verb (sa_path ''default'' ''token'') query headers) (fresh a) = Ret st' \<and>
      map_option fst (w_sent st') = Some 200 \<and>
      w_body st' = [BJSON (AMap [(''access_token'', AString (AccessToken tok)), (''expires_in'', AInt secs),
        (''token_type'', AString ''Bearer'')])])"
proof -
  have "sock_addr_of AF_INET IPPROTO_TCP (c_dst t) (c_dport t) = sock_addr_of AF_INET IPPROTO_TCP ip (word_of_int port)"
    using redirect_loaded(1) [OF assms(1), of g AF_INET IPPROTO_TCP "(169, 254, 169, 254)" 80] assms(2,3) by simp
  then have "c_dst t = ip \<and> c_dport t = word_of_int port" by (simp only: sock_addr_of_eq)
  moreover have "conn_pod s cn pod" by (rule recorded_pod [OF assms(4-9)])
  moreover have "plain_piece ''default''" by (simp add: plain_piece_def)
  ultimately show ?thesis
    using exchange_served [OF assms(10) _ assms(11) _ _ assms(12-17), of cn "''default''" now verb a] by blast
qed

theorem ebpf_token_witness:
  "\<exists>rst' st' secs. redirect_LoadAndAttach sys_redirect_env (quad_addr (c_dst example_conn)) 16321 redirect_init = Ret (Inr CloseRedirect, rst') \<and>
    serve (with_backend example_backend \<lparr>WorkloadIdentityProvider = ''p''\<rparr> (sys_server RoutingModeBPF (bpf_attestation sys_bpf)))
      web_time (incoming (sys_conn example_conn) ''GET'' (sa_path ''default'' ''token'') [] google_header) (fresh web_state) = Ret st' \<and>
    w_body st' = [BJSON (AMap [(''access_token'', AString (''shop/web'' @
        ''https://iamcredentials.googleapis.com/v1/projects/-/serviceAccounts/'' @ ''web@proj.iam.gserviceaccount.com'' @ '':generateAccessToken'')),
      (''expires_in'', AInt secs), (''token_type'', AString ''Bearer'')])]"
proof -
  let ?s = "with_backend example_backend \<lparr>WorkloadIdentityProvider = ''p''\<rparr> (sys_server RoutingModeBPF (bpf_attestation sys_bpf))"
  obtain rst' where load: "redirect_LoadAndAttach sys_redirect_env (quad_addr (c_dst example_conn)) 16321 redirect_init = Ret (Inr CloseRedirect, rst')"
    using sys_redirect_load by blast
  have other: "selfCgroupID sys_redirect_env \<noteq> Inr 7" by (simp add: sys_redirect_cgroup)
  have hook: "redirect_connect4 (rs_config rst') 7 (sock_addr_of AF_INET IPPROTO_TCP (169, 254, 169, 254) 80) =
      sock_addr_of AF_INET IPPROTO_TCP (c_dst example_conn) (c_dport example_conn)"
    using redirect_loaded(1) [OF load, of 7 AF_INET IPPROTO_TCP "(169, 254, 169, 254)" 80] other by (simp add: example_conn_def)
  have uid: "PodUIDFromCgroupID (bw_tree sys_bpf) 7 = Inr sys_uid" using example_walk sys_uid by (simp add: sys_bpf_def)
  have s: "RoutingMode ?s = RoutingModeBPF" "Attestation ?s = Some (bpf_attestation sys_bpf)" "Pods_GetByUID ?s sys_uid = Inr sys_pod"
      "Check (env_preflight ?s) preflight_versions = Ret None"
    using sys_pod_found(1) by (simp_all add: with_backend_def sys_server_def web_server_def Check_def)
  have email: "ref_email ?s (ReferenceFromPod sys_pod) (Some ''web@proj.iam.gserviceaccount.com'')"
    using sys_email with_backend_email by blast
  have h: "header_get google_header MetadataFlavorHeader = MetadataFlavorGoogle" by (simp add: google_header_def header_get_def)
  have jwt: "CreateToken example_backend (pod_Namespace sys_pod) (pod_ServiceAccountName sys_pod)
      [WorkloadIdentityProviderAudience \<lparr>WorkloadIdentityProvider = ''p''\<rparr>] = Inr (''shop/web'', time_Unix 5000)"
    by (simp add: example_backend_def sys_pod_def web_pod_def zero_pod_def)
  show ?thesis
    using load ebpf_token [OF load other hook sys_recorded uid s(1,2) sys_accepted s(3) with_backend_uncached email h s(4) jwt,
        of "[]" _ web_time "''GET''" web_state]
    by (auto simp: example_backend_def ext_config_of_def)
qed

end
